(* ===== verification/GoPrelude.thy ===== *)
theory GoPrelude
  imports
    Main
    "HOL-Library.Multiset"
    "HOL-Library.Word"
    "HOL-Library.Monad_Syntax"
    "HOL-Library.Signed_Division"
begin

text \<open>
  Shared ground of the development: the pieces of the Go language and of its standard library
  that the sources use, and the generic lemmas about them.

  \<^item> A Go panic is \<open>None\<close> of the option monad; a Go \<open>error\<close> result is an ordinary value of
    the returned tuple, so the state an error leaves behind is never lost.
  \<^item> Go \<open>int\<close> is \<open>int\<close>; \<open>%\<close> truncates towards zero and panics on a zero divisor.
  \<^item> A slice is a list with value semantics; a read out of range panics.
  \<^item> A map is a partial function; reading a missing key gives the zero value of the value type.
  \<^item> \<open>sort.Sort\<close> rearranges its argument only through \<open>Swap(i, j)\<close> calls with both indices in
    range.  Which swaps it makes is a parameter (a function from the slice to the swap sequence),
    since the orders the program hands to it are not strict weak orders and the library
    then leaves the outcome open.
\<close>

section \<open>Fact collections\<close>

named_theorems go_defs \<open>definitions of the Go primitives\<close>
named_theorems mset_simps \<open>multiset equations of list rearrangements\<close>
named_theorems eval_defs \<open>definitions unfolded to evaluate a model function on concrete input\<close>

section \<open>Integers\<close>

definition go_rem :: "int \<Rightarrow> int \<Rightarrow> int option" where
  "go_rem a b = (if b = 0 then None else Some (a smod b))"

section \<open>Slices and maps\<close>

definition go_index :: "'a list \<Rightarrow> int \<Rightarrow> 'a option" where
  "go_index xs i = (if 0 \<le> i \<and> i < int (length xs) then Some (xs ! nat i) else None)"

definition go_update :: "'a list \<Rightarrow> int \<Rightarrow> 'a \<Rightarrow> 'a list option" where
  "go_update xs i v = (if 0 \<le> i \<and> i < int (length xs) then Some (xs[nat i := v]) else None)"

definition map_get :: "'v \<Rightarrow> ('k \<rightharpoonup> 'v) \<Rightarrow> 'k \<Rightarrow> 'v" where
  "map_get zero m k = (case m k of None \<Rightarrow> zero | Some v \<Rightarrow> v)"

text \<open>The order in which a \<open>range\<close> loop visits the keys of a map is not specified: the visited
  list is any duplicate-free enumeration of the keys.\<close>

definition range_order :: "'k list \<Rightarrow> ('k \<rightharpoonup> 'v) \<Rightarrow> bool" where
  "range_order ks m \<longleftrightarrow> distinct ks \<and> set ks = dom m"

section \<open>Swapping and sorting\<close>

definition swapAt :: "'a list \<Rightarrow> nat \<Rightarrow> nat \<Rightarrow> 'a list" where
  "swapAt xs i j = xs[i := xs ! j, j := xs ! i]"

type_synonym 'a swaps = "'a list \<Rightarrow> (nat \<times> nat) list"

fun applySwaps :: "'a list \<Rightarrow> (nat \<times> nat) list \<Rightarrow> 'a list" where
  "applySwaps xs [] = xs"
| "applySwaps xs ((i, j) # ss) =
     applySwaps (if i < length xs \<and> j < length xs then swapAt xs i j else xs) ss"

definition goSort :: "'a swaps \<Rightarrow> 'a list \<Rightarrow> 'a list" where
  "goSort pick xs = applySwaps xs (pick xs)"

text \<open>The insertion sort that the library runs on at most twelve elements, as an instance of the
  swap sequence: \<open>for i := 1; i < n; i++ { for j := i; j > 0 && less(j, j-1); j-- { swap } }\<close>.\<close>

fun insertionInner :: "('a \<Rightarrow> 'a \<Rightarrow> bool) \<Rightarrow> 'a list \<Rightarrow> nat \<Rightarrow> (nat \<times> nat) list \<times> 'a list" where
  "insertionInner lt xs 0 = ([], xs)"
| "insertionInner lt xs (Suc j) =
     (if lt (xs ! Suc j) (xs ! j)
      then (let (ss, ys) = insertionInner lt (swapAt xs (Suc j) j) j in ((Suc j, j) # ss, ys))
      else ([], xs))"

fun insertionOuter :: "('a \<Rightarrow> 'a \<Rightarrow> bool) \<Rightarrow> 'a list \<Rightarrow> nat list \<Rightarrow> (nat \<times> nat) list" where
  "insertionOuter lt xs [] = []"
| "insertionOuter lt xs (i # is) =
     (let (ss, ys) = insertionInner lt xs i in ss @ insertionOuter lt ys is)"

definition insertionSwaps :: "('a \<Rightarrow> 'a \<Rightarrow> bool) \<Rightarrow> 'a swaps" where
  "insertionSwaps lt xs = insertionOuter lt xs [1..<length xs]"

section \<open>Decimal text\<close>

definition digit :: "nat \<Rightarrow> char" where
  "digit n = char_of (48 + n)"

fun show_nat :: "nat \<Rightarrow> string" where
  "show_nat n = (if n < 10 then [digit n] else show_nat (n div 10) @ [digit (n mod 10)])"

declare show_nat.simps [simp del]

definition show_int :: "int \<Rightarrow> string" where
  "show_int i = (if i < 0 then ''-'' @ show_nat (nat (- i)) else show_nat (nat i))"

definition is_digit :: "char \<Rightarrow> bool" where
  "is_digit c \<longleftrightarrow> 48 \<le> (of_char c :: nat) \<and> (of_char c :: nat) \<le> 57"

fun digits_value :: "nat \<Rightarrow> string \<Rightarrow> nat" where
  "digits_value acc [] = acc"
| "digits_value acc (c # cs) = digits_value (10 * acc + (of_char c - 48)) cs"

text \<open>\<open>strconv.Atoi\<close>: an optional sign, at least one decimal digit, and a value that fits a 64-bit
  \<open>int\<close>; anything else is an error.\<close>

definition atoi :: "string \<Rightarrow> int option" where
  "atoi s =
     (let (neg, ds) = (case s of
          [] \<Rightarrow> (False, [])
        | c # cs \<Rightarrow> if c = CHR ''-'' then (True, cs) else if c = CHR ''+'' then (False, cs) else (False, s));
          v = (if neg then - int (digits_value 0 ds) else int (digits_value 0 ds))
      in if ds \<noteq> [] \<and> list_all is_digit ds \<and> - (2 ^ 63) \<le> v \<and> v < 2 ^ 63 then Some v else None)"

text \<open>\<open>strings.ToLower\<close> on ASCII text.\<close>

definition to_lower_char :: "char \<Rightarrow> char" where
  "to_lower_char c =
     (if 65 \<le> (of_char c :: nat) \<and> (of_char c :: nat) \<le> 90 then char_of ((of_char c :: nat) + 32) else c)"

definition to_lower :: "string \<Rightarrow> string" where
  "to_lower s = map to_lower_char s"

section \<open>Lemmas\<close>

lemmas option_bind_simps = Option.bind_eq_Some_conv Option.bind_eq_None_conv

lemma go_index_Some:
  "go_index xs i = Some x \<longleftrightarrow> 0 \<le> i \<and> i < int (length xs) \<and> x = xs ! nat i"
  by (auto simp: go_index_def)

lemma go_index_None: "go_index xs i = None \<longleftrightarrow> i < 0 \<or> int (length xs) \<le> i"
  by (auto simp: go_index_def)

lemma go_index_in [simp]: "0 \<le> i \<Longrightarrow> i < int (length xs) \<Longrightarrow> go_index xs i = Some (xs ! nat i)"
  by (simp add: go_index_def)

lemma go_update_in [simp]: "0 \<le> i \<Longrightarrow> i < int (length xs) \<Longrightarrow> go_update xs i v = Some (xs[nat i := v])"
  by (simp add: go_update_def)

lemma go_rem_Some: "go_rem a b = Some r \<longleftrightarrow> b \<noteq> 0 \<and> r = a smod b"
  by (auto simp: go_rem_def)

lemma go_rem_None: "go_rem a b = None \<longleftrightarrow> b = 0"
  by (simp add: go_rem_def)

lemma map_get_upd [simp]: "map_get z (m(k \<mapsto> v)) x = (if x = k then v else map_get z m x)"
  by (simp add: map_get_def)

lemma map_get_Some: "m k = Some v \<Longrightarrow> map_get z m k = v"
  by (simp add: map_get_def)

lemma length_swapAt [simp]: "length (swapAt xs i j) = length xs"
  by (simp add: swapAt_def)

lemma mset_swapAt [simp, mset_simps]:
  "i < length xs \<Longrightarrow> j < length xs \<Longrightarrow> mset (swapAt xs i j) = mset xs"
  by (simp add: swapAt_def mset_swap)

lemma mset_applySwaps [simp, mset_simps]: "mset (applySwaps xs ss) = mset xs"
  by (induction xs ss rule: applySwaps.induct) auto

lemma mset_goSort [simp, mset_simps]: "mset (goSort pick xs) = mset xs"
  by (simp add: goSort_def)

lemma set_goSort [simp]: "set (goSort pick xs) = set xs"
  by (metis mset_goSort set_mset_mset)

lemma length_goSort [simp]: "length (goSort pick xs) = length xs"
  by (metis mset_goSort size_mset)

lemma goSort_Nil_iff [simp]: "goSort pick xs = [] \<longleftrightarrow> xs = []"
  by (metis length_0_conv length_goSort)

text \<open>Removing one position from a list.\<close>

lemma mset_remove_nth [mset_simps]:
  assumes "i < length xs"
  shows "mset (take i xs @ drop (Suc i) xs) = mset xs - {#xs ! i#}"
proof -
  have "mset xs = mset (take i xs @ xs ! i # drop (Suc i) xs)"
    using id_take_nth_drop [OF assms] by simp
  then show ?thesis by simp
qed

lemma length_remove_nth: "i < length xs \<Longrightarrow> length (take i xs @ drop (Suc i) xs) = length xs - 1"
  by simp

lemma mset_last_butlast [mset_simps]: "xs \<noteq> [] \<Longrightarrow> add_mset (last xs) (mset (butlast xs)) = mset xs"
  by (induction xs) (auto simp: add_mset_commute)

lemma mset_exchange:
  fixes s s' h h' a b :: "'a multiset"
  assumes "s' + h' = s + h" and "a + h = b + h'"
  shows "a + s' = b + s"
proof -
  have "(a + s') + (h + h') = (a + h) + (s' + h')" by (simp add: ac_simps)
  also have "\<dots> = (b + h') + (s + h)" by (simp only: assms)
  also have "\<dots> = (b + s) + (h + h')" by (simp add: ac_simps)
  finally show ?thesis by simp
qed

text \<open>A sum over a duplicate-free list of keys, when one key's summand changes.\<close>

lemma sum_list_update_one:
  fixes f :: "'k \<Rightarrow> 'a :: comm_monoid_add"
  assumes "distinct ks" and "k \<in> set ks" and "\<And>x. x \<noteq> k \<Longrightarrow> g x = f x"
  shows "\<exists>r. sum_list (map f ks) = f k + r \<and> sum_list (map g ks) = g k + r"
  using assms
proof (induction ks)
  case (Cons a ks)
  show ?case
  proof (cases "a = k")
    case True
    with Cons.prems(1,3) have "map g ks = map f ks" by (intro map_cong refl) (metis distinct.simps(2))
    then have "sum_list (map g ks) = sum_list (map f ks)" by (rule arg_cong)
    with True show ?thesis by (intro exI [of _ "sum_list (map f ks)"]) simp
  next
    case False
    with Cons obtain r where "sum_list (map f ks) = f k + r" "sum_list (map g ks) = g k + r" by auto
    with False Cons.prems show ?thesis by (intro exI [of _ "f a + r"]) (simp add: ac_simps)
  qed
qed simp

text \<open>Truncated remainder of an index moved by one step round a ring.\<close>

lemma smod_nonneg: "0 \<le> a \<Longrightarrow> 0 < b \<Longrightarrow> a smod b = a mod (b::int)"
  by (cases "a = 0") (simp_all add: signed_modulo_int_def)

lemma smod_neg: "a < 0 \<Longrightarrow> 0 < b \<Longrightarrow> a smod b = - ((- a) mod (b::int))"
  by (simp add: signed_modulo_int_def)

lemma go_rem_nat: "0 < n \<Longrightarrow> go_rem (int a) (int n) = Some (int (a mod n))"
  by (simp add: go_rem_def smod_nonneg zmod_int)

text \<open>Two indices below the same bound that are congruent modulo it are equal.\<close>

lemma small_dvd_eq:
  fixes k l n :: int
  assumes "n dvd (k - l)" "0 \<le> k" "k < n" "0 \<le> l" "l < n"
  shows "k = l"
  using assms by (metis mod_eq_dvd_iff mod_pos_pos_trivial)

section \<open>Decimal text: the two directions agree\<close>

lemma of_char_digit: "n < 10 \<Longrightarrow> (of_char (digit n) :: nat) = 48 + n"
  by (simp add: digit_def)

lemma is_digit_digit: "n < 10 \<Longrightarrow> is_digit (digit n)"
  by (simp add: is_digit_def of_char_digit)

lemma digits_value_append: "digits_value acc (xs @ [c]) = 10 * digits_value acc xs + (of_char c - 48)"
  by (induction acc xs rule: digits_value.induct) auto

lemma show_nat_digits: "list_all is_digit (show_nat n) \<and> digits_value 0 (show_nat n) = n \<and> show_nat n \<noteq> []"
proof (induction n rule: show_nat.induct)
  case (1 n)
  then show ?case
    by (cases "n < 10") (simp_all add: show_nat.simps [of n] is_digit_digit of_char_digit digits_value_append)
qed

lemma show_nat_hd:
  obtains c cs where "show_nat n = c # cs" and "c \<noteq> CHR ''-''" and "c \<noteq> CHR ''+''"
proof -
  obtain c cs where "show_nat n = c # cs" using show_nat_digits [of n] by (cases "show_nat n") auto
  moreover from this have "is_digit c" using show_nat_digits [of n] by simp
  moreover from this have "c \<noteq> CHR ''-''" "c \<noteq> CHR ''+''" by (auto simp: is_digit_def)
  ultimately show ?thesis using that by blast
qed

lemma atoi_show_int: "- (2 ^ 63) \<le> i \<Longrightarrow> i < 2 ^ 63 \<Longrightarrow> atoi (show_int i) = Some i"
proof (cases "i < 0")
  case True
  assume "- (2 ^ 63) \<le> i" "i < 2 ^ 63"
  with True show ?thesis
    using show_nat_digits [of "nat (- i)"] by (simp add: show_int_def atoi_def)
next
  case False
  assume b: "- (2 ^ 63) \<le> i" "i < 2 ^ 63"
  obtain c cs where h: "show_nat (nat i) = c # cs" "c \<noteq> CHR ''-''" "c \<noteq> CHR ''+''"
    by (rule show_nat_hd)
  with show_nat_digits [of "nat i"]
  have d: "list_all is_digit (c # cs)" "digits_value 0 (c # cs) = nat i" by auto
  from False b h d show ?thesis by (simp add: show_int_def atoi_def)
qed

lemma show_int_inject: "- (2 ^ 63) \<le> i \<Longrightarrow> i < 2 ^ 63 \<Longrightarrow> - (2 ^ 63) \<le> j \<Longrightarrow> j < 2 ^ 63 \<Longrightarrow>
    show_int i = show_int j \<longleftrightarrow> i = j"
  by (metis atoi_show_int option.inject)

section \<open>Transition systems\<close>

text \<open>A component that runs in steps: what holds at the start and is kept by every step holds in
  every reachable state.\<close>

locale invariant_system =
  fixes init :: "'s \<Rightarrow> bool"
    and step :: "'s \<Rightarrow> 's \<Rightarrow> bool"
    and inv :: "'s \<Rightarrow> bool"
  assumes init_inv: "init s \<Longrightarrow> inv s"
    and step_inv: "inv s \<Longrightarrow> step s s' \<Longrightarrow> inv s'"
begin

lemma steps_inv: "step\<^sup>*\<^sup>* s s' \<Longrightarrow> inv s \<Longrightarrow> inv s'"
  by (induction rule: rtranclp_induct) (auto intro: step_inv)

lemma reachable_inv: "init s \<Longrightarrow> step\<^sup>*\<^sup>* s s' \<Longrightarrow> inv s'"
  by (rule steps_inv) (auto intro: init_inv)

lemma steps_stable:
  assumes "step\<^sup>*\<^sup>* s s'" "inv s" "P s" "\<And>a b. inv a \<Longrightarrow> P a \<Longrightarrow> step a b \<Longrightarrow> P b"
  shows "P s'"
  using assms(1-3)
proof (induction rule: rtranclp_induct)
  case (step b c)
  then show ?case using steps_inv [of s b] assms(4) by blast
qed

end

end
