(* ===== verification/History.thy ===== *)
theory History
  imports GoPrelude
begin

text \<open>
  The command history of the client (\<open>player_client/command_history.go\<close>): a ring buffer of the last
  commands and the position of the entry being shown.  The contract of a history that keeps the last
  \<open>n\<close> entries is the locale \<open>bounded_history\<close>, interpreted on the ring.
\<close>

section \<open>Data\<close>

record HistoryRing =
  ring_buffer :: "string list"
  ring_head :: int
  ring_size :: int

type_synonym HistoryPos = int

section \<open>Operations\<close>

definition NewHistoryRing :: "nat \<Rightarrow> HistoryRing" where
  "NewHistoryRing capacity = \<lparr>ring_buffer = replicate capacity [], ring_head = 0, ring_size = 0\<rparr>"

definition RingPush :: "string \<Rightarrow> HistoryRing \<Rightarrow> HistoryRing option" where
  "RingPush item h =
     (if ring_size h = int (length (ring_buffer h)) then do {
        b \<leftarrow> go_update (ring_buffer h) (ring_head h) item;
        let h = h\<lparr>ring_buffer := b\<rparr>;
        let h = h\<lparr>ring_head := ring_head h + 1\<rparr>;
        k \<leftarrow> go_rem (ring_head h) (int (length (ring_buffer h)));
        Some (h\<lparr>ring_head := k\<rparr>)
      } else do {
        end' \<leftarrow> go_rem (ring_head h + ring_size h) (int (length (ring_buffer h)));
        b \<leftarrow> go_update (ring_buffer h) end' item;
        let h = h\<lparr>ring_buffer := b\<rparr>;
        Some (h\<lparr>ring_size := ring_size h + 1\<rparr>)
      })"

definition RingLen :: "HistoryRing \<Rightarrow> int" where
  "RingLen h = ring_size h"

definition CurrentItemPos :: "HistoryPos \<Rightarrow> int" where
  "CurrentItemPos p = p - 1"

definition ResetPos :: HistoryPos where
  "ResetPos = 0"

definition clampInt :: "int \<Rightarrow> int \<Rightarrow> int \<Rightarrow> int" where
  "clampInt n lo hi =
     (let n = (if n \<ge> hi then hi else n)
      in if n \<le> lo then lo else n)"

text \<open>Reading the entry at distance \<open>cp\<close> from the newest, the end of both \<open>GetOlder\<close> and
  \<open>GetNewer\<close>.\<close>

definition entryAt :: "HistoryRing \<Rightarrow> int \<Rightarrow> string option" where
  "entryAt r cp = do {
     let bufLen = int (length (ring_buffer r));
     index \<leftarrow> go_rem (ring_head r + ring_size r - 1 - cp) bufLen;
     go_index (ring_buffer r) index
   }"

definition GetOlder :: "HistoryRing \<Rightarrow> HistoryPos \<Rightarrow> ((string \<times> bool) \<times> HistoryPos) option" where
  "GetOlder r p =
     (let cp = CurrentItemPos p;
          onReset = (cp = -1);
          cp = (if onReset then 0 else cp)
      in if cp = ring_size r then Some ((''<START_OF_HISTORY>'', False), p)
         else do {
           let nextCp = (if onReset then cp else cp + 1);
           let cp = clampInt nextCp 0 (ring_size r - 1);
           s \<leftarrow> entryAt r cp;
           Some ((s, True), cp + 1)
         })"

definition GetNewer :: "HistoryRing \<Rightarrow> HistoryPos \<Rightarrow> ((string \<times> bool) \<times> HistoryPos) option" where
  "GetNewer r p =
     (let cp = CurrentItemPos p
      in if cp \<le> 0 then Some ((''<END_OF_HISTORY>'', False), p)
         else do {
           let cp = clampInt (cp - 1) 0 (ring_size r - 1);
           s \<leftarrow> entryAt r cp;
           Some ((s, True), cp + 1)
         })"

definition PosPush :: "string \<Rightarrow> HistoryRing \<Rightarrow> (HistoryRing \<times> HistoryPos) option" where
  "PosPush item r = do {
     let p = ResetPos;
     r \<leftarrow> RingPush item r;
     Some (r, p)
   }"

fun pushAll :: "string list \<Rightarrow> HistoryRing \<Rightarrow> HistoryRing option" where
  "pushAll [] r = Some r"
| "pushAll (x # xs) r = do { r \<leftarrow> RingPush x r; pushAll xs r }"

section \<open>What the ring stands for\<close>

definition wf_ring :: "HistoryRing \<Rightarrow> bool" where
  "wf_ring r \<longleftrightarrow> 0 \<le> ring_head r \<and> ring_head r < int (length (ring_buffer r)) \<and>
     0 \<le> ring_size r \<and> ring_size r \<le> int (length (ring_buffer r))"

definition ringItems :: "HistoryRing \<Rightarrow> string list" where
  "ringItems r = map (\<lambda>i. ring_buffer r ! ((nat (ring_head r) + i) mod length (ring_buffer r))) [0..<nat (ring_size r)]"

definition lastN :: "nat \<Rightarrow> 'a list \<Rightarrow> 'a list" where
  "lastN n xs = drop (length xs - n) xs"

lemma lastN_snoc: "lastN n (lastN n xs @ ys) = lastN n (xs @ ys)"
proof (cases "length xs \<le> n")
  case False
  then have "length xs + length ys - n = length ys + (length xs - n)" by simp
  with False show ?thesis by (simp add: lastN_def)
qed (simp add: lastN_def)

lemma length_lastN [simp]: "length (lastN n xs) = min n (length xs)"
  by (auto simp: lastN_def)

text \<open>A history that keeps the last \<open>cap\<close> entries.\<close>

locale bounded_history =
  fixes push :: "'a \<Rightarrow> 's \<Rightarrow> 's option"
    and view :: "'s \<Rightarrow> 'a list"
    and cap :: "'s \<Rightarrow> nat"
    and wf :: "'s \<Rightarrow> bool"
    and pushes :: "'a list \<Rightarrow> 's \<Rightarrow> 's option"
  assumes push_view: "wf s \<Longrightarrow> \<exists>s'. push x s = Some s' \<and> wf s' \<and> cap s' = cap s \<and> view s' = lastN (cap s) (view s @ [x])"
    and view_cap: "wf s \<Longrightarrow> length (view s) \<le> cap s"
    and pushes_Nil: "pushes [] s = Some s"
    and pushes_Cons: "pushes (x # xs) s = push x s \<bind> pushes xs"
begin

lemma pushes_view:
  "wf s \<Longrightarrow> \<exists>s'. pushes xs s = Some s' \<and> wf s' \<and> cap s' = cap s \<and> view s' = lastN (cap s) (view s @ xs)"
proof (induction xs arbitrary: s)
  case Nil
  then show ?case using view_cap by (simp add: pushes_Nil lastN_def)
next
  case (Cons x xs)
  from push_view [OF Cons.prems] obtain s1 where s1: "push x s = Some s1" "wf s1" "cap s1 = cap s"
    "view s1 = lastN (cap s) (view s @ [x])" by blast
  with Cons.IH [OF s1(2)] show ?case by (auto simp: pushes_Cons lastN_snoc)
qed

lemma newest_last: "wf s \<Longrightarrow> 0 < cap s \<Longrightarrow> push x s = Some s' \<Longrightarrow> last (view s') = x"
  using push_view [of s x] by (auto simp: lastN_def)

end

section \<open>Lemmas\<close>

lemma mod_shift_neq:
  fixes h i j n :: nat
  assumes "i < j" "j < i + n"
  shows "(h + i) mod n \<noteq> (h + j) mod n"
proof
  assume "(h + i) mod n = (h + j) mod n"
  then have "n dvd (h + j) - (h + i)" using assms(1) by (metis mod_eq_dvd_iff_nat add_le_cancel_left less_imp_le)
  then show False using assms by (auto dest: dvd_imp_le)
qed

text \<open>What a push does to the items: a full ring loses its oldest item, another one only grows.\<close>

abbreviation ringOf :: "string list \<Rightarrow> nat \<Rightarrow> nat \<Rightarrow> HistoryRing" where
  "ringOf b h s \<equiv> \<lparr>ring_buffer = b, ring_head = int h, ring_size = int s\<rparr>"

lemma length_ringItems: "length (ringItems (ringOf b h s)) = s"
  by (simp add: ringItems_def)

lemma nth_ringItems: "i < s \<Longrightarrow> ringItems (ringOf b h s) ! i = b ! ((h + i) mod length b)"
  by (simp add: ringItems_def)

lemma ringItems_full:
  assumes "h < length b"
  shows "ringItems (ringOf (b[h := x]) ((h + 1) mod length b) (length b)) = tl (ringItems (ringOf b h (length b))) @ [x]"
    (is "?new = tl ?old @ [x]")
proof (rule nth_equalityI)
  let ?n = "length b"
  show "length ?new = length (tl ?old @ [x])" using assms by (simp add: length_ringItems)
  fix i assume "i < length ?new"
  then have i: "i < ?n" by (simp add: length_ringItems)
  have "((h + 1) mod ?n + i) mod ?n = (h + (i + 1)) mod ?n" by (simp add: mod_add_left_eq add.assoc)
  then have l: "?new ! i = b[h := x] ! ((h + (i + 1)) mod ?n)" using i by (simp add: nth_ringItems)
  show "?new ! i = (tl ?old @ [x]) ! i"
  proof (cases "i + 1 = ?n")
    case True
    then have "(h + (i + 1)) mod ?n = h" using assms by simp
    with l assms have "?new ! i = x" by simp
    moreover have "length (tl ?old) = i" using True by (simp add: length_ringItems)
    ultimately show ?thesis by (simp add: nth_append)
  next
    case False
    then have "(h + (i + 1)) mod ?n \<noteq> (h + 0) mod ?n" using i mod_shift_neq [of 0 "i + 1" ?n h] by simp
    then have "(h + (i + 1)) mod ?n \<noteq> h" using assms by simp
    moreover have "i < ?n - 1" using False i by linarith
    ultimately show ?thesis using l by (simp add: nth_append nth_tl length_ringItems nth_ringItems)
  qed
qed

lemma ringItems_room:
  assumes "h < length b" "s < length b"
  shows "ringItems (ringOf (b[(h + s) mod length b := x]) h (Suc s)) = ringItems (ringOf b h s) @ [x]" (is "?new = ?old @ [x]")
proof (rule nth_equalityI)
  let ?n = "length b"
  show "length ?new = length (?old @ [x])" by (simp add: length_ringItems del: of_nat_Suc)
  fix i assume "i < length ?new"
  then have i: "i < Suc s" by (simp add: length_ringItems del: of_nat_Suc)
  then have l: "?new ! i = b[(h + s) mod ?n := x] ! ((h + i) mod ?n)" by (simp add: nth_ringItems del: of_nat_Suc)
  show "?new ! i = (?old @ [x]) ! i"
  proof (cases "i = s")
    case True
    have "(h + s) mod ?n < ?n" using assms(1) by (intro mod_less_divisor) linarith
    with l True show ?thesis by (simp add: nth_append length_ringItems)
  next
    case False
    with i assms(2) have "(h + i) mod ?n \<noteq> (h + s) mod ?n" using mod_shift_neq [of i s ?n h] by simp
    with l i False show ?thesis by (simp add: nth_append length_ringItems nth_ringItems)
  qed
qed

lemma RingPush_spec:
  assumes "wf_ring r"
  shows "\<exists>r'. RingPush x r = Some r' \<and> wf_ring r' \<and> length (ring_buffer r') = length (ring_buffer r) \<and>
    ringItems r' = lastN (length (ring_buffer r)) (ringItems r @ [x])"
proof -
  obtain b h s where r: "r = ringOf b h s" "h < length b" "s \<le> length b"
    using assms by (cases r) (auto simp: wf_ring_def dest!: zero_le_imp_eq_int)
  let ?n = "length b"
  have ne: "0 < ?n" using r(2) by linarith
  show ?thesis
  proof (cases "s = ?n")
    case True
    let ?r = "ringOf (b[h := x]) ((h + 1) mod ?n) ?n"
    have "RingPush x r = Some ?r"
      using r True go_rem_nat [OF ne, of "h + 1"] by (auto simp: RingPush_def add.commute)
    moreover have "wf_ring ?r" using r ne by (simp add: wf_ring_def del: length_greater_0_conv)
    moreover have "length (ringItems r) = ?n" using r True by (simp add: length_ringItems)
    then have "lastN ?n (ringItems r @ [x]) = tl (ringItems r) @ [x]"
      using ne by (cases "ringItems r") (simp_all add: lastN_def)
    ultimately show ?thesis using r(1) True ringItems_full [OF r(2), of x] by simp
  next
    case False
    let ?r = "ringOf (b[(h + s) mod ?n := x]) h (Suc s)"
    have "RingPush x r = Some ?r"
      using r False go_rem_nat [OF ne, of "h + s"] mod_less_divisor [OF ne, of "h + s"] by (auto simp: RingPush_def)
    moreover have "wf_ring ?r" using r False ne by (simp add: wf_ring_def)
    moreover have "lastN ?n (ringItems r @ [x]) = ringItems r @ [x]" using r False by (simp add: lastN_def length_ringItems)
    ultimately show ?thesis using r False ringItems_room [OF r(2), of s x] by simp
  qed
qed

interpretation ring: bounded_history RingPush ringItems "\<lambda>r. length (ring_buffer r)" wf_ring pushAll
proof unfold_locales
  fix r x assume "wf_ring r"
  then show "\<exists>r'. RingPush x r = Some r' \<and> wf_ring r' \<and> length (ring_buffer r') = length (ring_buffer r) \<and>
      ringItems r' = lastN (length (ring_buffer r)) (ringItems r @ [x])" by (rule RingPush_spec)
next
  fix r assume "wf_ring r"
  then show "length (ringItems r) \<le> length (ring_buffer r)" by (simp add: ringItems_def wf_ring_def nat_le_iff)
qed simp_all

lemma wf_NewHistoryRing: "0 < n \<Longrightarrow> wf_ring (NewHistoryRing n)"
  by (simp add: wf_ring_def NewHistoryRing_def)

lemma ringItems_NewHistoryRing: "ringItems (NewHistoryRing n) = []"
  by (simp add: ringItems_def NewHistoryRing_def)

lemma entryAt_spec:
  assumes "wf_ring r" "k < length (ringItems r)"
  shows "entryAt r (int k) = Some (rev (ringItems r) ! k)"
proof -
  obtain b h s where r: "r = \<lparr>ring_buffer = b, ring_head = int h, ring_size = int s\<rparr>" "h < length b" "s \<le> length b"
    using assms(1) by (cases r) (auto simp: wf_ring_def dest!: zero_le_imp_eq_int)
  have k: "k < s" using assms(2) r by (simp add: ringItems_def)
  have ne: "0 < length b" using r(2) by linarith
  have e: "int h + int s - 1 - int k = int (h + (s - Suc k))" using k by simp
  have "entryAt r (int k) = Some (b ! ((h + (s - Suc k)) mod length b))"
    unfolding entryAt_def Let_def r(1) HistoryRing.simps e go_rem_nat [OF ne] using ne by simp
  then show ?thesis using k r(1) by (simp add: ringItems_def rev_nth)
qed

section \<open>Properties\<close>

text \<open>C35. A new history of positive capacity accepts any commands without panicking and holds exactly
  the most recent ones, as many as fit, in the order they were entered.\<close>

theorem HistoryRing_keeps_last:
  assumes "0 < n"
  shows "\<exists>r. pushAll xs (NewHistoryRing n) = Some r \<and> wf_ring r \<and> ringItems r = lastN n xs"
  using ring.pushes_view [OF wf_NewHistoryRing [OF assms], of xs]
  by (auto simp: ringItems_NewHistoryRing) (auto simp: NewHistoryRing_def)

theorem HistoryRing_keeps_last_witness:
  "\<exists>r. pushAll [''a'', ''b'', ''c'', ''d'', ''e''] (NewHistoryRing 4) = Some r \<and> ringItems r = [''b'', ''c'', ''d'', ''e'']"
  using HistoryRing_keeps_last [of 4 "[''a'', ''b'', ''c'', ''d'', ''e'']"] by (auto simp: lastN_def)

text \<open>Walking the history: on a well-formed ring with entries and a position within it,
  \<open>GetOlder\<close> shows the next older entry and stays at the oldest one, \<open>GetNewer\<close> goes one entry back
  towards the newest and refuses there, and neither panics; on an empty history \<open>GetOlder\<close> refuses.\<close>

theorem history_navigation:
  assumes "wf_ring r" "k \<le> length (ringItems r)"
  shows "GetOlder r (int k) =
      (if ringItems r = [] then Some ((''<START_OF_HISTORY>'', False), 0)
       else let j = min (Suc k) (length (ringItems r)) in Some ((rev (ringItems r) ! (j - 1), True), int j)) \<and>
    GetNewer r (int k) =
      (if k \<le> 1 then Some ((''<END_OF_HISTORY>'', False), int k)
       else Some ((rev (ringItems r) ! (k - 2), True), int (k - 1)))"
proof -
  let ?n = "length (ringItems r)"
  have n: "ring_size r = int ?n" using assms(1) by (simp add: ringItems_def wf_ring_def)
  have older: "GetOlder r (int k) = Some ((rev (ringItems r) ! (min (Suc k) ?n - 1), True), int (min (Suc k) ?n))"
    if "0 < ?n"
  proof (cases "k = 0")
    case True
    with that entryAt_spec [OF assms(1), of 0] show ?thesis
      by (cases "ringItems r") (simp_all add: GetOlder_def CurrentItemPos_def clampInt_def n Let_def)
  next
    case False
    define j where "j = min k (?n - 1)"
    have "clampInt (int k) 0 (int ?n - 1) = int j" using that by (auto simp: clampInt_def j_def min_def)
    moreover have "int k - 1 \<noteq> int ?n" "min (Suc k) ?n = Suc j" using assms(2) that unfolding j_def by linarith+
    ultimately show ?thesis using False that entryAt_spec [OF assms(1), of j]
      by (simp add: GetOlder_def CurrentItemPos_def n j_def Let_def)
  qed
  have newer: "GetNewer r (int k) = Some ((rev (ringItems r) ! (k - 2), True), int (k - 1))" if "1 < k"
  proof -
    have "clampInt (int k - 1 - 1) 0 (int ?n - 1) = int (k - 2)" using that assms(2) by (simp add: clampInt_def)
    with that assms(2) entryAt_spec [OF assms(1), of "k - 2"] show ?thesis
      by (simp add: GetNewer_def CurrentItemPos_def n)
  qed
  have "GetNewer r (int k) = Some ((''<END_OF_HISTORY>'', False), int k)" if "k \<le> 1"
    using that by (simp add: GetNewer_def CurrentItemPos_def)
  moreover have "GetOlder r (int k) = Some ((''<START_OF_HISTORY>'', False), 0)" if "ringItems r = []"
    using that assms(2) n by (simp add: GetOlder_def CurrentItemPos_def)
  ultimately show ?thesis using older newer by (simp add: Let_def)
qed

theorem history_navigation_witness:
  "let r = \<lparr>ring_buffer = [''e'', ''b'', ''c'', ''d''], ring_head = 1, ring_size = 4\<rparr> in
   wf_ring r \<and> GetOlder r 1 = Some ((''d'', True), 2) \<and> GetNewer r 3 = Some ((''d'', True), 2)"
proof -
  let ?r = "\<lparr>ring_buffer = [''e'', ''b'', ''c'', ''d''], ring_head = 1, ring_size = 4\<rparr>"
  have w: "wf_ring ?r" by (simp add: wf_ring_def)
  have i: "ringItems ?r = [''b'', ''c'', ''d'', ''e'']" by (simp add: ringItems_def upt_conv_Cons del: upt_Suc)
  have b: "1 \<le> length (ringItems ?r)" "3 \<le> length (ringItems ?r)" by (simp_all add: i)
  from history_navigation [OF w b(1)] history_navigation [OF w b(2)] w show ?thesis by (simp add: i Let_def)
qed

end
