(* ===== verification/Cards.thy ===== *)
theory Cards
  imports GoPrelude
begin

unbundle bit_operations_syntax

text \<open>
  Cards: the numbers, colours and the \<open>Card\<close> struct of \<open>uknow.go\<close> with their predicates and
  printers, and the 32-bit encoding of \<open>card_hash.go\<close>.  \<open>Number\<close> and \<open>Color\<close> are Go \<open>int\<close>
  types, so the model keeps them as \<open>int\<close>: values outside the named constants exist and are
  printed, encoded and rejected as the code does.  The encoding is on \<open>32 word\<close>.
  The contract of an encoder/decoder pair is the locale \<open>codec\<close>, interpreted on the card
  encoding.
\<close>

section \<open>Data\<close>

type_synonym Number = int
type_synonym Color = int

record Card =
  Number :: Number
  Color :: Color

abbreviation (input) NumberSkip :: Number where "NumberSkip \<equiv> 10"
abbreviation (input) NumberReverse :: Number where "NumberReverse \<equiv> 11"
abbreviation (input) NumberDrawTwo :: Number where "NumberDrawTwo \<equiv> 12"
abbreviation (input) NumberWild :: Number where "NumberWild \<equiv> 13"
abbreviation (input) NumberWildDrawFour :: Number where "NumberWildDrawFour \<equiv> 14"

abbreviation (input) ColorWild :: Color where "ColorWild \<equiv> 0"
abbreviation (input) ColorRed :: Color where "ColorRed \<equiv> 1"
abbreviation (input) ColorGreen :: Color where "ColorGreen \<equiv> 2"
abbreviation (input) ColorBlue :: Color where "ColorBlue \<equiv> 3"
abbreviation (input) ColorYellow :: Color where "ColorYellow \<equiv> 4"

abbreviation (input) mkCard :: "Number \<Rightarrow> Color \<Rightarrow> Card" where
  "mkCard n c \<equiv> \<lparr>Number = n, Color = c\<rparr>"

datatype CardError =
    InvalidCardNumber int
  | ErrInvalidCardColor
  | ErrInvalidCardNumber

section \<open>Predicates\<close>

definition IsLessThan :: "Card \<Rightarrow> Card \<Rightarrow> bool" where
  "IsLessThan c c1 \<longleftrightarrow> Color c < Color c1 \<or> Number c < Number c1"

definition IsEqual :: "Card \<Rightarrow> Card \<Rightarrow> bool" where
  "IsEqual c c1 \<longleftrightarrow> Color c = Color c1 \<and> Number c = Number c1"

definition IsAction :: "Number \<Rightarrow> bool" where
  "IsAction num \<longleftrightarrow> NumberSkip \<le> num \<and> num \<le> NumberWildDrawFour"

definition IsWild :: "Card \<Rightarrow> bool" where
  "IsWild c \<longleftrightarrow> Number c = NumberWild \<or> Number c = NumberWildDrawFour"

definition IntToNumber :: "int \<Rightarrow> CardError + Number" where
  "IntToNumber n = (if 0 \<le> n \<and> n \<le> NumberWildDrawFour then Inr n else Inl (InvalidCardNumber n))"

section \<open>Text\<close>

definition NumberString :: "Number \<Rightarrow> string" where
  "NumberString n =
     (if 0 \<le> n \<and> n \<le> 9 then show_int n
      else if n = NumberSkip then ''Skip''
      else if n = NumberReverse then ''Reverse''
      else if n = NumberDrawTwo then ''DrawTwo''
      else if n = NumberWild then ''Wild''
      else if n = NumberWildDrawFour then ''WildDrawFour''
      else ''invalid_number(= '' @ show_int n @ '')'')"

definition ColorString :: "Color \<Rightarrow> string" where
  "ColorString c =
     (if c = 1 then ''red''
      else if c = 2 then ''green''
      else if c = 3 then ''blue''
      else if c = 4 then ''yellow''
      else if c = 0 then ''wild''
      else ''invalid_color'')"

definition CardString :: "Card \<Rightarrow> string" where
  "CardString c = NumberString (Number c) @ '' of '' @ ColorString (Color c)"

text \<open>The symbols are UTF-8 byte sequences.\<close>

definition ColorSymbol :: "string list" where
  "ColorSymbol =
     [[CHR 0xF0, CHR 0x9F, CHR 0x8C, CHR 0x88],
      [CHR 0xF0, CHR 0x9F, CHR 0x94, CHR 0xB4],
      [CHR 0xF0, CHR 0x9F, CHR 0x92, CHR 0x9A],
      [CHR 0xF0, CHR 0x9F, CHR 0x94, CHR 0xB5],
      [CHR 0xF0, CHR 0x9F, CHR 0x92, CHR 0x9B]]"

definition ActionSymbol :: "string list" where
  "ActionSymbol =
     [[CHR 0xE2, CHR 0x8A, CHR 0x98],
      [CHR 0xE2, CHR 0x86, CHR 0xBA],
      [CHR 0xE2, CHR 0xA7, CHR 0xBA],
      [CHR 0xE2, CHR 0x93, CHR 0xAA],
      [CHR 0xE2, CHR 0x9E, CHR 0x8D]]"

abbreviation (input) langle_utf8 :: string where "langle_utf8 \<equiv> [CHR 0xE2, CHR 0x9F, CHR 0xA8]"
abbreviation (input) rangle_utf8 :: string where "rangle_utf8 \<equiv> [CHR 0xE2, CHR 0x9F, CHR 0xA9]"

definition SymbolString :: "Card \<Rightarrow> string option" where
  "SymbolString c =
     (if \<not> IsAction (Number c) then do {
        col \<leftarrow> go_index ColorSymbol (Color c);
        Some (langle_utf8 @ col @ ''.'' @ NumberString (Number c) @ rangle_utf8)
      } else do {
        col \<leftarrow> go_index ColorSymbol (Color c);
        act \<leftarrow> go_index ActionSymbol (Number c - NumberSkip);
        Some (langle_utf8 @ col @ ''.'' @ act @ rangle_utf8)
      })"

section \<open>The 32-bit encoding\<close>

abbreviation (input) numberBitsCount :: nat where "numberBitsCount \<equiv> 5"
abbreviation (input) colorBitsCount :: nat where "colorBitsCount \<equiv> 4"

definition numberMask :: "32 word" where
  "numberMask = push_bit colorBitsCount (push_bit numberBitsCount 1 - 1)"

definition colorMask :: "32 word" where
  "colorMask = push_bit colorBitsCount 1 - 1"

definition EncodeUint32 :: "Card \<Rightarrow> 32 word" where
  "EncodeUint32 c = push_bit colorBitsCount (word_of_int (Number c)) OR word_of_int (Color c)"

definition DecodeCardFromUint32 :: "32 word \<Rightarrow> CardError + Card" where
  "DecodeCardFromUint32 x =
     (let color = x AND colorMask in
      if color > word_of_int ColorYellow then Inl ErrInvalidCardColor
      else let number = drop_bit colorBitsCount (x AND numberMask) in
      if number > word_of_int NumberWildDrawFour then Inl ErrInvalidCardNumber
      else Inr (mkCard (uint number) (uint color)))"

definition MustDecodeCardFromUint32 :: "32 word \<Rightarrow> Card option" where
  "MustDecodeCardFromUint32 x =
     (case DecodeCardFromUint32 x of Inl err \<Rightarrow> None | Inr c \<Rightarrow> Some c)"

definition CardHash :: "Card \<Rightarrow> 32 word" where
  "CardHash c = EncodeUint32 c"

section \<open>What a card of the game is\<close>

definition card_in_range :: "Card \<Rightarrow> bool" where
  "card_in_range c \<longleftrightarrow> 0 \<le> Number c \<and> Number c \<le> 14 \<and> 0 \<le> Color c \<and> Color c \<le> 4"

definition valid_color :: "Color \<Rightarrow> bool" where
  "valid_color c \<longleftrightarrow> ColorRed \<le> c \<and> c \<le> ColorYellow"

definition valid_card :: "Card \<Rightarrow> bool" where
  "valid_card c \<longleftrightarrow>
     0 \<le> Number c \<and> Number c \<le> NumberDrawTwo \<and> valid_color (Color c) \<or>
     IsWild c \<and> Color c = ColorWild"

section \<open>Encoders and decoders\<close>

text \<open>The contract of an encoder with a partial decoder: decoding inverts encoding on the valid
  values, and whatever decodes is the encoding of its result up to the bits the format ignores.\<close>

locale codec =
  fixes enc :: "'a \<Rightarrow> 'b"
    and dec :: "'b \<Rightarrow> 'e + 'a"
    and valid :: "'a \<Rightarrow> bool"
    and canon :: "'b \<Rightarrow> 'b"
  assumes dec_enc: "valid x \<Longrightarrow> dec (enc x) = Inr x"
    and dec_sound: "dec y = Inr x \<Longrightarrow> valid x \<and> enc x = canon y"
begin

lemma enc_inject: "valid x \<Longrightarrow> valid y \<Longrightarrow> enc x = enc y \<longleftrightarrow> x = y"
  by (metis dec_enc sum.inject(2))

lemma enc_canonical: "valid x \<Longrightarrow> canon (enc x) = enc x"
  using dec_enc dec_sound by metis

lemma enc_inj_on: "inj_on enc {x. valid x}"
  by (auto simp: inj_on_def enc_inject)

lemma dec_same: "dec y = Inr x \<Longrightarrow> dec z = Inr x \<Longrightarrow> canon y = canon z"
  by (metis dec_sound)

end

lemma mask_facts: "colorMask = mask 4" "numberMask = push_bit 4 (mask 5)"
  by (simp_all add: colorMask_def numberMask_def mask_eq_exp_minus_1)

lemma mask_join: "push_bit 4 (drop_bit 4 (x AND numberMask)) OR (x AND colorMask) = x AND mask 9"
  for x :: "32 word"
  unfolding mask_facts by (rule bit_word_eqI) (auto simp: bit_simps)

lemma uint_small: "0 \<le> k \<Longrightarrow> k < 16 \<Longrightarrow> uint (word_of_int k :: 32 word) = k"
  by (simp add: uint_word_of_int)

lemma ranges_enum:
  "card_in_range c \<longleftrightarrow> Number c \<in> {0,1,2,3,4,5,6,7,8,9,10,11,12,13,14} \<and> Color c \<in> {0,1,2,3,4}"
  unfolding card_in_range_def insert_iff by (auto; presburger)

lemma encode_parts:
  assumes "card_in_range c"
  shows "EncodeUint32 c AND colorMask = word_of_int (Color c)"
    and "drop_bit 4 (EncodeUint32 c AND numberMask) = word_of_int (Number c)"
  using assms
  by (auto simp: ranges_enum EncodeUint32_def colorMask_def numberMask_def)

lemma decode_encode:
  assumes "card_in_range c"
  shows "DecodeCardFromUint32 (EncodeUint32 c) = Inr c"
proof -
  have u: "uint (word_of_int (Number c) :: 32 word) = Number c" "uint (word_of_int (Color c) :: 32 word) = Color c"
    using assms by (auto intro!: uint_small simp: card_in_range_def)
  have "\<not> word_of_int (Color c) > (4 :: 32 word)" "\<not> word_of_int (Number c) > (14 :: 32 word)"
    using assms u by (simp_all add: word_less_alt card_in_range_def)
  then show ?thesis
    unfolding DecodeCardFromUint32_def encode_parts [OF assms] by (simp add: u)
qed

lemma decode_sound:
  assumes "DecodeCardFromUint32 x = Inr c"
  shows "card_in_range c \<and> EncodeUint32 c = x AND mask 9"
proof -
  let ?k = "x AND colorMask" and ?n = "drop_bit 4 (x AND numberMask)"
  from assms have c: "c = mkCard (uint ?n) (uint ?k)" and "\<not> ?k > 4" "\<not> ?n > 14"
    by (auto simp: DecodeCardFromUint32_def Let_def split: if_splits)
  then have "card_in_range c" by (simp add: card_in_range_def word_less_alt)
  moreover have "EncodeUint32 c = x AND mask 9"
    by (simp add: EncodeUint32_def c mask_join del: drop_bit_and push_bit_and)
  ultimately show ?thesis ..
qed

interpretation card_codec: codec EncodeUint32 DecodeCardFromUint32 card_in_range "\<lambda>x. x AND mask 9"
  by unfold_locales (auto simp: decode_encode dest: decode_sound)

section \<open>Properties\<close>

lemma valid_card_in_range: "valid_card c \<Longrightarrow> card_in_range c"
  by (auto simp: valid_card_def card_in_range_def valid_color_def IsWild_def)



text \<open>\<open>IsLessThan\<close>, the order that every hand and the full deck are sorted by, is not an
  order: two cards can each be less than the other, and it is not transitive.\<close>

theorem IsLessThan_no_strict_order:
  "(\<exists>a b. valid_card a \<and> valid_card b \<and> IsLessThan a b \<and> IsLessThan b a) \<and>
   (\<exists>a b c. IsLessThan a b \<and> IsLessThan b c \<and> \<not> IsLessThan a c)"
proof
  show "\<exists>a b. valid_card a \<and> valid_card b \<and> IsLessThan a b \<and> IsLessThan b a"
    by (rule exI [of _ "mkCard 5 ColorRed"], rule exI [of _ "mkCard 3 ColorGreen"])
       (simp add: valid_card_def valid_color_def IsLessThan_def)
  show "\<exists>a b c. IsLessThan a b \<and> IsLessThan b c \<and> \<not> IsLessThan a c"
    by (rule exI [of _ "mkCard 5 ColorGreen"], rule exI [of _ "mkCard 6 ColorRed"],
        rule exI [of _ "mkCard 4 ColorGreen"]) (simp add: IsLessThan_def)
qed

end
