(* ===== verification/Decks.thy ===== *)
theory Decks
  imports Cards
begin

text \<open>
  Decks: the slice type \<open>Deck\<close> of \<open>uknow.go\<close> and every operation on it.  The last element of
  the slice is the top of the deck.  A function that returns a value and an \<open>error\<close> gives a
  pair whose second part is \<open>None\<close> for a nil error; the \<open>Must\<close> variants and out-of-range
  indices panic, which is \<open>None\<close> of the result.  The stack contract that the table relies on
  is the locale \<open>card_stack\<close>, interpreted on the deck.
\<close>

section \<open>Data\<close>

type_synonym Deck = "Card list"

datatype DeckError =
    ErrEmptyDeck
  | CouldNotFindCard Card
  | CouldNotRemoveCard DeckError

definition zeroCard :: Card where
  "zeroCard = mkCard 0 0"

section \<open>Operations\<close>

fun joinCards :: "Deck \<Rightarrow> string" where
  "joinCards [] = []"
| "joinCards (c # cs) = CardString c @ ''|'' @ joinCards cs"

definition DeckString :: "Deck \<Rightarrow> string" where
  "DeckString d =
     (if d = [] then ''[]''
      else ''['' @ joinCards (butlast d) @ CardString (last d) @ '']'')"

definition Len :: "Deck \<Rightarrow> int" where
  "Len d = int (length d)"

definition Less :: "Deck \<Rightarrow> int \<Rightarrow> int \<Rightarrow> bool option" where
  "Less d i j = do {
     a \<leftarrow> go_index d i;
     b \<leftarrow> go_index d j;
     Some (IsLessThan a b \<or> i < j)
   }"

definition Swap :: "Deck \<Rightarrow> int \<Rightarrow> int \<Rightarrow> Deck option" where
  "Swap d i j = do {
     a \<leftarrow> go_index d j;
     b \<leftarrow> go_index d i;
     d1 \<leftarrow> go_update d i a;
     go_update d1 j b
   }"

definition Clone :: "Deck \<Rightarrow> Deck" where
  "Clone d = take (length d) d"

definition NewEmptyDeck :: Deck where
  "NewEmptyDeck = []"

definition IsEmpty :: "Deck \<Rightarrow> bool" where
  "IsEmpty d \<longleftrightarrow> Len d = 0"

definition Push :: "Deck \<Rightarrow> Card list \<Rightarrow> Deck" where
  "Push d c = d @ c"

definition Top :: "Deck \<Rightarrow> Card \<times> DeckError option" where
  "Top d = (if IsEmpty d then (zeroCard, Some ErrEmptyDeck) else (d ! (length d - 1), None))"

definition MustTop :: "Deck \<Rightarrow> Card option" where
  "MustTop d = (if IsEmpty d then None else Some (d ! (length d - 1)))"

definition Pop :: "Deck \<Rightarrow> Deck \<times> DeckError option" where
  "Pop d = (if IsEmpty d then (d, Some ErrEmptyDeck) else (take (length d - 1) d, None))"

definition MustPop :: "Deck \<Rightarrow> Deck option" where
  "MustPop d = (if IsEmpty d then None else Some (take (length d - 1) d))"

definition RemoveCard :: "Deck \<Rightarrow> int \<Rightarrow> Deck option" where
  "RemoveCard d index =
     (if 0 \<le> index \<and> index < Len d
      then Some (take (nat index) d @ drop (nat (index + 1)) d)
      else None)"

fun findCardFrom :: "int \<Rightarrow> Deck \<Rightarrow> Card \<Rightarrow> int option" where
  "findCardFrom i [] wantedCard = None"
| "findCardFrom i (c # cs) wantedCard =
     (if Number c = Number wantedCard \<and> Color c = Color wantedCard then Some i
      else findCardFrom (i + 1) cs wantedCard)"

definition FindCard :: "Deck \<Rightarrow> Card \<Rightarrow> int \<times> DeckError option" where
  "FindCard d wantedCard =
     (case findCardFrom 0 d wantedCard of
        Some i \<Rightarrow> (i, None)
      | None \<Rightarrow> (0, Some (CouldNotFindCard wantedCard)))"

definition FindAndRemoveCard :: "Deck \<Rightarrow> Card \<Rightarrow> (Deck \<times> DeckError option) option" where
  "FindAndRemoveCard d wantedCard =
     (case FindCard d wantedCard of
        (index, Some err) \<Rightarrow> Some (d, Some (CouldNotRemoveCard err))
      | (index, None) \<Rightarrow> do { d' \<leftarrow> RemoveCard d index; Some (d', None) })"

definition MustFindCard :: "Deck \<Rightarrow> Card \<Rightarrow> int option" where
  "MustFindCard d wantedCard = findCardFrom 0 d wantedCard"

text \<open>The full deck: 12 coloured cards per colour twice, one zero per colour, four of each wild,
  then sorted.\<close>

definition colouredCards :: "Card list" where
  "colouredCards =
     concat (map (\<lambda>color. map (\<lambda>number. mkCard number color) [1..NumberDrawTwo]) [1..4])"

definition unsortedFullDeck :: "Card list" where
  "unsortedFullDeck =
     (let cards = colouredCards;
          cards = cards @ cards;
          cards = cards @ map (\<lambda>color. mkCard 0 color) [1..4]
      in cards @ concat (map (\<lambda>i. [mkCard NumberWildDrawFour ColorWild, mkCard NumberWild ColorWild]) [0..<4]))"

definition NewFullDeck :: "Card swaps \<Rightarrow> Deck" where
  "NewFullDeck srt = goSort srt unsortedFullDeck"

section \<open>The stack contract\<close>

text \<open>What the table relies on: a deck is a stack of cards, \<open>contents\<close> lists it from the top.\<close>

locale card_stack =
  fixes push :: "'s \<Rightarrow> 'a list \<Rightarrow> 's"
    and mtop :: "'s \<Rightarrow> 'a option"
    and mpop :: "'s \<Rightarrow> 's option"
    and contents :: "'s \<Rightarrow> 'a list"
  assumes contents_push: "contents (push s xs) = rev xs @ contents s"
    and top_Nil: "contents s = [] \<Longrightarrow> mtop s = None"
    and top_Cons: "contents s = x # xs \<Longrightarrow> mtop s = Some x"
    and pop_Nil: "contents s = [] \<Longrightarrow> mpop s = None"
    and pop_Cons: "contents s = x # xs \<Longrightarrow> \<exists>s'. mpop s = Some s' \<and> contents s' = xs"
begin

fun draw :: "nat \<Rightarrow> 's \<Rightarrow> ('a list \<times> 's) option" where
  "draw 0 s = Some ([], s)"
| "draw (Suc n) s = do {
     x \<leftarrow> mtop s;
     s' \<leftarrow> mpop s;
     (xs, s'') \<leftarrow> draw n s';
     Some (x # xs, s'')
   }"

lemma top_push: "mtop (push s [x]) = Some x"
  by (simp add: contents_push top_Cons)

lemma pop_push: "\<exists>s'. mpop (push s [x]) = Some s' \<and> contents s' = contents s"
  by (simp add: contents_push pop_Cons)

lemma draw_spec:
  "n \<le> length (contents s) \<Longrightarrow>
     \<exists>s'. draw n s = Some (take n (contents s), s') \<and> contents s' = drop n (contents s)"
proof (induction n arbitrary: s)
  case (Suc n)
  then obtain x xs where c: "contents s = x # xs" by (cases "contents s") auto
  then obtain s' where s': "mpop s = Some s'" "contents s' = xs" using pop_Cons by blast
  with Suc c obtain s'' where "draw n s' = Some (take n xs, s'')" "contents s'' = drop n xs"
    by fastforce
  with c s' show ?case by (simp add: top_Cons)
qed simp

lemma draw_short: "length (contents s) < n \<Longrightarrow> draw n s = None"
proof (induction n arbitrary: s)
  case (Suc n)
  show ?case
  proof (cases "contents s")
    case Nil
    then show ?thesis by (simp add: top_Nil)
  next
    case (Cons x xs)
    then obtain s' where "mpop s = Some s'" "contents s' = xs" using pop_Cons by blast
    with Suc Cons show ?thesis by (simp add: top_Cons)
  qed
qed simp

end

section \<open>Lemmas\<close>

lemma IsEmpty_iff [simp]: "IsEmpty d \<longleftrightarrow> d = []"
  by (simp add: IsEmpty_def Len_def)

lemma Top_eq: "Top d = (if d = [] then (zeroCard, Some ErrEmptyDeck) else (last d, None))"
  by (simp add: Top_def last_conv_nth)

lemma MustTop_eq: "MustTop d = (if d = [] then None else Some (last d))"
  by (simp add: MustTop_def last_conv_nth)

lemma MustPop_eq: "MustPop d = (if d = [] then None else Some (butlast d))"
  by (simp add: MustPop_def butlast_conv_take)

lemma Pop_eq: "Pop d = (if d = [] then (d, Some ErrEmptyDeck) else (butlast d, None))"
  by (simp add: Pop_def butlast_conv_take)

lemmas deck_eqs = Top_eq MustTop_eq MustPop_eq Pop_eq Push_def NewEmptyDeck_def Len_def

interpretation deck: card_stack Push MustTop MustPop rev
  by unfold_locales (auto simp: deck_eqs butlast_rev rev_swap)

lemma findCardFrom_Some:
  "findCardFrom i d w = Some j \<Longrightarrow>
     i \<le> j \<and> j < i + int (length d) \<and> d ! nat (j - i) = w \<and> w \<notin> set (take (nat (j - i)) d)"
proof (induction i d w rule: findCardFrom.induct)
  case (2 i c cs w)
  show ?case
  proof (cases "Number c = Number w \<and> Color c = Color w")
    case True
    then have "c = w" by (cases c, cases w) simp
    with True 2 show ?thesis by auto
  next
    case False
    with 2 have IH: "i + 1 \<le> j" "j < i + 1 + int (length cs)" "cs ! nat (j - (i + 1)) = w"
        "w \<notin> set (take (nat (j - (i + 1))) cs)" by auto
    then have n: "nat (j - i) = Suc (nat (j - (i + 1)))" by linarith
    from False have "c \<noteq> w" by auto
    with IH n show ?thesis by auto
  qed
qed simp

lemma findCardFrom_None: "findCardFrom i d w = None \<longleftrightarrow> w \<notin> set d"
  by (induction i d w rule: findCardFrom.induct) auto

lemma MustFindCard_Some:
  "MustFindCard d w = Some j \<Longrightarrow> 0 \<le> j \<and> nat j < length d \<and> d ! nat j = w"
  using findCardFrom_Some [of 0 d w j] by (auto simp: MustFindCard_def)

lemma MustFindCard_None: "MustFindCard d w = None \<longleftrightarrow> w \<notin> set d"
  by (simp add: MustFindCard_def findCardFrom_None)

lemma FindCard_error: "snd (FindCard d w) = None \<longleftrightarrow> w \<in> set d"
  by (simp add: FindCard_def option.case_eq_if findCardFrom_None)

lemma FindCard_ok: "w \<in> set d \<Longrightarrow> \<exists>j. FindCard d w = (j, None) \<and> MustFindCard d w = Some j"
  by (cases "findCardFrom 0 d w") (auto simp: FindCard_def MustFindCard_def findCardFrom_None)

lemma RemoveCard_remove1: "MustFindCard d w = Some j \<Longrightarrow> RemoveCard d j = Some (remove1 w d)"
proof -
  assume j: "MustFindCard d w = Some j"
  then have b: "0 \<le> j" "nat j < length d" "d ! nat j = w" and f: "w \<notin> set (take (nat j) d)"
    using findCardFrom_Some [of 0 d w j] by (auto simp: MustFindCard_def)
  then have n: "nat (j + 1) = Suc (nat j)" and d: "d = take (nat j) d @ w # drop (Suc (nat j)) d"
    using id_take_nth_drop [of "nat j" d] by (auto simp: nat_add_distrib)
  from f have "remove1 w d = take (nat j) d @ drop (Suc (nat j)) d"
    by (subst d) (simp add: remove1_append)
  with b n show ?thesis by (simp add: RemoveCard_def Len_def)
qed

lemma length_unsortedFullDeck: "length unsortedFullDeck = 108"
  by code_simp

lemma card_eq_mk: "c = mkCard n k \<longleftrightarrow> Number c = n \<and> Color c = k"
  by (cases c) simp

lemma set_colouredCards:
  "c \<in> set colouredCards \<longleftrightarrow> 1 \<le> Number c \<and> Number c \<le> 12 \<and> 1 \<le> Color c \<and> Color c \<le> 4"
  by (cases c) (auto simp: colouredCards_def image_iff card_eq_mk)

lemma distinct_colouredCards: "distinct colouredCards"
  unfolding colouredCards_def by (intro distinct_concat) (auto simp: distinct_map inj_on_def)

lemma count_colouredCards:
  "count (mset colouredCards) c =
     (if 1 \<le> Number c \<and> Number c \<le> 12 \<and> 1 \<le> Color c \<and> Color c \<le> 4 then 1 else 0)"
  using distinct_colouredCards set_colouredCards [of c]
  by (auto simp: distinct_count_atmost_1)

lemma count_zeroCards:
  "count (mset (map (\<lambda>color. mkCard 0 color) [1..4])) c =
     (if Number c = 0 \<and> 1 \<le> Color c \<and> Color c \<le> 4 then 1 else 0)"
proof -
  have "distinct (map (\<lambda>color. mkCard 0 color) [1..4])" by (simp add: distinct_map inj_on_def)
  moreover have "c \<in> set (map (\<lambda>color. mkCard 0 color) [1..4]) \<longleftrightarrow> Number c = 0 \<and> 1 \<le> Color c \<and> Color c \<le> 4"
    by (cases c) auto
  ultimately show ?thesis by (auto simp: distinct_count_atmost_1)
qed

lemma count_wildCards:
  "count (mset (concat (map (\<lambda>i. [mkCard 14 0, mkCard 13 0]) [0..<4]))) c =
     (if (Number c = 13 \<or> Number c = 14) \<and> Color c = 0 then 4 else 0)"
  by (cases c) (auto simp: upt_rec)

lemma count_unsortedFullDeck:
  "count (mset unsortedFullDeck) c =
     (if \<not> valid_card c then 0 else if Number c = 0 then 1 else if IsWild c then 4 else 2)"
proof -
  have "count (mset unsortedFullDeck) c =
      2 * count (mset colouredCards) c + count (mset (map (\<lambda>color. mkCard 0 color) [1..4])) c
      + count (mset (concat (map (\<lambda>i. [mkCard 14 0, mkCard 13 0]) [0..<4]))) c"
    unfolding unsortedFullDeck_def Let_def by (simp only: mset_append count_union)
  then show ?thesis
    unfolding count_colouredCards count_zeroCards count_wildCards
    by (auto simp: valid_card_def valid_color_def IsWild_def)
qed

lemma mset_NewFullDeck [simp]: "mset (NewFullDeck srt) = mset unsortedFullDeck"
  by (simp add: NewFullDeck_def)

lemma NewFullDeck_valid: "c \<in> set (NewFullDeck srt) \<Longrightarrow> valid_card c"
  using count_unsortedFullDeck [of c] by (metis count_eq_zero_iff mset_NewFullDeck set_mset_mset)

section \<open>Properties\<close>

text \<open>The full deck is the 108-card deck: its size is 108, every card of it is a valid card, and
  each valid card occurs once if it is a zero, four times if it is a wild and twice otherwise,
  whatever order the sort leaves it in.\<close>

theorem NewFullDeck_composition:
  "length (NewFullDeck srt) = 108 \<and>
   count (mset (NewFullDeck srt)) c =
     (if \<not> valid_card c then 0
      else if Number c = 0 then 1
      else if IsWild c then 4
      else 2)"
  by (simp add: count_unsortedFullDeck length_unsortedFullDeck NewFullDeck_def)

text \<open>\<open>FindAndRemoveCard\<close> removes exactly the first copy of a card that is in the deck and
  leaves the deck untouched, with an error, when the card is not there; it never panics.\<close>

theorem FindAndRemoveCard_spec:
  "FindAndRemoveCard d w =
     Some (if w \<in> set d then (remove1 w d, None)
           else (d, Some (CouldNotRemoveCard (CouldNotFindCard w))))"
proof (cases "w \<in> set d")
  case True
  then obtain j where "FindCard d w = (j, None)" "MustFindCard d w = Some j" using FindCard_ok by blast
  with True show ?thesis by (simp add: FindAndRemoveCard_def RemoveCard_remove1)
next
  case False
  then have "FindCard d w = (0, Some (CouldNotFindCard w))"
    by (simp add: FindCard_def findCardFrom_None [of 0 d w, THEN iffD2])
  with False show ?thesis by (simp add: FindAndRemoveCard_def)
qed

end
