(* ===== verification/GameEvents.thy ===== *)
theory GameEvents
  imports Decks
begin

text \<open>
  Game events (\<open>game_event.go\<close>): the values the table pushes on its event channel for the user
  interface.  Each Go struct is one constructor of \<open>GameEvent\<close>, its fields in declaration
  order; the interface methods are functions by case.  A channel of events is the list of the
  events sent so far.
\<close>

section \<open>Data\<close>

datatype CardTransferNode =
    CardTransferNodeDeck
  | CardTransferNodePile
  | CardTransferNodePlayerHand

datatype GameEvent =
    CardTransferEvent (Source: CardTransferNode) (Sink: CardTransferNode)
      (SourcePlayer: string) (SinkPlayer: string) (TransferCard: Card) bool
  | SkipCardActionEvent string string string bool
  | DrawTwoCardActionEvent string string string bool
  | ReverseCardActionEvent string string string bool
  | WildCardActionEvent string bool
  | AwaitingWildCardColorDecisionEvent string bool bool bool
  | WildCardColorChosenEvent string Card bool
  | ChallengerSuccessEvent string string "Card list" bool
  | ChallengerFailedEvent string string bool
  | AwaitingPlayOrPassEvent string bool bool
  | PlayerPassedTurnEvent string string bool
  | PlayerHasWonEvent string bool
  | RequiredColorUpdatedEvent Color

type_synonym EventChan = "GameEvent list"

section \<open>Operations\<close>

fun CardTransferNodeName :: "CardTransferNode \<Rightarrow> string" where
  "CardTransferNodeName CardTransferNodeDeck = ''deck''"
| "CardTransferNodeName CardTransferNodePile = ''pile''"
| "CardTransferNodeName CardTransferNodePlayerHand = ''player_hand''"

definition changeIfSelf :: "string \<Rightarrow> string \<Rightarrow> string \<times> bool" where
  "changeIfSelf playerName localPlayerName =
     (if playerName = localPlayerName then (''You('' @ localPlayerName @ '')'', True)
      else (playerName, False))"

definition CardTransferEventString ::
  "CardTransferNode \<Rightarrow> CardTransferNode \<Rightarrow> string \<Rightarrow> string \<Rightarrow> Card \<Rightarrow> string \<Rightarrow> string" where
  "CardTransferEventString source sink sourcePlayer sinkPlayer c localPlayerName =
     (let sourceName = CardTransferNodeName source;
          sourceName = (if source = CardTransferNodePlayerHand then ''player '' @ sourcePlayer else sourceName);
          sinkName = CardTransferNodeName sink;
          sinkName = (if sink = CardTransferNodePlayerHand then ''player '' @ sinkPlayer else sinkName);
          sourceName = fst (changeIfSelf sourceName localPlayerName);
          sinkName = fst (changeIfSelf sinkName localPlayerName)
      in ''Card transfer from '' @ sourceName @ '' to '' @ sinkName @ '', card: '' @ CardString c)"

fun FromLocalClient :: "GameEvent \<Rightarrow> bool" where
  "FromLocalClient (CardTransferEvent _ _ _ _ _ b) = b"
| "FromLocalClient (SkipCardActionEvent _ _ _ b) = b"
| "FromLocalClient (DrawTwoCardActionEvent _ _ _ b) = b"
| "FromLocalClient (ReverseCardActionEvent _ _ _ b) = b"
| "FromLocalClient (WildCardActionEvent _ b) = b"
| "FromLocalClient (AwaitingWildCardColorDecisionEvent _ _ _ b) = b"
| "FromLocalClient (WildCardColorChosenEvent _ _ b) = b"
| "FromLocalClient (ChallengerSuccessEvent _ _ _ b) = b"
| "FromLocalClient (ChallengerFailedEvent _ _ b) = b"
| "FromLocalClient (AwaitingPlayOrPassEvent _ _ b) = b"
| "FromLocalClient (PlayerPassedTurnEvent _ _ b) = b"
| "FromLocalClient (PlayerHasWonEvent _ b) = b"
| "FromLocalClient (RequiredColorUpdatedEvent _) = False"

fun GameEventName :: "GameEvent \<Rightarrow> string" where
  "GameEventName (CardTransferEvent _ _ _ _ _ _) = ''CardTransferEvent''"
| "GameEventName (SkipCardActionEvent _ _ _ _) = ''SkipActionEvent''"
| "GameEventName (DrawTwoCardActionEvent _ _ _ _) = ''Draw2ActionEvent''"
| "GameEventName (ReverseCardActionEvent _ _ _ _) = ''ReverseActionEvent''"
| "GameEventName (WildCardActionEvent _ _) = ''WildCardActionEvent''"
| "GameEventName (AwaitingWildCardColorDecisionEvent _ isDraw4 _ _) =
     (if isDraw4 then ''AwaitingWildCardColorDecisionEvent(Draw4=True)''
      else ''AwaitingWildCardColorDecisionEvent(Draw4=False)'')"
| "GameEventName (WildCardColorChosenEvent _ _ _) = ''WildCardColorChosenEvent''"
| "GameEventName (ChallengerSuccessEvent _ _ _ _) = ''ChallengerSuccessEvent''"
| "GameEventName (ChallengerFailedEvent _ _ _) = ''ChallengerFailedEvent''"
| "GameEventName (AwaitingPlayOrPassEvent _ _ _) = ''AwaitingPlayOrPassEvent''"
| "GameEventName (PlayerPassedTurnEvent _ _ _) = ''PlayerPassedTurnEvent''"
| "GameEventName (PlayerHasWonEvent _ _) = ''PlayerHasWonEvent''"
| "GameEventName (RequiredColorUpdatedEvent _) = ''RequiredColorUpdatedEvent''"

definition show_bool :: "bool \<Rightarrow> string" where
  "show_bool b = (if b then ''true'' else ''false'')"

fun symbolsOf :: "Card list \<Rightarrow> string option" where
  "symbolsOf [] = Some []"
| "symbolsOf (c # cs) = do {
     s \<leftarrow> SymbolString c;
     r \<leftarrow> symbolsOf cs;
     Some (s @ '' '' @ r)
   }"

text \<open>\<open>StringMessage\<close> of each event type (\<open>String\<close> for the transfer event); only the challenge
  success message can panic, when a card has no symbol.\<close>

fun StringMessage :: "GameEvent \<Rightarrow> string \<Rightarrow> string option" where
  "StringMessage (CardTransferEvent source sink sourcePlayer sinkPlayer c _) me =
     Some (CardTransferEventString source sink sourcePlayer sinkPlayer c me)"
| "StringMessage (SkipCardActionEvent player skipped nextPlayer _) me =
     Some (fst (changeIfSelf player me) @ '' played a skip-card, skipping '' @ fst (changeIfSelf skipped me)
           @ '', making '' @ fst (changeIfSelf nextPlayer me) @ '' the next player'')"
| "StringMessage (DrawTwoCardActionEvent player skipped nextPlayer _) me =
     Some (fst (changeIfSelf player me) @ '' played a draw-2-card, skipping and adding cards to ''
           @ fst (changeIfSelf skipped me) @ '', making '' @ fst (changeIfSelf nextPlayer me) @ '' the next player'')"
| "StringMessage (ReverseCardActionEvent player denied nextPlayer _) me =
     Some (fst (changeIfSelf player me) @ '' played a reverse-card, skipping '' @ fst (changeIfSelf denied me)
           @ '' and making '' @ fst (changeIfSelf nextPlayer me) @ '' the next player'')"
| "StringMessage (WildCardActionEvent player _) me =
     Some (fst (changeIfSelf player me) @ '' played a wild card'')"
| "StringMessage (AwaitingWildCardColorDecisionEvent player isDraw4 _ _) me =
     Some (if me = player
           then ''Need wild card (draw4='' @ show_bool isDraw4 @ '') color decision from You('' @ me @ '')''
           else ''Need wild card color(draw4='' @ show_bool isDraw4 @ '') decision from '' @ player)"
| "StringMessage (WildCardColorChosenEvent player chosen _) me =
     Some (fst (changeIfSelf player me) @ '' chose wild card color to be '' @ CardString chosen)"
| "StringMessage (ChallengerSuccessEvent challenger wildPlayer eligible _) me = do {
     let challengerName = fst (changeIfSelf challenger me);
     let wildPlayerName = fst (changeIfSelf wildPlayer me);
     sb \<leftarrow> symbolsOf eligible;
     Some (challengerName @ '' successfully challenged '' @ wildPlayerName @ ''. '' @ wildPlayerName
           @ '' had the following eligible cards he could play: '' @ sb)
   }"
| "StringMessage (ChallengerFailedEvent challenger wildPlayer _) me =
     Some (fst (changeIfSelf challenger me) @ '' un-successfully challenged '' @ fst (changeIfSelf wildPlayer me))"
| "StringMessage (AwaitingPlayOrPassEvent player _ _) me =
     Some (''awaiting for card play or pass from '' @ fst (changeIfSelf player me))"
| "StringMessage (PlayerPassedTurnEvent player nextPlayer _) me =
     Some (fst (changeIfSelf player me) @ '' passed turn, next player is '' @ nextPlayer)"
| "StringMessage (PlayerHasWonEvent player _) me =
     (case changeIfSelf player me of (playerName, you) \<Rightarrow>
        Some (if you then playerName @ '' are the winner'' else playerName @ '' is the winner''))"
| "StringMessage (RequiredColorUpdatedEvent newColor) me =
     Some (''Color of turn: '' @ ColorString newColor)"

text \<open>The cards a message shows by symbol.\<close>

fun renderedCards :: "GameEvent \<Rightarrow> Card list" where
  "renderedCards (ChallengerSuccessEvent _ _ eligible _) = eligible"
| "renderedCards _ = []"

section \<open>Lemmas\<close>

lemma symbol_lengths: "length ColorSymbol = 5" "length ActionSymbol = 5"
  by (simp_all add: ColorSymbol_def ActionSymbol_def)

lemma SymbolString_in_range: "card_in_range c \<Longrightarrow> SymbolString c \<noteq> None"
  by (simp add: SymbolString_def card_in_range_def IsAction_def go_index_in symbol_lengths)

lemma symbolsOf_in_range: "\<forall>c \<in> set cs. card_in_range c \<Longrightarrow> symbolsOf cs \<noteq> None"
  by (induction cs) (auto simp: Option.bind_eq_None_conv dest: SymbolString_in_range)

section \<open>Properties\<close>

text \<open>Rendering an event never panics when the cards of a challenge-success event are in the
  printable range.\<close>

theorem StringMessage_total:
  "list_all card_in_range (renderedCards e) \<Longrightarrow> \<exists>s. StringMessage e me = Some s"
proof (cases e)
  case (ChallengerSuccessEvent a b cs l)
  assume "list_all card_in_range (renderedCards e)"
  then have "\<forall>c \<in> set cs. card_in_range c" by (simp add: ChallengerSuccessEvent list_all_iff)
  then have "symbolsOf cs \<noteq> None" by (rule symbolsOf_in_range)
  then obtain r where "symbolsOf cs = Some r" by blast
  then show ?thesis by (simp add: ChallengerSuccessEvent Let_def)
qed (simp_all split: prod.split)

theorem StringMessage_total_witness:
  "list_all card_in_range (renderedCards (ChallengerSuccessEvent ''bob'' ''al'' [mkCard 11 2] True)) \<and>
   (\<exists>s. StringMessage (ChallengerSuccessEvent ''bob'' ''al'' [mkCard 11 2] True) ''al'' = Some s)"
proof -
  have h: "list_all card_in_range (renderedCards (ChallengerSuccessEvent ''bob'' ''al'' [mkCard 11 2] True))"
    by (simp add: card_in_range_def)
  with StringMessage_total [OF h] show ?thesis by blast
qed

text \<open>A card transfer out of or into the local player's own hand is announced with the plain
  player name: the self-marking \<open>You(...)\<close>, which every other event message uses, cannot occur for
  a hand, because the name is prefixed before it is compared.\<close>

theorem CardTransferEventString_never_self:
  "CardTransferEventString CardTransferNodePlayerHand CardTransferNodePile me s c me =
     ''Card transfer from player '' @ me @ '' to '' @ fst (changeIfSelf ''pile'' me) @ '', card: '' @ CardString c \<and>
   CardTransferEventString CardTransferNodeDeck CardTransferNodePlayerHand s me c me =
     ''Card transfer from '' @ fst (changeIfSelf ''deck'' me) @ '' to player '' @ me @ '', card: '' @ CardString c"
proof -
  have "length (''player '' @ me) \<noteq> length me" by simp
  then have "''player '' @ me \<noteq> me" by metis
  then show ?thesis by (simp add: CardTransferEventString_def changeIfSelf_def)
qed

end
