(* ===== verification/Tables.thy ===== *)
theory Tables
  imports GameEvents
begin

text \<open>
  The table (\<open>uknow.go\<close>, \<open>type Table\<close>): its record, constructors, seating operations and the
  small setters the evaluation of decisions is built from.  The \<open>Logger\<close> field and the calls to
  it are left out; \<open>HandOfPlayer\<close> and \<open>IndexOfPlayer\<close> are maps.  Functions that loop over a map
  take the visited key list (see \<open>range_order\<close>), functions that sort take the swap sequence.
  The seating contract, the agreement of \<open>PlayerNames\<close> with \<open>IndexOfPlayer\<close> that every turn
  computation relies on, is the locale \<open>seating\<close>, interpreted on the table.
\<close>

section \<open>Data\<close>

datatype TableState =
    StartOfTurn
  | AwaitingDropOrPass
  | AwaitingWildCardColorDecision
  | AwaitingWildDraw4CardColorDecision
  | AwaitingWildDraw4ChallengeDecision
  | HaveWinner

record Table =
  DrawDeck :: Deck
  DiscardedPile :: Deck
  IndexOfPlayer :: "string \<rightharpoonup> int"
  HandOfPlayer :: "string \<rightharpoonup> Deck"
  PlayerNames :: "string list"
  LocalPlayerName :: string
  ShufflerName :: string
  PlayerOfNextTurn :: string
  PlayerOfLastTurn :: string
  Direction :: int
  TurnsCompleted :: int
  TableState :: TableState
  IsShuffled :: bool
  RequiredColorOfCurrentTurn :: Color
  RequiredColorOfLastTurn :: Color
  RequiredNumberOfCurrentTurn :: Number
  RequiredNumberOfLastTurn :: Number
  RequiredNumberBeforeWild4 :: Number
  WinnerPlayerName :: string

datatype TableError =
    ErrPlayerAlreadyExists
  | ExistingPlayerHasSameName
  | PlayerNotInTable string
  | ErrShouldNotHappen string

abbreviation handOf :: "Table \<Rightarrow> string \<Rightarrow> Deck" where
  "handOf t p \<equiv> map_get [] (HandOfPlayer t) p"

abbreviation indexOf :: "Table \<Rightarrow> string \<Rightarrow> int" where
  "indexOf t p \<equiv> map_get 0 (IndexOfPlayer t) p"

section \<open>Constructors\<close>

definition createNewTable :: "Card swaps \<Rightarrow> Table" where
  "createNewTable srt =
     \<lparr>DrawDeck = NewFullDeck srt,
      DiscardedPile = NewEmptyDeck,
      IndexOfPlayer = Map.empty,
      HandOfPlayer = Map.empty,
      PlayerNames = [],
      LocalPlayerName = [],
      ShufflerName = [],
      PlayerOfNextTurn = [],
      PlayerOfLastTurn = [],
      Direction = 1,
      TurnsCompleted = 0,
      TableState = StartOfTurn,
      IsShuffled = False,
      RequiredColorOfCurrentTurn = 0,
      RequiredColorOfLastTurn = 0,
      RequiredNumberOfCurrentTurn = 0,
      RequiredNumberOfLastTurn = 0,
      RequiredNumberBeforeWild4 = 0,
      WinnerPlayerName = []\<rparr>"

definition NewAdminTable :: "Card swaps \<Rightarrow> Table" where
  "NewAdminTable srt = createNewTable srt"

definition IsServerTable :: "Table \<Rightarrow> bool" where
  "IsServerTable t \<longleftrightarrow> LocalPlayerName t = []"

definition AddPlayer :: "string \<Rightarrow> Table \<Rightarrow> TableError option \<times> Table" where
  "AddPlayer playerName t =
     (if list_ex (\<lambda>existingName. existingName = playerName) (PlayerNames t)
      then (Some ExistingPlayerHasSameName, t)
      else
        let t = t\<lparr>PlayerNames := PlayerNames t @ [playerName]\<rparr>;
            t = t\<lparr>IndexOfPlayer := (IndexOfPlayer t)(playerName \<mapsto> int (length (PlayerNames t)) - 1)\<rparr>;
            t = t\<lparr>HandOfPlayer := (HandOfPlayer t)(playerName \<mapsto> NewEmptyDeck)\<rparr>
        in (None, t))"

definition NewTable :: "Card swaps \<Rightarrow> string \<Rightarrow> Table" where
  "NewTable srt localPlayerName =
     (let t = createNewTable srt;
          t = t\<lparr>LocalPlayerName := localPlayerName\<rparr>
      in snd (AddPlayer localPlayerName t))"

text \<open>\<open>Set\<close> copies the other table's fields except the local name, the table state, the turn
  count, the number before a wild-draw-four and the winner.\<close>

definition SetTable :: "Table \<Rightarrow> Table \<Rightarrow> Table" where
  "SetTable other t =
     t\<lparr>DrawDeck := DrawDeck other,
       DiscardedPile := DiscardedPile other,
       IndexOfPlayer := IndexOfPlayer other,
       HandOfPlayer := HandOfPlayer other,
       PlayerNames := PlayerNames other,
       ShufflerName := ShufflerName other,
       PlayerOfNextTurn := PlayerOfNextTurn other,
       PlayerOfLastTurn := PlayerOfLastTurn other,
       Direction := Direction other,
       IsShuffled := IsShuffled other,
       RequiredColorOfCurrentTurn := RequiredColorOfCurrentTurn other,
       RequiredColorOfLastTurn := RequiredColorOfLastTurn other,
       RequiredNumberOfCurrentTurn := RequiredNumberOfCurrentTurn other,
       RequiredNumberOfLastTurn := RequiredNumberOfLastTurn other\<rparr>"

section \<open>Setters\<close>

definition SetPlayerOfNextTurn :: "string \<Rightarrow> Table \<Rightarrow> Table" where
  "SetPlayerOfNextTurn nextPlayer t =
     (let t = t\<lparr>PlayerOfLastTurn := PlayerOfNextTurn t\<rparr>
      in t\<lparr>PlayerOfNextTurn := nextPlayer\<rparr>)"

text \<open>The channel argument is an option: \<open>None\<close> is Go's nil channel, on which nothing is sent.\<close>

definition SetRequiredColor :: "Color \<Rightarrow> EventChan option \<Rightarrow> Table \<Rightarrow> EventChan option \<times> Table" where
  "SetRequiredColor newColor gameEventPushChan t =
     (let t = t\<lparr>RequiredColorOfLastTurn := RequiredColorOfCurrentTurn t\<rparr>;
          t = t\<lparr>RequiredColorOfCurrentTurn := newColor\<rparr>
      in (case gameEventPushChan of
            None \<Rightarrow> (None, t)
          | Some ch \<Rightarrow> (Some (ch @ [RequiredColorUpdatedEvent newColor]), t)))"

definition SetRequiredNumber :: "Number \<Rightarrow> Table \<Rightarrow> Table" where
  "SetRequiredNumber newNumber t =
     (let t = t\<lparr>RequiredNumberOfLastTurn := RequiredNumberOfCurrentTurn t\<rparr>
      in t\<lparr>RequiredNumberOfCurrentTurn := newNumber\<rparr>)"

section \<open>Seating and turn order\<close>

definition PlayerCount :: "Table \<Rightarrow> int" where
  "PlayerCount t = int (length (PlayerNames t))"

definition GetNextPlayerIndex :: "Table \<Rightarrow> int \<Rightarrow> int \<Rightarrow> int option" where
  "GetNextPlayerIndex t curPlayerIndex step = do {
     i \<leftarrow> go_rem (curPlayerIndex + Direction t * step) (PlayerCount t);
     if i < 0 then Some (PlayerCount t + i) else Some i
   }"

definition getPlayerIndex :: "Table \<Rightarrow> int \<Rightarrow> int \<Rightarrow> int \<Rightarrow> int option" where
  "getPlayerIndex t startingPlayerIndex step direction = do {
     i \<leftarrow> go_rem (startingPlayerIndex + direction * step) (PlayerCount t);
     if i < 0 then Some (PlayerCount t + i) else Some i
   }"

definition GetPreviousPlayer :: "Table \<Rightarrow> (string \<times> TableError option) option" where
  "GetPreviousPlayer t =
     (case IndexOfPlayer t (PlayerOfNextTurn t) of
        None \<Rightarrow> Some ([], Some (ErrShouldNotHappen (PlayerOfNextTurn t)))
      | Some curPlayerIndex \<Rightarrow> do {
          prevPlayerIndex \<leftarrow> getPlayerIndex t curPlayerIndex 1 (- Direction t);
          name \<leftarrow> go_index (PlayerNames t) prevPlayerIndex;
          Some (name, None)
        })"

definition GetNextPlayer :: "Table \<Rightarrow> int \<Rightarrow> (string \<times> TableError option) option" where
  "GetNextPlayer t step =
     (case IndexOfPlayer t (PlayerOfNextTurn t) of
        None \<Rightarrow> Some ([], Some (ErrShouldNotHappen (PlayerOfNextTurn t)))
      | Some curPlayerIndex \<Rightarrow> do {
          i \<leftarrow> go_rem (curPlayerIndex + Direction t * step) (PlayerCount t);
          let nextPlayerIndex = (if i < 0 then PlayerCount t + i else i);
          name \<leftarrow> go_index (PlayerNames t) nextPlayerIndex;
          Some (name, None)
        })"

fun sortedIndicesLoop :: "Table \<Rightarrow> nat \<Rightarrow> int \<Rightarrow> int list option" where
  "sortedIndicesLoop t 0 curIndex = Some []"
| "sortedIndicesLoop t (Suc n) curIndex = do {
     next \<leftarrow> GetNextPlayerIndex t curIndex 1;
     rest \<leftarrow> sortedIndicesLoop t n next;
     Some (curIndex # rest)
   }"

definition PlayerIndicesSortedByTurn :: "Table \<Rightarrow> int list option" where
  "PlayerIndicesSortedByTurn t =
     sortedIndicesLoop t (length (PlayerNames t)) (indexOf t (PlayerOfNextTurn t))"

fun playerIndexLoop :: "int \<Rightarrow> string list \<Rightarrow> string \<Rightarrow> int option" where
  "playerIndexLoop i [] playerName = None"
| "playerIndexLoop i (name # names) playerName =
     (if name = playerName then Some i else playerIndexLoop (i + 1) names playerName)"

definition PlayerIndexFromName :: "Table \<Rightarrow> string \<Rightarrow> int option" where
  "PlayerIndexFromName t playerName = playerIndexLoop 0 (PlayerNames t) playerName"

text \<open>\<open>SetIndexOfPlayer\<close> visits the given map in the order \<open>ks\<close>; it returns at the first unknown
  player, keeping the changes made so far.\<close>

fun SetIndexOfPlayerLoop ::
  "string list \<Rightarrow> (string \<rightharpoonup> int) \<Rightarrow> Table \<Rightarrow> (TableError option \<times> Table) option" where
  "SetIndexOfPlayerLoop [] indexOfPlayer t = Some (None, t)"
| "SetIndexOfPlayerLoop (playerName # ks) indexOfPlayer t =
     (case IndexOfPlayer t playerName of
        None \<Rightarrow> Some (Some (PlayerNotInTable playerName), t)
      | Some _ \<Rightarrow> do {
          let index = map_get 0 indexOfPlayer playerName;
          let t = t\<lparr>IndexOfPlayer := (IndexOfPlayer t)(playerName \<mapsto> index)\<rparr>;
          names \<leftarrow> go_update (PlayerNames t) index playerName;
          SetIndexOfPlayerLoop ks indexOfPlayer (t\<lparr>PlayerNames := names\<rparr>)
        })"

fun RearrangeLoop :: "int \<Rightarrow> int list \<Rightarrow> Table \<Rightarrow> Table option" where
  "RearrangeLoop i [] t = Some t"
| "RearrangeLoop i (j # js) t = do {
     a \<leftarrow> go_index (PlayerNames t) j;
     b \<leftarrow> go_index (PlayerNames t) i;
     ns \<leftarrow> go_update (PlayerNames t) i a;
     ns \<leftarrow> go_update ns j b;
     let t = t\<lparr>PlayerNames := ns\<rparr>;
     nameI \<leftarrow> go_index (PlayerNames t) i;
     let t = t\<lparr>IndexOfPlayer := (IndexOfPlayer t)(nameI \<mapsto> i)\<rparr>;
     nameJ \<leftarrow> go_index (PlayerNames t) j;
     let t = t\<lparr>IndexOfPlayer := (IndexOfPlayer t)(nameJ \<mapsto> j)\<rparr>;
     RearrangeLoop (i + 1) js t
   }"

definition RearrangePlayerIndices :: "string swaps \<Rightarrow> int list \<Rightarrow> Table \<Rightarrow> Table option" where
  "RearrangePlayerIndices srt indices t =
     RearrangeLoop 0 indices (t\<lparr>PlayerNames := goSort srt (PlayerNames t)\<rparr>)"

section \<open>Text\<close>

fun EligibleCommandsAtState :: "TableState \<Rightarrow> string" where
  "EligibleCommandsAtState StartOfTurn = ''play a card or pull from deck''"
| "EligibleCommandsAtState AwaitingDropOrPass = ''play a card or pass''"
| "EligibleCommandsAtState AwaitingWildCardColorDecision = ''wild_color <color>''"
| "EligibleCommandsAtState AwaitingWildDraw4CardColorDecision = ''wild_color <color>''"
| "EligibleCommandsAtState AwaitingWildDraw4ChallengeDecision = ''challenge or no_challenge''"
| "EligibleCommandsAtState HaveWinner = ''unknown turnState''"

abbreviation newline :: string where "newline \<equiv> [CHR 0x0A]"

definition PrintHands :: "Card swaps \<Rightarrow> string list \<Rightarrow> Table \<Rightarrow> string" where
  "PrintHands srt ks t =
     concat (map (\<lambda>playerName.
       ''---- '' @ playerName @ '' ----'' @ newline @
       concat (map (\<lambda>c. ''- '' @ CardString c @ newline) (goSort srt (handOf t playerName)))) ks)"

definition pad2 :: "int \<Rightarrow> string" where
  "pad2 i = (if 0 \<le> i \<and> i < 10 then ''0'' @ show_int i else show_int i)"

definition PrintDrawDeck :: "int \<Rightarrow> Table \<Rightarrow> string" where
  "PrintDrawDeck n t =
     (let n = (if n > int (length (DrawDeck t)) then int (length (DrawDeck t)) else n)
      in concat (map (\<lambda>i. pad2 i @ '': '' @ CardString (DrawDeck t ! nat (int (length (DrawDeck t)) - i)) @ newline)
           [1..n]))"

fun TableStateString :: "TableState \<Rightarrow> string" where
  "TableStateString StartOfTurn = ''start_of_turn''"
| "TableStateString AwaitingDropOrPass = ''awaiting_drop_or_pass''"
| "TableStateString AwaitingWildCardColorDecision = ''awaiting_wild_card_color_choice''"
| "TableStateString AwaitingWildDraw4CardColorDecision = ''awaiting_wild_draw4_card_color_choice''"
| "TableStateString AwaitingWildDraw4ChallengeDecision = ''awaiting_wild_draw_4_challenge_choice''"
| "TableStateString HaveWinner = ''have_winner''"

definition Summary :: "string list \<Rightarrow> Table \<Rightarrow> string" where
  "Summary ks t =
     ''DrawDeck count: '' @ show_int (Len (DrawDeck t)) @ newline @
     ''DiscardedPile count: '' @ show_int (Len (DiscardedPile t)) @ newline @
     ''Hand counts, Index:'' @ newline @ ''----------'' @ newline @
     concat (map (\<lambda>playerName. playerName @ '': '' @ show_int (Len (handOf t playerName)) @ '', ''
       @ show_int (indexOf t playerName) @ newline) ks) @
     ''Shuffler: '' @ ShufflerName t @ newline @
     ''Player of last turn: '' @ PlayerOfLastTurn t @ newline @
     ''Player of current turn: '' @ PlayerOfNextTurn t @ newline @
     ''Direction: '' @ show_int (Direction t) @ newline @
     ''RequiredColor: '' @ ColorString (RequiredColorOfCurrentTurn t) @ newline @
     ''RequiredNumber: '' @ NumberString (RequiredNumberOfCurrentTurn t) @ newline @
     ''RequiredColorOfLastTurn: '' @ ColorString (RequiredColorOfLastTurn t) @ newline @
     ''RequiredNumberOfLastTurn: '' @ NumberString (RequiredNumberOfLastTurn t) @ newline @
     ''TableState: '' @ TableStateString (TableState t) @ newline @
     ''Discard pile top:'' @ newline @ ''----------'' @ newline @
     concat (map (\<lambda>c. CardString c @ newline) (take 6 (rev (DiscardedPile t)))) @ newline"

section \<open>Well-formed tables\<close>

definition wf_seating :: "Table \<Rightarrow> bool" where
  "wf_seating t \<longleftrightarrow>
     distinct (PlayerNames t) \<and> dom (IndexOfPlayer t) = set (PlayerNames t) \<and>
     (\<forall>i < length (PlayerNames t). IndexOfPlayer t (PlayerNames t ! i) = Some (int i))"

definition wf_table :: "Table \<Rightarrow> bool" where
  "wf_table t \<longleftrightarrow>
     wf_seating t \<and> dom (HandOfPlayer t) = set (PlayerNames t) \<and> (Direction t = 1 \<or> Direction t = -1)"

text \<open>The player \<open>k\<close> seats after \<open>p\<close>, counting up the seat numbers and wrapping round.\<close>

definition seatFrom :: "Table \<Rightarrow> string \<Rightarrow> int \<Rightarrow> string" where
  "seatFrom t p k = PlayerNames t ! nat ((indexOf t p + k) mod PlayerCount t)"

section \<open>The seating contract\<close>

locale seating =
  fixes names :: "'t \<Rightarrow> 'p list"
    and idx :: "'t \<Rightarrow> 'p \<rightharpoonup> int"
    and seat :: "'t \<Rightarrow> 'p \<Rightarrow> int \<Rightarrow> 'p"
    and seated :: "'t \<Rightarrow> bool"
  assumes names_distinct: "seated t \<Longrightarrow> distinct (names t)"
    and idx_dom: "seated t \<Longrightarrow> dom (idx t) = set (names t)"
    and idx_names: "seated t \<Longrightarrow> i < length (names t) \<Longrightarrow> idx t (names t ! i) = Some (int i)"
    and seat_eq: "seated t \<Longrightarrow> idx t p = Some j \<Longrightarrow>
      seat t p k = names t ! nat ((j + k) mod int (length (names t)))"
begin

lemma idx_lookup:
  assumes "seated t" and "p \<in> set (names t)"
  obtains i where "i < length (names t)" and "names t ! i = p" and "idx t p = Some (int i)"
  using assms idx_names [OF assms(1)] by (metis in_set_conv_nth)

lemma idx_Some: "seated t \<Longrightarrow> idx t p = Some j \<Longrightarrow>
    0 \<le> j \<and> j < int (length (names t)) \<and> names t ! nat j = p"
  using idx_dom idx_lookup [of t p] by fastforce

lemma idx_names_Some: "seated t \<Longrightarrow> 0 \<le> j \<Longrightarrow> j < int (length (names t)) \<Longrightarrow> idx t (names t ! nat j) = Some j"
  using idx_names [of t "nat j"] by simp

lemma seat_in:
  assumes "seated t" and "p \<in> set (names t)"
  shows "seat t p k \<in> set (names t)" and "idx t (seat t p k) = Some ((the (idx t p) + k) mod int (length (names t)))"
proof -
  obtain i where i: "i < length (names t)" "idx t p = Some (int i)" using idx_lookup [OF assms] by blast
  let ?n = "int (length (names t))"
  from i have n: "0 < ?n" by linarith
  then have m: "0 \<le> (int i + k) mod ?n" "(int i + k) mod ?n < ?n" by simp_all
  with i assms(1) show "idx t (seat t p k) = Some ((the (idx t p) + k) mod ?n)"
    by (simp add: seat_eq idx_names_Some)
  then show "seat t p k \<in> set (names t)" using idx_dom [OF assms(1)] by blast
qed

lemma seat_zero: "seated t \<Longrightarrow> p \<in> set (names t) \<Longrightarrow> seat t p 0 = p"
  using idx_lookup [of t p] seat_eq [of t p _ 0] by (metis add_0_right int_ops(1) mod_pos_pos_trivial nat_int of_nat_0_le_iff of_nat_less_iff)

lemma seat_seat:
  assumes "seated t" and "p \<in> set (names t)"
  shows "seat t (seat t p k) l = seat t p (k + l)"
proof -
  obtain i where i: "idx t p = Some (int i)" using idx_lookup [OF assms] by blast
  have "idx t (seat t p k) = Some ((int i + k) mod int (length (names t)))"
    using seat_in(2) [OF assms, of k] i by simp
  with i assms(1) show ?thesis by (simp add: seat_eq mod_add_left_eq add.assoc)
qed

lemma seat_period: "seated t \<Longrightarrow> p \<in> set (names t) \<Longrightarrow> seat t p (int (length (names t))) = p"
  using idx_lookup [of t p] seat_eq [of t p _ "int (length (names t))"]
  by (metis mod_add_self2 mod_pos_pos_trivial nat_int of_nat_0_le_iff of_nat_less_iff)

lemma seat_inject:
  assumes "seated t" "p \<in> set (names t)" "0 \<le> k" "k < int (length (names t))" "0 \<le> l" "l < int (length (names t))"
  shows "seat t p k = seat t p l \<longleftrightarrow> k = l"
proof
  assume "seat t p k = seat t p l"
  with seat_in(2) [OF assms(1,2)] have
    "(the (idx t p) + k) mod int (length (names t)) = (the (idx t p) + l) mod int (length (names t))"
    by (metis option.inject)
  then have "int (length (names t)) dvd (k - l)" by (metis add_diff_cancel_left mod_eq_dvd_iff)
  then show "k = l" using assms(3-6) by (rule small_dvd_eq)
qed simp

end

interpretation seats: seating PlayerNames IndexOfPlayer seatFrom wf_seating
  by unfold_locales (auto simp: wf_seating_def seatFrom_def PlayerCount_def map_get_Some)

section \<open>Lemmas\<close>

lemma rem_round:
  fixes a n :: int
  assumes "0 < n"
  shows "(if a smod n < 0 then n + a smod n else a smod n) = a mod n"
proof (cases "0 \<le> a")
  case True
  moreover have "0 \<le> a mod n" using assms by simp
  ultimately show ?thesis using assms by (simp add: smod_nonneg del: Euclidean_Rings.pos_mod_sign)
next
  case False
  define m where "m = (- a) mod n"
  have "a mod n = (if m = 0 then 0 else n - m)"
    using zmod_zminus1_eq_if [of "- a" n] by (simp add: m_def)
  moreover have "a smod n = - m" using False assms by (simp add: smod_neg m_def)
  moreover have "0 \<le> m" using assms by (simp add: m_def)
  ultimately show ?thesis by auto
qed

lemma go_rem_round:
  "0 < n \<Longrightarrow> go_rem a n \<bind> (\<lambda>i. let j = (if i < 0 then n + i else i) in f j) = f (a mod n)"
  using rem_round [of n a] by (auto simp: go_rem_def Let_def split: if_splits)

lemma GetNextPlayerIndex_mod:
  "PlayerNames t \<noteq> [] \<Longrightarrow> GetNextPlayerIndex t cur step = Some ((cur + Direction t * step) mod PlayerCount t)"
  using rem_round [of "PlayerCount t" "cur + Direction t * step"]
  by (auto simp: GetNextPlayerIndex_def PlayerCount_def go_rem_def)

lemma getPlayerIndex_mod:
  "PlayerNames t \<noteq> [] \<Longrightarrow> getPlayerIndex t cur step dir = Some ((cur + dir * step) mod PlayerCount t)"
  using rem_round [of "PlayerCount t" "cur + dir * step"]
  by (auto simp: getPlayerIndex_def PlayerCount_def go_rem_def)

lemma PlayerCount_pos [simp]: "0 < PlayerCount t \<longleftrightarrow> PlayerNames t \<noteq> []"
  by (simp add: PlayerCount_def)

lemma mod_in_names: "PlayerNames t \<noteq> [] \<Longrightarrow>
    go_index (PlayerNames t) (a mod PlayerCount t) = Some (PlayerNames t ! nat (a mod PlayerCount t))"
  by (intro go_index_in) (simp_all add: PlayerCount_def)

lemma playerIndexLoop_Some:
  "playerIndexLoop i ns p = Some j \<Longrightarrow> i \<le> j \<and> j < i + int (length ns) \<and> ns ! nat (j - i) = p"
proof (induction i ns p rule: playerIndexLoop.induct)
  case (2 i n ns p)
  show ?case
  proof (cases "n = p")
    case False
    with 2 have "i + 1 \<le> j" "j < i + 1 + int (length ns)" "ns ! nat (j - (i + 1)) = p" by auto
    moreover from this have "nat (j - i) = Suc (nat (j - (i + 1)))" by linarith
    ultimately show ?thesis by simp
  qed (use 2 in simp)
qed simp

lemma playerIndexLoop_None: "playerIndexLoop i ns p = None \<longleftrightarrow> p \<notin> set ns"
  by (induction i ns p rule: playerIndexLoop.induct) auto

lemma PlayerIndexFromName_eq:
  assumes "wf_seating t"
  shows "PlayerIndexFromName t p = IndexOfPlayer t p"
proof (cases "PlayerIndexFromName t p")
  case None
  then have "p \<notin> dom (IndexOfPlayer t)" using seats.idx_dom [OF assms]
    by (simp add: PlayerIndexFromName_def playerIndexLoop_None)
  then show ?thesis by (simp add: None domIff)
next
  case (Some j)
  then have "0 \<le> j" "j < int (length (PlayerNames t))" "PlayerNames t ! nat j = p"
    using playerIndexLoop_Some [of 0 "PlayerNames t" p j] by (auto simp: PlayerIndexFromName_def)
  then show ?thesis using seats.idx_names_Some [OF assms] Some by auto
qed

lemma wf_tableD:
  assumes "wf_table t"
  shows "wf_seating t" "distinct (PlayerNames t)" "dom (HandOfPlayer t) = set (PlayerNames t)"
    "Direction t = 1 \<or> Direction t = -1" "Direction t * Direction t = 1"
  using assms by (auto simp: wf_table_def wf_seating_def)

lemma seated_nonempty: "p \<in> set (PlayerNames t) \<Longrightarrow> PlayerNames t \<noteq> []"
  by auto

lemma sortedIndicesLoop_eq:
  assumes "PlayerNames t \<noteq> []" "0 \<le> cur" "cur < PlayerCount t"
  shows "sortedIndicesLoop t n cur =
    Some (map (\<lambda>k. (cur + Direction t * int k) mod PlayerCount t) [0..<n])"
  using assms(2,3)
proof (induction n arbitrary: cur)
  case (Suc n)
  let ?next = "(cur + Direction t) mod PlayerCount t"
  have "0 \<le> ?next" "?next < PlayerCount t" using assms(1) by simp_all
  with Suc.IH have "sortedIndicesLoop t n ?next =
      Some (map (\<lambda>k. (?next + Direction t * int k) mod PlayerCount t) [0..<n])" by blast
  moreover have "(?next + Direction t * int k) mod PlayerCount t = (cur + Direction t * int (Suc k)) mod PlayerCount t" for k
    by (simp add: mod_add_left_eq distrib_left add.assoc)
  moreover have "[0..<Suc n] = 0 # map Suc [0..<n]" by (simp add: upt_conv_Cons map_Suc_upt del: upt_Suc)
  ultimately show ?case using assms(1) Suc.prems
    by (simp add: GetNextPlayerIndex_mod del: upt_Suc)
qed simp

lemma sortedIndices_ok:
  assumes "wf_table t" and "PlayerOfNextTurn t \<in> set (PlayerNames t)"
  shows "\<exists>is. PlayerIndicesSortedByTurn t = Some is \<and> distinct is \<and> set is = {0..<PlayerCount t} \<and>
    (\<forall>k < length (PlayerNames t). PlayerNames t ! nat (is ! k) = seatFrom t (PlayerOfNextTurn t) (Direction t * int k))"
proof -
  let ?n = "PlayerCount t" and ?cur = "indexOf t (PlayerOfNextTurn t)"
  let ?is = "map (\<lambda>k. (?cur + Direction t * int k) mod ?n) [0..<length (PlayerNames t)]"
  have w: "wf_seating t" using assms(1) by (rule wf_tableD)
  have ne: "PlayerNames t \<noteq> []" using assms(2) by (rule seated_nonempty)
  obtain i where "IndexOfPlayer t (PlayerOfNextTurn t) = Some (int i)" "i < length (PlayerNames t)"
    using seats.idx_lookup [OF w assms(2)] by blast
  then have "0 \<le> ?cur" "?cur < ?n" by (simp_all add: map_get_Some PlayerCount_def)
  then have eq: "PlayerIndicesSortedByTurn t = Some ?is"
    by (simp add: PlayerIndicesSortedByTurn_def sortedIndicesLoop_eq [OF ne])
  have "k = l" if "(?cur + Direction t * int k) mod ?n = (?cur + Direction t * int l) mod ?n"
    "k < length (PlayerNames t)" "l < length (PlayerNames t)" for k l
  proof -
    from that(1) have "?n dvd Direction t * (int k - int l)"
      by (metis add_diff_cancel_left mod_eq_dvd_iff right_diff_distrib)
    then have "?n dvd (int k - int l)" using wf_tableD(4) [OF assms(1)] by (auto simp: dvd_diff_commute)
    with that show ?thesis using small_dvd_eq [of ?n "int k" "int l"] by (simp add: PlayerCount_def)
  qed
  then have d: "distinct ?is" by (auto simp: distinct_map inj_on_def)
  have "set ?is \<subseteq> {0..<?n}" using ne by auto
  moreover have "card (set ?is) = card {0..<?n}" using distinct_card [OF d] by (simp add: PlayerCount_def)
  ultimately have "set ?is = {0..<?n}" by (intro card_subset_eq) auto
  moreover have "\<forall>k < length (PlayerNames t). PlayerNames t ! nat (?is ! k) = seatFrom t (PlayerOfNextTurn t) (Direction t * int k)"
    by (simp add: seatFrom_def)
  ultimately show ?thesis using eq d by blast
qed

lemma GetNextPlayer_seat:
  assumes "wf_table t" and "PlayerOfNextTurn t \<in> set (PlayerNames t)"
  shows "GetNextPlayer t step = Some (seatFrom t (PlayerOfNextTurn t) (Direction t * step), None)"
proof -
  have ne: "PlayerNames t \<noteq> []" using assms(2) by (rule seated_nonempty)
  obtain i where i: "IndexOfPlayer t (PlayerOfNextTurn t) = Some i"
    using seats.idx_lookup [OF wf_tableD(1) [OF assms(1)] assms(2)] by blast
  show ?thesis
    using i ne mod_in_names [OF ne, of "i + Direction t * step"]
      go_rem_round [of "PlayerCount t" "i + Direction t * step"
        "\<lambda>j. go_index (PlayerNames t) j \<bind> (\<lambda>name. Some (name, None :: TableError option))"]
    by (simp add: GetNextPlayer_def seatFrom_def map_get_Some)
qed

section \<open>Counting the cards\<close>

definition tableCards :: "Table \<Rightarrow> Card multiset" where
  "tableCards t = mset (DrawDeck t) + mset (DiscardedPile t)
     + sum_list (map (\<lambda>p. mset (handOf t p)) (PlayerNames t))"

lemma hands_update:
  assumes "distinct ns" and "p \<in> set ns"
  shows "sum_list (map (\<lambda>q. mset (map_get [] (m(p \<mapsto> h)) q)) ns) + mset (map_get [] m p) =
    sum_list (map (\<lambda>q. mset (map_get [] m q)) ns) + mset h"
proof -
  let ?f = "\<lambda>q. mset (map_get [] m q)" and ?g = "\<lambda>q. mset (map_get [] (m(p \<mapsto> h)) q)"
  have "\<exists>r. sum_list (map ?f ns) = ?f p + r \<and> sum_list (map ?g ns) = ?g p + r"
    using assms by (intro sum_list_update_one) simp_all
  then show ?thesis by (auto simp: ac_simps)
qed

lemma hands_empty: "\<forall>p \<in> set ns. map_get [] m p = [] \<Longrightarrow> sum_list (map (\<lambda>p. mset (map_get [] m p)) ns) = {#}"
  by (induction ns) simp_all

text \<open>A table on which a game is being played.\<close>

definition wf_game :: "Table \<Rightarrow> bool" where
  "wf_game t \<longleftrightarrow>
     wf_table t \<and> DiscardedPile t \<noteq> [] \<and>
     PlayerOfNextTurn t \<in> set (PlayerNames t) \<and> PlayerOfLastTurn t \<in> set (PlayerNames t) \<and>
     valid_color (RequiredColorOfCurrentTurn t) \<and> (\<forall>c \<in># tableCards t. valid_card c)"

lemma wf_gameD:
  assumes "wf_game t"
  shows "wf_table t" "DiscardedPile t \<noteq> []" "PlayerOfNextTurn t \<in> set (PlayerNames t)"
    "PlayerOfLastTurn t \<in> set (PlayerNames t)" "PlayerNames t \<noteq> []"
    "valid_color (RequiredColorOfCurrentTurn t)" "\<forall>c \<in># tableCards t. valid_card c"
  using assms by (auto simp: wf_game_def)

section \<open>Adding players\<close>

lemma AddPlayer_fresh:
  assumes "p \<notin> set (PlayerNames t)"
  shows "AddPlayer p t = (None,
    t\<lparr>PlayerNames := PlayerNames t @ [p],
      IndexOfPlayer := (IndexOfPlayer t)(p \<mapsto> int (length (PlayerNames t))),
      HandOfPlayer := (HandOfPlayer t)(p \<mapsto> [])\<rparr>)"
  using assms by (auto simp: AddPlayer_def list_ex_iff NewEmptyDeck_def Let_def)

lemma AddPlayer_taken: "p \<in> set (PlayerNames t) \<Longrightarrow> AddPlayer p t = (Some ExistingPlayerHasSameName, t)"
  by (auto simp: AddPlayer_def list_ex_iff)

lemma AddPlayer_wf:
  assumes "wf_table t"
  shows "wf_table (snd (AddPlayer p t))"
proof (cases "p \<in> set (PlayerNames t)")
  case False
  have "IndexOfPlayer (snd (AddPlayer p t)) (PlayerNames (snd (AddPlayer p t)) ! i) = Some (int i)"
    if "i < Suc (length (PlayerNames t))" for i
  proof (cases "i = length (PlayerNames t)")
    case False
    with that have "i < length (PlayerNames t)" by simp
    moreover from this have "PlayerNames t ! i \<noteq> p" using \<open>p \<notin> set (PlayerNames t)\<close> nth_mem by metis
    ultimately show ?thesis using assms \<open>p \<notin> set (PlayerNames t)\<close>
      by (simp add: AddPlayer_fresh nth_append wf_table_def wf_seating_def)
  qed (simp add: AddPlayer_fresh \<open>p \<notin> set (PlayerNames t)\<close> nth_append)
  with False assms show ?thesis by (auto simp: AddPlayer_fresh wf_table_def wf_seating_def)
qed (use assms in \<open>simp add: AddPlayer_taken\<close>)

lemma wf_createNewTable: "wf_table (createNewTable srt)"
  by (simp add: createNewTable_def wf_table_def wf_seating_def)

lemma tableCards_createNewTable: "tableCards (createNewTable srt) = mset unsortedFullDeck"
  by (simp add: createNewTable_def tableCards_def NewEmptyDeck_def)

lemma tableCards_AddPlayer: "wf_table t \<Longrightarrow> tableCards (snd (AddPlayer p t)) = tableCards t"
proof (cases "p \<in> set (PlayerNames t)")
  case False
  then have "map (\<lambda>q. mset (handOf (snd (AddPlayer p t)) q)) (PlayerNames t) = map (\<lambda>q. mset (handOf t q)) (PlayerNames t)"
    by (auto simp: AddPlayer_fresh)
  then have "sum_list (map (\<lambda>q. mset (handOf (snd (AddPlayer p t)) q)) (PlayerNames t)) =
      sum_list (map (\<lambda>q. mset (handOf t q)) (PlayerNames t))" by (rule arg_cong)
  with False show ?thesis by (simp add: tableCards_def AddPlayer_fresh)
qed (simp add: AddPlayer_taken)

section \<open>Rearranging seats\<close>

lemma nth_swap_list:
  assumes "i < length xs" "j < length xs" "k < length xs"
  shows "xs[i := xs ! j, j := xs ! i] ! k = (if k = j then xs ! i else if k = i then xs ! j else xs ! k)"
  using assms by (simp add: nth_list_update)

lemma RearrangeLoop_wf:
  assumes "distinct (PlayerNames t)" "dom (IndexOfPlayer t) = set (PlayerNames t)"
    "i + length js = length (PlayerNames t)" "\<forall>j \<in> set js. 0 \<le> j \<and> j < PlayerCount t"
    "\<forall>k < i. IndexOfPlayer t (PlayerNames t ! k) = Some (int k)"
  shows "\<exists>t'. RearrangeLoop (int i) js t = Some t' \<and> wf_seating t' \<and> set (PlayerNames t') = set (PlayerNames t)
     \<and> HandOfPlayer t' = HandOfPlayer t \<and> DrawDeck t' = DrawDeck t \<and> Direction t' = Direction t"
  using assms
proof (induction js arbitrary: t i)
  case Nil
  then show ?case by (auto simp: wf_seating_def)
next
  case (Cons j js)
  let ?ns = "PlayerNames t" and ?j = "nat j"
  from Cons.prems have b: "i < length ?ns" "?j < length ?ns" "j = int ?j" "0 \<le> j" "j < int (length ?ns)" by (auto simp: PlayerCount_def)
  define ns where "ns = ?ns[i := ?ns ! ?j, ?j := ?ns ! i]"
  have ns: "distinct ns" "set ns = set ?ns" "length ns = length ?ns"
    using b Cons.prems(1) by (simp_all add: ns_def distinct_swap set_swap)
  define t1 where "t1 = t\<lparr>PlayerNames := ns, IndexOfPlayer := (IndexOfPlayer t)(ns ! i \<mapsto> int i, ns ! ?j \<mapsto> j)\<rparr>"
  have n1: "PlayerNames t1 = ns" by (simp add: t1_def)
  have step: "RearrangeLoop (int i) (j # js) t = RearrangeLoop (int (Suc i)) js t1"
    using b by (simp add: t1_def ns_def Let_def add.commute)
  have "IndexOfPlayer t1 (ns ! k) = Some (int k)" if k: "k < Suc i" for k
  proof -
    have "k < length ns" using k b ns by simp
    then have e: "ns ! k = ns ! i \<longleftrightarrow> k = i" "ns ! k = ns ! ?j \<longleftrightarrow> k = ?j"
      using ns b by (simp_all add: nth_eq_iff_index_eq)
    have "IndexOfPlayer t (ns ! k) = Some (int k)" if "k \<noteq> i" "k \<noteq> ?j"
      using that k Cons.prems(5) b by (simp add: ns_def nth_swap_list)
    with e b show ?thesis by (auto simp: t1_def)
  qed
  moreover have "dom (IndexOfPlayer t1) = set ns"
    using Cons.prems(2) ns b nth_mem [of i ns] nth_mem [of ?j ns] by (auto simp: t1_def)
  ultimately have "\<exists>t'. RearrangeLoop (int (Suc i)) js t1 = Some t' \<and> wf_seating t' \<and> set (PlayerNames t') = set (PlayerNames t1)
      \<and> HandOfPlayer t' = HandOfPlayer t1 \<and> DrawDeck t' = DrawDeck t1 \<and> Direction t' = Direction t1"
    using Cons.prems ns n1 by (intro Cons.IH) (simp_all add: PlayerCount_def)
  then show ?case unfolding step using ns(2) by (auto simp: t1_def)
qed

section \<open>A concrete table\<close>

text \<open>Three players in the middle of a game: the input of the witnesses below and of the
  components built on the table.\<close>

definition demoTable :: Table where
  "demoTable = (createNewTable (\<lambda>_. []))
     \<lparr>DrawDeck := [mkCard 1 1, mkCard 2 2, mkCard 3 3, mkCard 4 4, mkCard 5 1, mkCard 6 2],
      DiscardedPile := [mkCard 7 1],
      IndexOfPlayer := [''al'' \<mapsto> 0, ''bob'' \<mapsto> 1, ''cy'' \<mapsto> 2],
      HandOfPlayer := [''al'' \<mapsto> [mkCard 7 3, mkCard 14 0, mkCard 10 1, mkCard 12 1, mkCard 11 1],
                       ''bob'' \<mapsto> [mkCard 9 4, mkCard 13 0], ''cy'' \<mapsto> [mkCard 8 2]],
      PlayerNames := [''al'', ''bob'', ''cy''],
      PlayerOfNextTurn := ''al'',
      PlayerOfLastTurn := ''cy'',
      RequiredColorOfCurrentTurn := 1,
      RequiredNumberOfCurrentTurn := 7,
      IsShuffled := True\<rparr>"

lemma demoTable_sel [simp]:
  "DrawDeck demoTable = [mkCard 1 1, mkCard 2 2, mkCard 3 3, mkCard 4 4, mkCard 5 1, mkCard 6 2]"
  "DiscardedPile demoTable = [mkCard 7 1]"
  "IndexOfPlayer demoTable = [''al'' \<mapsto> 0, ''bob'' \<mapsto> 1, ''cy'' \<mapsto> 2]"
  "PlayerNames demoTable = [''al'', ''bob'', ''cy'']"
  "PlayerOfNextTurn demoTable = ''al''" "PlayerOfLastTurn demoTable = ''cy''"
  "Direction demoTable = 1" "TableState demoTable = StartOfTurn" "LocalPlayerName demoTable = []"
  "RequiredColorOfCurrentTurn demoTable = 1" "RequiredNumberOfCurrentTurn demoTable = 7"
  by (simp_all add: demoTable_def createNewTable_def)

lemma demoTable_hands [simp]:
  "HandOfPlayer demoTable = [''al'' \<mapsto> [mkCard 7 3, mkCard 14 0, mkCard 10 1, mkCard 12 1, mkCard 11 1],
     ''bob'' \<mapsto> [mkCard 9 4, mkCard 13 0], ''cy'' \<mapsto> [mkCard 8 2]]"
  by (simp add: demoTable_def createNewTable_def)

lemma wf_demoTable [simp]: "wf_table demoTable"
  by (auto simp: wf_table_def wf_seating_def less_Suc_eq)

lemma wf_game_demoTable [simp]: "wf_game demoTable"
  by (auto simp: wf_game_def tableCards_def map_get_def valid_color_def valid_card_def IsWild_def)

section \<open>Properties\<close>

text \<open>\<open>AddPlayer\<close> keeps the table well-formed and moves no card; it fails, leaving the table as it
  was, exactly when the name is taken, and otherwise seats the player last with an empty hand.  The
  error \<open>ErrPlayerAlreadyExists\<close> that the admin's handler tests for is never the one it returns.\<close>

theorem AddPlayer_spec:
  assumes "wf_table t" and "AddPlayer p t = (err, t')"
  shows "wf_table t' \<and> tableCards t' = tableCards t \<and> err \<noteq> Some ErrPlayerAlreadyExists \<and>
    (if p \<in> set (PlayerNames t) then err = Some ExistingPlayerHasSameName \<and> t' = t
     else err = None \<and> PlayerNames t' = PlayerNames t @ [p] \<and> handOf t' p = []
       \<and> IndexOfPlayer t' p = Some (PlayerCount t))"
  using assms AddPlayer_wf [OF assms(1), of p] tableCards_AddPlayer [OF assms(1), of p]
  by (cases "p \<in> set (PlayerNames t)") (auto simp: AddPlayer_taken AddPlayer_fresh PlayerCount_def)

theorem AddPlayer_spec_witness:
  "let t = snd (AddPlayer ''al'' (createNewTable (\<lambda>_. []))) in
     wf_table t \<and> wf_table (snd (AddPlayer ''bob'' t)) \<and> PlayerNames (snd (AddPlayer ''bob'' t)) = [''al'', ''bob'']"
proof -
  let ?t = "snd (AddPlayer ''al'' (createNewTable (\<lambda>_. [])))"
  have w: "wf_table ?t" by (rule AddPlayer_wf [OF wf_createNewTable])
  have n: "PlayerNames ?t = [''al'']" by (simp add: AddPlayer_fresh createNewTable_def)
  from AddPlayer_spec [OF w, of "''bob''" "fst (AddPlayer ''bob'' ?t)" "snd (AddPlayer ''bob'' ?t)"] w n
  show ?thesis by (simp add: Let_def)
qed

text \<open>Turn arithmetic: on a table with players, \<open>GetNextPlayerIndex\<close> never panics and is the
  index moved by direction times step, modulo the number of players, for every integer index and step;
  with no players it panics on the division by zero.\<close>

theorem GetNextPlayerIndex_spec:
  "GetNextPlayerIndex t cur step =
     (if PlayerNames t = [] then None else Some ((cur + Direction t * step) mod PlayerCount t))"
  by (simp add: GetNextPlayerIndex_mod) (simp add: GetNextPlayerIndex_def PlayerCount_def go_rem_def)

text \<open>The next and the previous player: on a well-formed table whose turn belongs to a seated
  player, \<open>GetNextPlayer\<close> walks \<open>step\<close> seats in the direction of play and \<open>GetPreviousPlayer\<close>
  walks one seat back, neither fails, and the previous player of the next player is the current one.\<close>

theorem next_previous_player:
  assumes "wf_table t" and "PlayerOfNextTurn t \<in> set (PlayerNames t)"
  shows "GetNextPlayer t step = Some (seatFrom t (PlayerOfNextTurn t) (Direction t * step), None) \<and>
    GetPreviousPlayer t = Some (seatFrom t (PlayerOfNextTurn t) (- Direction t), None) \<and>
    GetPreviousPlayer (t\<lparr>PlayerOfNextTurn := seatFrom t (PlayerOfNextTurn t) (Direction t)\<rparr>)
      = Some (PlayerOfNextTurn t, None)"
proof -
  have w: "wf_seating t" using assms(1) by (rule wf_tableD)
  have ne: "PlayerNames t \<noteq> []" using assms(2) by (rule seated_nonempty)
  have prev: "GetPreviousPlayer (t\<lparr>PlayerOfNextTurn := q\<rparr>) = Some (seatFrom t q (- Direction t), None)"
    if "q \<in> set (PlayerNames t)" for q
  proof -
    obtain i where i: "IndexOfPlayer t q = Some i" using seats.idx_lookup [OF w \<open>q \<in> _\<close>] by blast
    from ne have "getPlayerIndex (t\<lparr>PlayerOfNextTurn := q\<rparr>) i 1 (- Direction t) = Some ((i - Direction t) mod PlayerCount t)"
      by (simp add: getPlayerIndex_mod PlayerCount_def)
    with i ne show ?thesis
      using mod_in_names [OF ne, of "i - Direction t"] by (simp add: GetPreviousPlayer_def seatFrom_def map_get_Some)
  qed
  show ?thesis
    using GetNextPlayer_seat [OF assms] prev [OF assms(2)] prev [OF seats.seat_in(1) [OF w assms(2), of "Direction t"]]
    by (simp add: seats.seat_seat [OF w assms(2)] seats.seat_zero [OF w assms(2)])
qed

theorem next_previous_player_witness:
  "wf_table demoTable \<and> PlayerOfNextTurn demoTable \<in> set (PlayerNames demoTable) \<and>
   GetNextPlayer demoTable 1 = Some (''bob'', None) \<and> GetPreviousPlayer demoTable = Some (''cy'', None)"
proof -
  have h: "PlayerOfNextTurn demoTable \<in> set (PlayerNames demoTable)" by simp
  show ?thesis using h next_previous_player [OF wf_demoTable h, of 1]
    by (simp add: seatFrom_def PlayerCount_def map_get_def)
qed

text \<open>The turn order shown to the user: \<open>PlayerIndicesSortedByTurn\<close> lists every seat exactly
  once, the current player's first, each next one being one seat further in the direction of play.\<close>

theorem PlayerIndicesSortedByTurn_spec:
  assumes "wf_table t" and "PlayerOfNextTurn t \<in> set (PlayerNames t)"
  shows "\<exists>is. PlayerIndicesSortedByTurn t = Some is \<and> distinct is \<and> set is = {0..<PlayerCount t} \<and>
    (\<forall>k < length (PlayerNames t). PlayerNames t ! nat (is ! k) = seatFrom t (PlayerOfNextTurn t) (Direction t * int k))"
  using assms by (rule sortedIndices_ok)

theorem PlayerIndicesSortedByTurn_spec_witness:
  "wf_table demoTable \<and> PlayerOfNextTurn demoTable \<in> set (PlayerNames demoTable) \<and>
   (\<exists>is. PlayerIndicesSortedByTurn demoTable = Some is \<and> distinct is \<and> set is = {0..<3})"
proof -
  have h: "PlayerOfNextTurn demoTable \<in> set (PlayerNames demoTable)" by simp
  have n: "PlayerCount demoTable = 3" by (simp add: PlayerCount_def)
  show ?thesis using h PlayerIndicesSortedByTurn_spec [OF wf_demoTable h] unfolding n by (metis wf_demoTable)
qed

text \<open>\<open>RearrangePlayerIndices\<close> with one in-range index per player re-seats the players: it does
  not panic, keeps the same set of names with names and indices in agreement, and changes nothing else,
  whatever order the sort of the names produced.\<close>

theorem RearrangePlayerIndices_wf:
  assumes "wf_table t" and "length indices = length (PlayerNames t)"
    and "\<forall>j \<in> set indices. 0 \<le> j \<and> j < PlayerCount t"
  shows "\<exists>t'. RearrangePlayerIndices srt indices t = Some t' \<and> wf_table t' \<and>
    set (PlayerNames t') = set (PlayerNames t) \<and> HandOfPlayer t' = HandOfPlayer t \<and> DrawDeck t' = DrawDeck t"
proof -
  let ?t = "t\<lparr>PlayerNames := goSort srt (PlayerNames t)\<rparr>"
  have "distinct (goSort srt (PlayerNames t))"
    using wf_tableD(2) [OF assms(1)] by (metis card_distinct distinct_card length_goSort set_goSort)
  with assms obtain t' where t': "RearrangeLoop (int 0) indices ?t = Some t'" "wf_seating t'"
    "set (PlayerNames t') = set (PlayerNames ?t)"
    "HandOfPlayer t' = HandOfPlayer t" "DrawDeck t' = DrawDeck t" "Direction t' = Direction t"
    using RearrangeLoop_wf [of ?t 0 indices] by (auto simp: wf_table_def wf_seating_def PlayerCount_def)
  with assms(1) show ?thesis
    by (auto simp: RearrangePlayerIndices_def wf_table_def)
qed

theorem RearrangePlayerIndices_wf_witness:
  "\<exists>t'. RearrangePlayerIndices (\<lambda>_. []) [2, 0, 1] demoTable = Some t' \<and> wf_table t' \<and>
     set (PlayerNames t') = {''al'', ''bob'', ''cy''}"
proof -
  have "length [2, 0, 1 :: int] = length (PlayerNames demoTable)"
    and "\<forall>j \<in> set [2, 0, 1 :: int]. 0 \<le> j \<and> j < PlayerCount demoTable"
    by (simp_all add: PlayerCount_def)
  from RearrangePlayerIndices_wf [OF wf_demoTable this, of "\<lambda>_. []"] obtain t' where
    "RearrangePlayerIndices (\<lambda>_. []) [2, 0, 1] demoTable = Some t'" "wf_table t'"
    "set (PlayerNames t') = set (PlayerNames demoTable)" by blast
  then show ?thesis by (intro exI [of _ t']) simp
qed

end
