(* ===== verification/Shuffle.thy ===== *)
theory Shuffle
  imports Tables
begin

text \<open>
  Dealing: \<open>ShuffleIntRange\<close> of \<open>uknow_utils.go\<close> and \<open>ShuffleDeckAndDistribute\<close> of
  \<open>uknow.go\<close>.  The random source is a parameter \<open>rnd\<close>: the call \<open>rand.Intn(e)\<close> of the loop turn
  with bound \<open>e\<close> returns \<open>rnd e mod e\<close>, so every sequence of draws is some \<open>rnd\<close>.  The hands are
  dealt in the iteration order \<open>ks\<close> of the index map.  Slicing past the end of the deck panics:
  the first of the two slice expressions may still succeed on spare capacity, the second cannot.
\<close>

section \<open>Operations\<close>

fun shuffleLoop :: "(nat \<Rightarrow> nat) \<Rightarrow> nat \<Rightarrow> int list \<Rightarrow> int list" where
  "shuffleLoop rnd 0 sl = sl"
| "shuffleLoop rnd (Suc e) sl = shuffleLoop rnd e (swapAt sl (rnd (Suc e) mod Suc e) e)"

definition ShuffleIntRange :: "(nat \<Rightarrow> nat) \<Rightarrow> int \<Rightarrow> int \<Rightarrow> int list option" where
  "ShuffleIntRange rnd start stop =
     (if stop < start then None
      else let n = nat (stop - start); sl = map int [0..<n]
           in Some (shuffleLoop rnd (length sl) sl))"

fun swapLoop :: "int \<Rightarrow> int list \<Rightarrow> Deck \<Rightarrow> Deck option" where
  "swapLoop i [] d = Some d"
| "swapLoop i (j # js) d = do { d' \<leftarrow> Swap d i j; swapLoop (i + 1) js d' }"

fun distributeLoop :: "nat \<Rightarrow> string list \<Rightarrow> Table \<Rightarrow> Table option" where
  "distributeLoop h [] t = Some t"
| "distributeLoop h (playerName # ks) t =
     (if h > length (DrawDeck t) then None
      else
        let hand = take h (DrawDeck t);
            t = t\<lparr>HandOfPlayer := (HandOfPlayer t)(playerName \<mapsto> hand)\<rparr>;
            t = t\<lparr>DrawDeck := drop h (DrawDeck t)\<rparr>
        in distributeLoop h ks t)"

text \<open>The second half of \<open>ShuffleDeckAndDistribute\<close>: turning up the first card and choosing the
  first player.\<close>

definition turnUpFirstCard :: "Table \<Rightarrow> Table option" where
  "turnUpFirstCard t = do {
     let topCard = fst (Top (DrawDeck t));
     d \<leftarrow> MustPop (DrawDeck t);
     let t = t\<lparr>DrawDeck := d\<rparr>;
     let t = t\<lparr>DiscardedPile := Push (DiscardedPile t) [topCard]\<rparr>;
     let t = (if Number topCard = NumberReverse then t\<lparr>Direction := - Direction t\<rparr> else t);
     let t = (if IsWild topCard then snd (SetRequiredColor ColorRed None t)
              else snd (SetRequiredColor (Color topCard) None t));
     indexOfNextPlayer \<leftarrow> GetNextPlayerIndex t (indexOf t (ShufflerName t)) 1;
     name \<leftarrow> go_index (PlayerNames t) indexOfNextPlayer;
     let t = SetPlayerOfNextTurn name t;
     let t = SetRequiredNumber (Number topCard) t;
     let t = t\<lparr>PlayerOfLastTurn := ShufflerName t\<rparr>;
     Some (t\<lparr>IsShuffled := True\<rparr>)
   }"

definition ShuffleDeckAndDistribute :: "(nat \<Rightarrow> nat) \<Rightarrow> string list \<Rightarrow> int \<Rightarrow> Table \<Rightarrow> Table option" where
  "ShuffleDeckAndDistribute rnd ks startingHandCount t =
     (if startingHandCount \<le> 0 \<or> startingHandCount > 12 then None
      else do {
        shuffledIndices \<leftarrow> ShuffleIntRange rnd 0 (Len (DrawDeck t));
        d \<leftarrow> swapLoop 0 shuffledIndices (DrawDeck t);
        t \<leftarrow> distributeLoop (nat startingHandCount) ks (t\<lparr>DrawDeck := d\<rparr>);
        turnUpFirstCard t
      })"

text \<open>The table that a panic in the deal leaves behind, when something above recovers it.  \<open>spare\<close> is what
  the array of the draw deck holds beyond the deck: with enough of it the first slice expression still
  succeeds, and the player gets those cards before the second one panics.\<close>

fun distributeLeft :: "Deck \<Rightarrow> nat \<Rightarrow> string list \<Rightarrow> Table \<Rightarrow> Table" where
  "distributeLeft spare h [] t = t"
| "distributeLeft spare h (playerName # ks) t =
     (if h > length (DrawDeck t)
      then (if h > length (DrawDeck t) + length spare then t
            else t\<lparr>HandOfPlayer := (HandOfPlayer t)(playerName \<mapsto> take h (DrawDeck t @ spare))\<rparr>)
      else
        let hand = take h (DrawDeck t);
            t = t\<lparr>HandOfPlayer := (HandOfPlayer t)(playerName \<mapsto> hand)\<rparr>;
            t = t\<lparr>DrawDeck := drop h (DrawDeck t)\<rparr>
        in distributeLeft spare h ks t)"

definition turnUpLeft :: "Table \<Rightarrow> Table" where
  "turnUpLeft t =
     (case MustPop (DrawDeck t) of
        None \<Rightarrow> t
      | Some d \<Rightarrow>
          (let topCard = fst (Top (DrawDeck t));
               t = t\<lparr>DrawDeck := d\<rparr>;
               t = t\<lparr>DiscardedPile := Push (DiscardedPile t) [topCard]\<rparr>;
               t = (if Number topCard = NumberReverse then t\<lparr>Direction := - Direction t\<rparr> else t)
           in if IsWild topCard then snd (SetRequiredColor ColorRed None t)
              else snd (SetRequiredColor (Color topCard) None t)))"

definition ShuffleLeft :: "Deck \<Rightarrow> (nat \<Rightarrow> nat) \<Rightarrow> string list \<Rightarrow> int \<Rightarrow> Table \<Rightarrow> Table" where
  "ShuffleLeft spare rnd ks startingHandCount t =
     (if startingHandCount \<le> 0 \<or> startingHandCount > 12 then t
      else case Option.bind (ShuffleIntRange rnd 0 (Len (DrawDeck t))) (\<lambda>js. swapLoop 0 js (DrawDeck t)) of
        None \<Rightarrow> t
      | Some d \<Rightarrow>
          (let t = t\<lparr>DrawDeck := d\<rparr> in
           case distributeLoop (nat startingHandCount) ks t of
             None \<Rightarrow> distributeLeft spare (nat startingHandCount) ks t
           | Some t \<Rightarrow> turnUpLeft t))"

section \<open>Lemmas\<close>

lemma mset_shuffleLoop: "e \<le> length s \<Longrightarrow> mset (shuffleLoop rnd e s) = mset s"
proof (induction rnd e s rule: shuffleLoop.induct)
  case (2 rnd e s)
  have "rnd (Suc e) mod Suc e \<le> e" by (simp add: less_Suc_eq_le [symmetric])
  with 2 show ?case by simp
qed simp

lemma ShuffleIntRange_perm:
  "start \<le> stop \<Longrightarrow> \<exists>xs. ShuffleIntRange rnd start stop = Some xs \<and> mset xs = mset (map int [0..<nat (stop - start)])"
  by (simp add: ShuffleIntRange_def mset_shuffleLoop Let_def)

lemma Swap_in:
  "0 \<le> i \<Longrightarrow> i < Len d \<Longrightarrow> 0 \<le> j \<Longrightarrow> j < Len d \<Longrightarrow> Swap d i j = Some (swapAt d (nat i) (nat j))"
  by (simp add: Swap_def Len_def swapAt_def)

lemma swapLoop_perm:
  assumes "0 \<le> i" "i + int (length js) \<le> Len d" "\<forall>j \<in> set js. 0 \<le> j \<and> j < Len d"
  shows "\<exists>d'. swapLoop i js d = Some d' \<and> mset d' = mset d"
  using assms
proof (induction js arbitrary: i d)
  case (Cons j js)
  then have s: "Swap d i j = Some (swapAt d (nat i) (nat j))" by (intro Swap_in) auto
  have l: "Len (swapAt d (nat i) (nat j)) = Len d" by (simp add: Len_def)
  have m: "mset (swapAt d (nat i) (nat j)) = mset d" using Cons.prems by (intro mset_swapAt) (auto simp: Len_def)
  have "\<exists>d'. swapLoop (i + 1) js (swapAt d (nat i) (nat j)) = Some d' \<and> mset d' = mset (swapAt d (nat i) (nat j))"
    using Cons.prems by (intro Cons.IH) (auto simp: l)
  with s m show ?case by simp
qed simp

text \<open>The shuffle as a whole is a permutation of the draw deck and never panics.\<close>

lemma shuffle_deck_perm:
  obtains js d' where "ShuffleIntRange rnd 0 (Len d) = Some js" and "swapLoop 0 js d = Some d'" and "mset d' = mset d"
proof -
  obtain js where js: "ShuffleIntRange rnd 0 (Len d) = Some js" "mset js = mset (map int [0..<length d])"
    using ShuffleIntRange_perm [of 0 "Len d" rnd] by (auto simp: Len_def)
  then have "length js = length d" by (metis length_map length_upt minus_nat.diff_0 size_mset)
  moreover have "set js = set (map int [0..<length d])" using js(2) by (metis set_mset_mset)
  ultimately obtain d' where "swapLoop 0 js d = Some d'" "mset d' = mset d"
    using swapLoop_perm [of 0 js d] by (auto simp: Len_def)
  with js that show ?thesis by blast
qed

text \<open>The frame of the deal: it writes the hands of the visited players and shortens the deck.\<close>

lemma distributeLoop_spec:
  assumes "h * length ks \<le> length (DrawDeck t)" and "distinct ks"
  shows "\<exists>m. distributeLoop h ks t = Some (t\<lparr>DrawDeck := drop (h * length ks) (DrawDeck t), HandOfPlayer := m\<rparr>) \<and>
    dom m = dom (HandOfPlayer t) \<union> set ks \<and> (\<forall>p. p \<notin> set ks \<longrightarrow> m p = HandOfPlayer t p) \<and>
    (\<forall>p \<in> set ks. length (map_get [] m p) = h) \<and>
    sum_list (map (\<lambda>p. mset (map_get [] m p)) ks) + mset (drop (h * length ks) (DrawDeck t)) = mset (DrawDeck t)"
  using assms
proof (induction ks arbitrary: t)
  case Nil
  then show ?case by (intro exI [of _ "HandOfPlayer t"]) simp
next
  case (Cons p ks)
  let ?d = "DrawDeck t"
  let ?t = "t\<lparr>HandOfPlayer := (HandOfPlayer t)(p \<mapsto> take h ?d), DrawDeck := drop h ?d\<rparr>"
  have l: "h * length ks \<le> length (DrawDeck ?t)" and d: "distinct ks" using Cons.prems by simp_all
  from Cons.IH [OF l d] obtain m where m: "distributeLoop h ks ?t = Some (?t\<lparr>DrawDeck := drop (h * length ks) (DrawDeck ?t), HandOfPlayer := m\<rparr>)"
    "dom m = dom (HandOfPlayer ?t) \<union> set ks" "\<forall>q. q \<notin> set ks \<longrightarrow> m q = HandOfPlayer ?t q"
    "\<forall>q \<in> set ks. length (map_get [] m q) = h"
    "sum_list (map (\<lambda>q. mset (map_get [] m q)) ks) + mset (drop (h * length ks) (DrawDeck ?t)) = mset (DrawDeck ?t)"
    by blast
  have mp: "map_get [] m p = take h ?d" using m(3) Cons.prems(2) by (simp add: map_get_def)
  have "mset (take h ?d) + mset (drop h ?d) = mset ?d" by (metis append_take_drop_id mset_append)
  then show ?case using m mp Cons.prems
    by (intro exI [of _ m]) (auto simp: Let_def add.commute add.left_commute)
qed

lemma distributeLoop_None: "distributeLoop h ks t = None \<longleftrightarrow> length (DrawDeck t) < h * length ks"
proof (induction ks arbitrary: t)
  case (Cons p ks)
  then show ?case by (auto simp: Let_def)
qed simp

lemma range_order_players:
  assumes "wf_table t" and "range_order ks (IndexOfPlayer t)"
  shows "distinct ks" "set ks = set (PlayerNames t)" "length ks = length (PlayerNames t)" "mset ks = mset (PlayerNames t)"
proof -
  show k: "distinct ks" "set ks = set (PlayerNames t)"
    using assms by (auto simp: range_order_def wf_table_def wf_seating_def)
  then show "mset ks = mset (PlayerNames t)"
    using wf_tableD(2) [OF assms(1)] by (simp add: set_eq_iff_mset_eq_distinct)
  then show "length ks = length (PlayerNames t)" by (metis size_mset)
qed

text \<open>The colour the first turn requires, and the table after turning up the last card of its
  draw deck.\<close>

definition firstColor :: "Card \<Rightarrow> Color" where
  "firstColor c = (if IsWild c then ColorRed else Color c)"

definition turnedTable :: "Table \<Rightarrow> Table" where
  "turnedTable t =
     (let c = last (DrawDeck t); dir = (if Number c = NumberReverse then - Direction t else Direction t)
      in t\<lparr>DrawDeck := butlast (DrawDeck t), DiscardedPile := DiscardedPile t @ [c],
         Direction := dir,
         RequiredColorOfLastTurn := RequiredColorOfCurrentTurn t, RequiredColorOfCurrentTurn := firstColor c,
         PlayerOfNextTurn := seatFrom t (ShufflerName t) dir, PlayerOfLastTurn := ShufflerName t,
         RequiredNumberOfLastTurn := RequiredNumberOfCurrentTurn t, RequiredNumberOfCurrentTurn := Number c,
         IsShuffled := True\<rparr>)"

lemmas setter_defs = SetPlayerOfNextTurn_def SetRequiredColor_def SetRequiredNumber_def

lemma turnUpFirstCard_eq:
  assumes "PlayerNames t \<noteq> []" "DrawDeck t \<noteq> []"
  shows "turnUpFirstCard t = Some (turnedTable t)"
  using assms
  by (cases "Number (last (DrawDeck t)) = 11"; cases "IsWild (last (DrawDeck t))")
     (simp_all add: turnUpFirstCard_def deck_eqs setter_defs turnedTable_def firstColor_def seatFrom_def
       GetNextPlayerIndex_mod PlayerCount_def Let_def)

lemma turnUpFirstCard_None: "turnUpFirstCard t = None \<longleftrightarrow> PlayerNames t = [] \<or> DrawDeck t = []"
proof (cases "PlayerNames t = [] \<or> DrawDeck t = []")
  case True
  then show ?thesis
    by (cases "IsWild (last (DrawDeck t))")
       (auto simp: turnUpFirstCard_def deck_eqs setter_defs GetNextPlayerIndex_spec Let_def Option.bind_eq_None_conv)
qed (simp add: turnUpFirstCard_eq)

lemma ShuffleDeckAndDistribute_cases:
  assumes "wf_table t" and "range_order ks (IndexOfPlayer t)" and "0 < h" "h \<le> 12" "PlayerNames t \<noteq> []"
    and "h * PlayerCount t < Len (DrawDeck t)"
  obtains d r m where "mset d = mset (DrawDeck t)" "r = drop (nat h * length ks) d" "r \<noteq> []"
    "ShuffleDeckAndDistribute rnd ks h t = Some (turnedTable (t\<lparr>DrawDeck := r, HandOfPlayer := m\<rparr>))"
    "dom m = set (PlayerNames t)" "\<forall>p \<in> set (PlayerNames t). length (map_get [] m p) = nat h"
    "sum_list (map (\<lambda>p. mset (map_get [] m p)) (PlayerNames t)) + mset r = mset (DrawDeck t)"
proof -
  note ks = range_order_players [OF assms(1,2)]
  obtain js d where d: "ShuffleIntRange rnd 0 (Len (DrawDeck t)) = Some js"
    "swapLoop 0 js (DrawDeck t) = Some d" "mset d = mset (DrawDeck t)" by (rule shuffle_deck_perm)
  have len: "length d = length (DrawDeck t)" using d(3) by (rule mset_eq_length)
  have "int (nat h * length ks) = h * PlayerCount t" using assms(3) ks(3) by (simp add: PlayerCount_def)
  then have l: "nat h * length ks < length d" using assms(6) len unfolding Len_def by linarith
  let ?r = "drop (nat h * length ks) d"
  have "nat h * length ks \<le> length (DrawDeck (t\<lparr>DrawDeck := d\<rparr>))" using l by simp
  from distributeLoop_spec [OF this ks(1)] obtain m where m:
    "distributeLoop (nat h) ks (t\<lparr>DrawDeck := d\<rparr>) = Some (t\<lparr>DrawDeck := ?r, HandOfPlayer := m\<rparr>)"
    "dom m = dom (HandOfPlayer t) \<union> set ks" "\<forall>p \<in> set ks. length (map_get [] m p) = nat h"
    "sum_list (map (\<lambda>p. mset (map_get [] m p)) ks) + mset ?r = mset d" by auto
  have "sum_list (map (\<lambda>p. mset (map_get [] m p)) ks) = sum_list (map (\<lambda>p. mset (map_get [] m p)) (PlayerNames t))"
    using ks(4) by (metis mset_map sum_mset_sum_list)
  moreover have "?r \<noteq> []" using l by simp
  moreover from this have "ShuffleDeckAndDistribute rnd ks h t = Some (turnedTable (t\<lparr>DrawDeck := ?r, HandOfPlayer := m\<rparr>))"
    using assms(3-5) d m(1) by (simp add: ShuffleDeckAndDistribute_def turnUpFirstCard_eq)
  moreover have "dom m = set (PlayerNames t)" using m(2) ks(2) wf_tableD(3) [OF assms(1)] by simp
  ultimately show ?thesis using that [of d ?r m] d(3) m(3,4) ks(2) by simp
qed

text \<open>Turning up a card keeps the seating and moves one card from the deck to the pile.\<close>

lemma turnedTable_sel [simp]:
  "PlayerNames (turnedTable t) = PlayerNames t" "IndexOfPlayer (turnedTable t) = IndexOfPlayer t"
  "HandOfPlayer (turnedTable t) = HandOfPlayer t" "IsShuffled (turnedTable t)"
  "DrawDeck (turnedTable t) = butlast (DrawDeck t)"
  "DiscardedPile (turnedTable t) = DiscardedPile t @ [last (DrawDeck t)]"
  "PlayerOfLastTurn (turnedTable t) = ShufflerName t"
  "RequiredColorOfCurrentTurn (turnedTable t) = firstColor (last (DrawDeck t))"
  "RequiredNumberOfCurrentTurn (turnedTable t) = Number (last (DrawDeck t))"
  "PlayerOfNextTurn (turnedTable t) = seatFrom t (ShufflerName t) (Direction (turnedTable t))"
  "Direction (turnedTable t) = (if Number (last (DrawDeck t)) = NumberReverse then - Direction t else Direction t)"
  by (simp_all add: turnedTable_def Let_def)

lemma firstColor_valid: "valid_card c \<Longrightarrow> valid_color (firstColor c)"
  by (auto simp: firstColor_def valid_card_def valid_color_def)

lemma tableCards_turnedTable: "DrawDeck t \<noteq> [] \<Longrightarrow> tableCards (turnedTable t) = tableCards t"
  using mset_last_butlast [of "DrawDeck t"] by (simp add: tableCards_def)

lemma wf_game_turnedTable:
  assumes "wf_table t" "DrawDeck t \<noteq> []" "ShufflerName t \<in> set (PlayerNames t)" "\<forall>c \<in># tableCards t. valid_card c"
  shows "wf_game (turnedTable t)"
proof -
  have "last (DrawDeck t) \<in># tableCards t" using assms(2) by (simp add: tableCards_def)
  then have "valid_color (firstColor (last (DrawDeck t)))" using assms(4) firstColor_valid by blast
  moreover have "wf_table (turnedTable t)" using assms(1) by (auto simp: wf_table_def wf_seating_def)
  moreover have "seatFrom t (ShufflerName t) d \<in> set (PlayerNames t)" for d
    using wf_tableD(1) [OF assms(1)] assms(3) by (rule seats.seat_in)
  ultimately show ?thesis using assms(3,4) tableCards_turnedTable [OF assms(2)]
    unfolding wf_game_def turnedTable_sel(1,6-8,10) by simp
qed

lemma deal_ok:
  assumes "wf_table t" and "range_order ks (IndexOfPlayer t)" and "ShufflerName t \<in> set (PlayerNames t)"
    and "\<forall>p \<in> set (PlayerNames t). handOf t p = []" and "\<forall>c \<in># tableCards t. valid_card c"
    and "0 < h" "h \<le> 12" and "h * PlayerCount t < Len (DrawDeck t)"
  shows "\<exists>t'. ShuffleDeckAndDistribute rnd ks h t = Some t' \<and> wf_game t' \<and> tableCards t' = tableCards t \<and>
    (\<forall>p \<in> set (PlayerNames t). length (handOf t' p) = nat h) \<and>
    length (DiscardedPile t') = Suc (length (DiscardedPile t)) \<and>
    PlayerNames t' = PlayerNames t \<and> PlayerOfNextTurn t' = seatFrom t (ShufflerName t) (Direction t')"
proof -
  have ne: "PlayerNames t \<noteq> []" using assms(3) by auto
  obtain d r m where m: "r \<noteq> []"
    "ShuffleDeckAndDistribute rnd ks h t = Some (turnedTable (t\<lparr>DrawDeck := r, HandOfPlayer := m\<rparr>))"
    "dom m = set (PlayerNames t)" "\<forall>p \<in> set (PlayerNames t). length (map_get [] m p) = nat h"
    "sum_list (map (\<lambda>p. mset (map_get [] m p)) (PlayerNames t)) + mset r = mset (DrawDeck t)"
    by (rule ShuffleDeckAndDistribute_cases [OF assms(1,2,6,7) ne assms(8), of rnd])
  let ?t = "t\<lparr>DrawDeck := r, HandOfPlayer := m\<rparr>"
  have z: "sum_list (map (\<lambda>p. mset (handOf t p)) (PlayerNames t)) = {#}"
    using assms(4) by (rule hands_empty)
  have c: "tableCards ?t = tableCards t" using m(5) z by (simp add: tableCards_def ac_simps)
  have w: "wf_table ?t" using assms(1) m(3) by (simp add: wf_table_def wf_seating_def)
  have "wf_game (turnedTable ?t)" using m(1) assms(3,5) c by (intro wf_game_turnedTable [OF w]) simp_all
  moreover have "tableCards (turnedTable ?t) = tableCards t" using tableCards_turnedTable [of ?t] m(1) c by simp
  moreover have "seatFrom ?t p k = seatFrom t p k" for p k by (simp add: seatFrom_def PlayerCount_def)
  ultimately show ?thesis using m(2,4) by (intro exI [of _ "turnedTable ?t"]) simp
qed

lemma deal_panics:
  assumes "wf_table t" and "range_order ks (IndexOfPlayer t)"
  shows "ShuffleDeckAndDistribute rnd ks h t = None \<longleftrightarrow>
    h \<le> 0 \<or> h > 12 \<or> PlayerNames t = [] \<or> Len (DrawDeck t) \<le> h * PlayerCount t"
proof (cases "0 < h \<and> h \<le> 12")
  case True
  note ks = range_order_players [OF assms]
  obtain js d where d: "ShuffleIntRange rnd 0 (Len (DrawDeck t)) = Some js"
    "swapLoop 0 js (DrawDeck t) = Some d" "mset d = mset (DrawDeck t)" by (rule shuffle_deck_perm)
  have l: "length d = length (DrawDeck t)" using d(3) by (rule mset_eq_length)
  have h: "h * PlayerCount t = int (nat h * length ks)" using True ks(3) by (simp add: PlayerCount_def)
  have "ShuffleDeckAndDistribute rnd ks h t = distributeLoop (nat h) ks (t\<lparr>DrawDeck := d\<rparr>) \<bind> turnUpFirstCard"
    using True d by (simp add: ShuffleDeckAndDistribute_def)
  also have "\<dots> = None \<longleftrightarrow> PlayerNames t = [] \<or> length d \<le> nat h * length ks"
  proof (cases "nat h * length ks \<le> length (DrawDeck (t\<lparr>DrawDeck := d\<rparr>))")
    case True
    with distributeLoop_spec [OF this ks(1)] show ?thesis by (auto simp: turnUpFirstCard_None)
  qed (simp add: distributeLoop_None [THEN iffD2])
  also have "length d \<le> nat h * length ks \<longleftrightarrow> Len (DrawDeck t) \<le> h * PlayerCount t"
    unfolding h Len_def l by (rule of_nat_le_iff [symmetric])
  finally show ?thesis using True by auto
qed (auto simp: ShuffleDeckAndDistribute_def)

section \<open>Properties\<close>

text \<open>\<open>ShuffleIntRange\<close> returns a permutation of \<open>0, ..., stop-start-1\<close> whatever the random
  source yields (the start of the range only sets how many numbers there are), and panics exactly when
  the range is reversed.\<close>

theorem ShuffleIntRange_spec:
  "if stop < start then ShuffleIntRange rnd start stop = None
   else \<exists>xs. ShuffleIntRange rnd start stop = Some xs \<and> distinct xs \<and> set xs = {0..<stop - start}"
proof (cases "stop < start")
  case False
  then obtain xs where xs: "ShuffleIntRange rnd start stop = Some xs" "mset xs = mset (map int [0..<nat (stop - start)])"
    using ShuffleIntRange_perm [of start stop rnd] by (auto simp: not_less)
  have "distinct (map int [0..<nat (stop - start)])" by (simp add: distinct_map)
  then have "distinct xs" using mset_eq_imp_distinct_iff [OF xs(2)] by blast
  moreover have "set xs = set (map int [0..<nat (stop - start)])" using xs(2) by (rule mset_eq_setD)
  moreover from this have "set xs = {0..<stop - start}" using False by (simp add: image_int_atLeastLessThan)
  ultimately show ?thesis using xs False by auto
qed (simp add: ShuffleIntRange_def)

text \<open>C25. The deal panics exactly when the hand size is not 1..12, nobody is seated, or the deck
  does not hold a hand for everybody and one more card to turn up.\<close>

theorem ShuffleDeckAndDistribute_panics:
  assumes "wf_table t" and "range_order ks (IndexOfPlayer t)"
  shows "ShuffleDeckAndDistribute rnd ks h t = None \<longleftrightarrow>
    h \<le> 0 \<or> h > 12 \<or> PlayerNames t = [] \<or> Len (DrawDeck t) \<le> h * PlayerCount t"
  using assms by (rule deal_panics)

theorem ShuffleDeckAndDistribute_panics_witness:
  "wf_table demoTable \<and> range_order [''bob'', ''al'', ''cy''] (IndexOfPlayer demoTable) \<and>
   ShuffleDeckAndDistribute (\<lambda>e. e - 1) [''bob'', ''al'', ''cy''] 2 demoTable = None \<and>
   ShuffleDeckAndDistribute (\<lambda>e. e - 1) [''bob'', ''al'', ''cy''] 1 demoTable \<noteq> None"
proof -
  have r: "range_order [''bob'', ''al'', ''cy''] (IndexOfPlayer demoTable)" by (auto simp: range_order_def)
  show ?thesis
    using r ShuffleDeckAndDistribute_panics [OF wf_demoTable r, of "\<lambda>e. e - 1" 2]
      ShuffleDeckAndDistribute_panics [OF wf_demoTable r, of "\<lambda>e. e - 1" 1]
    by (simp add: Len_def PlayerCount_def)
qed

text \<open>C24. A deal from an unplayed table (empty hands, a seated shuffler, valid cards, enough of them)
  succeeds whatever the random source and the order of the players: every player holds exactly the hand
  size, one card lies on the pile, no card is lost or duplicated, the player after the shuffler in the
  direction of play begins, and the table is one on which a game can be played.\<close>

theorem ShuffleDeckAndDistribute_deals:
  assumes "wf_table t" and "range_order ks (IndexOfPlayer t)" and "ShufflerName t \<in> set (PlayerNames t)"
    and "\<forall>p \<in> set (PlayerNames t). handOf t p = []" and "\<forall>c \<in># tableCards t. valid_card c"
    and "0 < h" "h \<le> 12" and "h * PlayerCount t < Len (DrawDeck t)"
  shows "\<exists>t'. ShuffleDeckAndDistribute rnd ks h t = Some t' \<and> wf_game t' \<and> tableCards t' = tableCards t \<and>
    (\<forall>p \<in> set (PlayerNames t). length (handOf t' p) = nat h) \<and>
    length (DiscardedPile t') = Suc (length (DiscardedPile t)) \<and>
    PlayerNames t' = PlayerNames t \<and> PlayerOfNextTurn t' = seatFrom t (ShufflerName t) (Direction t')"
  using deal_ok [OF assms] .

theorem ShuffleDeckAndDistribute_deals_witness:
  "let t = demoTable\<lparr>HandOfPlayer := [''al'' \<mapsto> [], ''bob'' \<mapsto> [], ''cy'' \<mapsto> []], ShufflerName := ''cy''\<rparr> in
   range_order [''bob'', ''al'', ''cy''] (IndexOfPlayer t) \<and>
   (\<exists>t'. ShuffleDeckAndDistribute (\<lambda>e. e - 1) [''bob'', ''al'', ''cy''] 1 t = Some t' \<and> wf_game t' \<and>
      length (handOf t' ''bob'') = 1)"
proof -
  let ?t = "demoTable\<lparr>HandOfPlayer := [''al'' \<mapsto> [], ''bob'' \<mapsto> [], ''cy'' \<mapsto> []], ShufflerName := ''cy''\<rparr>"
  have w: "wf_table ?t" using wf_demoTable by (auto simp: wf_table_def wf_seating_def simp del: wf_demoTable)
  have r: "range_order [''bob'', ''al'', ''cy''] (IndexOfPlayer ?t)" by (auto simp: range_order_def)
  have h: "ShufflerName ?t \<in> set (PlayerNames ?t)" "\<forall>p \<in> set (PlayerNames ?t). handOf ?t p = []"
    "\<forall>c \<in># tableCards ?t. valid_card c" "1 * PlayerCount ?t < Len (DrawDeck ?t)"
    by (auto simp: map_get_def tableCards_def valid_card_def valid_color_def Len_def PlayerCount_def)
  from ShuffleDeckAndDistribute_deals [OF w r h(1-3) _ _ h(4), of "\<lambda>e. e - 1"] r
  show ?thesis unfolding Let_def by fastforce
qed

end
