(* ===== verification/Eval.thy ===== *)
theory Eval
  imports Shuffle
begin

text \<open>
  Evaluation of player decisions (\<open>uknow.go\<close>, \<open>EvalPlayerDecision\<close> and what it calls): the rules
  of the game.  State is the event channel (the events sent so far) and the table, both passed
  explicitly; a panic is \<open>None\<close> of the result, a Go error a value beside the state it leaves.  The
  branches of the \<open>switch\<close> of \<open>EvalPlayerDecision\<close> and of \<open>evalPlayedActionCard\<close> are definitions
  of their own.  \<open>srt\<close> is the swap sequence of \<open>sort.Sort\<close> on hands.  Log calls are left out.
\<close>

section \<open>Data\<close>

text \<open>The decision kind is a Go \<open>int\<close> that may hold, decoded from JSON, a value without a name;
  the last constructor stands for those.\<close>

datatype PlayerDecisionKind =
    PlayerDecisionPullFromDeck
  | PlayerDecisionPlayHandCard
  | PlayerDecisionPass
  | PlayerDecisionWildCardChooseColor
  | PlayerDecisionDoChallenge
  | PlayerDecisionDontChallenge
  | PlayerDecisionOther int

record PlayerDecision =
  Kind :: PlayerDecisionKind
  ResultCard :: Card
  WildCardChosenColor :: Color

datatype EvalReason =
    ErrCardNotInHand
  | ErrAlreadyDrewCard
  | ErrPassWithoutDrawOrDrop
  | ErrDrawDeckIsEmpty
  | ErrUnknownPlayer string
  | ErrInvalidDecision
  | ErrUnexpectedDecision
  | IllegalPlayError Card Color Number

text \<open>A reason is returned wrapped with its decision, except the empty deck of a challenge,
  which is returned as it is.\<close>

datatype EvalError =
    EvalDecisionError PlayerDecision EvalReason
  | BareReason EvalReason

definition IsWildDraw4 :: "PlayerDecision \<Rightarrow> bool" where
  "IsWildDraw4 e \<longleftrightarrow> Number (ResultCard e) = NumberWildDrawFour"

fun PlayerDecisionKindString :: "PlayerDecisionKind \<Rightarrow> string" where
  "PlayerDecisionKindString PlayerDecisionPullFromDeck = ''PlayerDecisionPullFromDeck''"
| "PlayerDecisionKindString PlayerDecisionPlayHandCard = ''PlayerDecisionPlayHandCard''"
| "PlayerDecisionKindString PlayerDecisionPass = ''PlayerDecisionPass''"
| "PlayerDecisionKindString PlayerDecisionWildCardChooseColor = ''PlayerDecisionWildCardChooseColor''"
| "PlayerDecisionKindString PlayerDecisionDoChallenge = ''PlayerDecisionDoChallenge''"
| "PlayerDecisionKindString PlayerDecisionDontChallenge = ''PlayerDecisionDontChallenge''"
| "PlayerDecisionKindString (PlayerDecisionOther i) = ''PlayerDecisionKind('' @ show_int i @ '')''"

definition PlayerDecisionString :: "PlayerDecision \<Rightarrow> string" where
  "PlayerDecisionString e =
     (let resultCard = (if Kind e = PlayerDecisionPlayHandCard then '': '' @ CardString (ResultCard e) else [])
      in PlayerDecisionKindString (Kind e) @ resultCard)"

fun ReasonString :: "EvalReason \<Rightarrow> string" where
  "ReasonString ErrCardNotInHand = ''card not in hand''"
| "ReasonString ErrAlreadyDrewCard = ''already drew card this turn''"
| "ReasonString ErrPassWithoutDrawOrDrop = ''cannot pass without drawing a card or playing a card from hand''"
| "ReasonString ErrDrawDeckIsEmpty = ''draw-deck is empty''"
| "ReasonString (ErrUnknownPlayer p) = ''unknown player: '' @ p"
| "ReasonString ErrInvalidDecision = ''invalid decision''"
| "ReasonString ErrUnexpectedDecision = ''unexpected decision''"
| "ReasonString (IllegalPlayError c expectedColor expectedNumber) =
     ''Illegal play of card '' @ CardString c @ '', expected color: '' @ ColorString expectedColor
     @ '', or expected number: '' @ NumberString expectedNumber"

fun ErrorString :: "EvalError \<Rightarrow> string" where
  "ErrorString (EvalDecisionError d r) = ReasonString r @ '': '' @ PlayerDecisionString d"
| "ErrorString (BareReason r) = ReasonString r"

section \<open>Pieces of the evaluation\<close>

definition NeedMoreUserDecisionToFinishTurn :: "Table \<Rightarrow> bool" where
  "NeedMoreUserDecisionToFinishTurn t \<longleftrightarrow>
     TableState t = AwaitingWildCardColorDecision \<or>
     TableState t = AwaitingWildDraw4CardColorDecision \<or>
     TableState t = AwaitingDropOrPass"

definition fromLocal :: "string \<Rightarrow> Table \<Rightarrow> bool" where
  "fromLocal decidingPlayer t \<longleftrightarrow> decidingPlayer = LocalPlayerName t"

definition setNeighborAsNextPlayer :: "string \<Rightarrow> TableState \<Rightarrow> Table \<Rightarrow> Table option" where
  "setNeighborAsNextPlayer currentPlayer nextState t = do {
     playerIndex \<leftarrow> PlayerIndexFromName t currentPlayer;
     nextPlayerIndex \<leftarrow> GetNextPlayerIndex t playerIndex (Direction t);
     name \<leftarrow> go_index (PlayerNames t) nextPlayerIndex;
     let t = SetPlayerOfNextTurn name t;
     Some (t\<lparr>TableState := nextState\<rparr>)
   }"

definition pullCardFromDeckToPlayerHand ::
  "Card swaps \<Rightarrow> string \<Rightarrow> bool \<Rightarrow> EventChan \<Rightarrow> Table \<Rightarrow> ((Card \<times> EvalReason option) \<times> EventChan \<times> Table) option" where
  "pullCardFromDeckToPlayerHand srt targetPlayer eventIsFromLocalClient ch t =
     (case Top (DrawDeck t) of
        (topCard, Some err) \<Rightarrow> Some ((topCard, Some ErrDrawDeckIsEmpty), ch, t)
      | (topCard, None) \<Rightarrow> do {
          let t = t\<lparr>HandOfPlayer := (HandOfPlayer t)(targetPlayer \<mapsto> Push (handOf t targetPlayer) [topCard])\<rparr>;
          let t = t\<lparr>HandOfPlayer := (HandOfPlayer t)(targetPlayer \<mapsto> goSort srt (handOf t targetPlayer))\<rparr>;
          d \<leftarrow> MustPop (DrawDeck t);
          let t = t\<lparr>DrawDeck := d\<rparr>;
          let ch = ch @ [CardTransferEvent CardTransferNodeDeck CardTransferNodePlayerHand
                           [] targetPlayer topCard eventIsFromLocalClient];
          Some ((topCard, None), ch, t)
        })"

text \<open>The loops \<open>for i := 0; i < n; i++\<close> around the call above, which stop at the first error.\<close>

fun pullCards ::
  "nat \<Rightarrow> Card swaps \<Rightarrow> string \<Rightarrow> bool \<Rightarrow> EventChan \<Rightarrow> Table \<Rightarrow> (EvalReason option \<times> EventChan \<times> Table) option" where
  "pullCards 0 srt p l ch t = Some (None, ch, t)"
| "pullCards (Suc n) srt p l ch t =
     (case pullCardFromDeckToPlayerHand srt p l ch t of
        None \<Rightarrow> None
      | Some ((_, Some err), ch, t) \<Rightarrow> Some (Some err, ch, t)
      | Some ((_, None), ch, t) \<Rightarrow> pullCards n srt p l ch t)"

definition setNextPlayerSkipOne :: "string \<Rightarrow> Table \<Rightarrow> ((string \<times> string) \<times> Table) option" where
  "setNextPlayerSkipOne decidingPlayer t = do {
     let curPlayerIndex = indexOf t decidingPlayer;
     skippedPlayerIndex \<leftarrow> GetNextPlayerIndex t curPlayerIndex (Direction t);
     skippedPlayer \<leftarrow> go_index (PlayerNames t) skippedPlayerIndex;
     nextPlayerIndex \<leftarrow> GetNextPlayerIndex t skippedPlayerIndex (Direction t);
     nextPlayer \<leftarrow> go_index (PlayerNames t) nextPlayerIndex;
     Some ((skippedPlayer, nextPlayer), SetPlayerOfNextTurn nextPlayer t)
   }"

text \<open>\<open>SetRequiredColor\<close> on a channel that is not nil.\<close>

definition sendRequiredColor :: "Color \<Rightarrow> EventChan \<Rightarrow> Table \<Rightarrow> EventChan \<times> Table" where
  "sendRequiredColor c ch t =
     (case SetRequiredColor c (Some ch) t of
        (Some ch, t) \<Rightarrow> (ch, t)
      | (None, t) \<Rightarrow> (ch, t))"

section \<open>Action cards\<close>

definition evalSkip :: "string \<Rightarrow> Card \<Rightarrow> EventChan \<Rightarrow> Table \<Rightarrow> (EventChan \<times> Table) option" where
  "evalSkip decidingPlayer actionCard ch t = do {
     ((skippedPlayer, nextPlayer), t) \<leftarrow> setNextPlayerSkipOne decidingPlayer t;
     let t = t\<lparr>TableState := StartOfTurn\<rparr>;
     let (ch, t) = sendRequiredColor (Color actionCard) ch t;
     let t = SetRequiredNumber (Number actionCard) t;
     Some (ch @ [SkipCardActionEvent decidingPlayer skippedPlayer nextPlayer (fromLocal decidingPlayer t)], t)
   }"

definition evalDrawTwo :: "Card swaps \<Rightarrow> string \<Rightarrow> Card \<Rightarrow> EventChan \<Rightarrow> Table \<Rightarrow> (EventChan \<times> Table) option" where
  "evalDrawTwo srt decidingPlayer actionCard ch t = do {
     ((skippedPlayer, nextPlayer), t) \<leftarrow> setNextPlayerSkipOne decidingPlayer t;
     let t = t\<lparr>TableState := StartOfTurn\<rparr>;
     let (ch, t) = sendRequiredColor (Color actionCard) ch t;
     let t = SetRequiredNumber (Number actionCard) t;
     let ch = ch @ [DrawTwoCardActionEvent decidingPlayer skippedPlayer nextPlayer (fromLocal decidingPlayer t)];
     (_, ch, t) \<leftarrow> pullCards 2 srt skippedPlayer (fromLocal decidingPlayer t) ch t;
     Some (ch, t)
   }"

definition evalReverse :: "string \<Rightarrow> Card \<Rightarrow> EventChan \<Rightarrow> Table \<Rightarrow> (EventChan \<times> Table) option" where
  "evalReverse decidingPlayer actionCard ch t = do {
     let curPlayerIndex = indexOf t decidingPlayer;
     deniedPlayerIndex \<leftarrow> GetNextPlayerIndex t curPlayerIndex (Direction t);
     let t = t\<lparr>Direction := - 1 * Direction t\<rparr>;
     nextPlayerIndex \<leftarrow> GetNextPlayerIndex t curPlayerIndex (Direction t);
     name \<leftarrow> go_index (PlayerNames t) nextPlayerIndex;
     let t = SetPlayerOfNextTurn name t;
     deniedPlayer \<leftarrow> go_index (PlayerNames t) deniedPlayerIndex;
     let t = t\<lparr>TableState := StartOfTurn\<rparr>;
     let (ch, t) = sendRequiredColor (Color actionCard) ch t;
     let t = SetRequiredNumber (Number actionCard) t;
     Some (ch @ [ReverseCardActionEvent decidingPlayer deniedPlayer (PlayerOfNextTurn t) (fromLocal decidingPlayer t)], t)
   }"

definition evalWild :: "string \<Rightarrow> EventChan \<Rightarrow> Table \<Rightarrow> EventChan \<times> Table" where
  "evalWild decidingPlayer ch t =
     (let t = t\<lparr>TableState := AwaitingWildCardColorDecision\<rparr>;
          t = SetRequiredNumber NumberWild t
      in (ch @ [AwaitingWildCardColorDecisionEvent decidingPlayer False
                  (fromLocal decidingPlayer t) (fromLocal decidingPlayer t)], t))"

definition evalWildDrawFour :: "string \<Rightarrow> EventChan \<Rightarrow> Table \<Rightarrow> EventChan \<times> Table" where
  "evalWildDrawFour decidingPlayer ch t =
     (let t = t\<lparr>TableState := AwaitingWildDraw4CardColorDecision\<rparr>;
          t = t\<lparr>RequiredNumberBeforeWild4 := RequiredNumberOfCurrentTurn t\<rparr>;
          t = SetRequiredNumber NumberWildDrawFour t
      in (ch @ [AwaitingWildCardColorDecisionEvent decidingPlayer True
                  (fromLocal decidingPlayer t) (fromLocal decidingPlayer t)], t))"

definition evalPlayedActionCard :: "Card swaps \<Rightarrow> string \<Rightarrow> Card \<Rightarrow> EventChan \<Rightarrow> Table \<Rightarrow> (EventChan \<times> Table) option" where
  "evalPlayedActionCard srt decidingPlayer actionCard ch t =
     (if Number actionCard = NumberSkip then evalSkip decidingPlayer actionCard ch t
      else if Number actionCard = NumberDrawTwo then evalDrawTwo srt decidingPlayer actionCard ch t
      else if Number actionCard = NumberReverse then evalReverse decidingPlayer actionCard ch t
      else if Number actionCard = NumberWild then Some (evalWild decidingPlayer ch t)
      else if Number actionCard = NumberWildDrawFour then Some (evalWildDrawFour decidingPlayer ch t)
      else None)"

section \<open>Playing a card\<close>

text \<open>The rule of the game: what may be played on the current turn.\<close>

definition legalPlay :: "Table \<Rightarrow> Card \<Rightarrow> bool" where
  "legalPlay t cardToPlay \<longleftrightarrow>
     (Number cardToPlay = RequiredNumberOfCurrentTurn t \<or> IsWild cardToPlay) \<or>
     RequiredColorOfCurrentTurn t = Color cardToPlay"

definition evalPlayedNumberCard :: "string \<Rightarrow> Card \<Rightarrow> EventChan \<Rightarrow> Table \<Rightarrow> (EventChan \<times> Table) option" where
  "evalPlayedNumberCard decidingPlayer cardToPlay ch t = do {
     t \<leftarrow> setNeighborAsNextPlayer decidingPlayer StartOfTurn t;
     let t = t\<lparr>TableState := StartOfTurn\<rparr>;
     let (ch, t) = sendRequiredColor (Color cardToPlay) ch t;
     Some (ch, SetRequiredNumber (Number cardToPlay) t)
   }"

text \<open>The second half of \<open>tryPlayCard\<close>, from the comment \<open>Can play card\<close> on.\<close>

definition moveCardToPile :: "string \<Rightarrow> Card \<Rightarrow> EventChan \<Rightarrow> Table \<Rightarrow> (EventChan \<times> Table) option" where
  "moveCardToPile decidingPlayer cardToPlay ch t = do {
     let hand = handOf t decidingPlayer;
     cardLoc \<leftarrow> MustFindCard hand cardToPlay;
     let hand = take (nat cardLoc) hand @ drop (nat (cardLoc + 1)) hand;
     let t = t\<lparr>HandOfPlayer := (HandOfPlayer t)(decidingPlayer \<mapsto> hand)\<rparr>;
     let t = t\<lparr>DiscardedPile := Push (DiscardedPile t) [cardToPlay]\<rparr>;
     let ch = ch @ [CardTransferEvent CardTransferNodePlayerHand CardTransferNodePile
                      decidingPlayer [] cardToPlay (fromLocal decidingPlayer t)];
     let t = (if Len (handOf t decidingPlayer) = 0 then t\<lparr>WinnerPlayerName := decidingPlayer\<rparr> else t);
     Some (ch, t)
   }"

definition playLegalCard :: "Card swaps \<Rightarrow> string \<Rightarrow> Card \<Rightarrow> EventChan \<Rightarrow> Table \<Rightarrow> (EventChan \<times> Table) option" where
  "playLegalCard srt decidingPlayer cardToPlay ch t = do {
     (ch, t) \<leftarrow> moveCardToPile decidingPlayer cardToPlay ch t;
     (ch, t) \<leftarrow> (if IsAction (Number cardToPlay)
        then evalPlayedActionCard srt decidingPlayer cardToPlay ch t
        else evalPlayedNumberCard decidingPlayer cardToPlay ch t);
     if \<not> NeedMoreUserDecisionToFinishTurn t
     then Some (ch @ [PlayerPassedTurnEvent decidingPlayer (PlayerOfNextTurn t) (fromLocal decidingPlayer t)], t)
     else Some (ch, t)
   }"

definition tryPlayCard ::
  "Card swaps \<Rightarrow> string \<Rightarrow> Card \<Rightarrow> EventChan \<Rightarrow> Table \<Rightarrow> ((PlayerDecision \<times> EvalError option) \<times> EventChan \<times> Table) option" where
  "tryPlayCard srt decidingPlayer cardToPlay ch t =
     (let decision = \<lparr>Kind = PlayerDecisionPlayHandCard, ResultCard = cardToPlay, WildCardChosenColor = 0\<rparr> in
      case HandOfPlayer t decidingPlayer of
        None \<Rightarrow> Some ((decision, Some (EvalDecisionError decision (ErrUnknownPlayer decidingPlayer))), ch, t)
      | Some playerHand \<Rightarrow>
          (if snd (FindCard playerHand cardToPlay) \<noteq> None
           then Some ((decision, Some (EvalDecisionError decision ErrCardNotInHand)), ch, t)
           else case Top (DiscardedPile t) of
             (topOfPile, Some err) \<Rightarrow> None
           | (topOfPile, None) \<Rightarrow>
               (if \<not> legalPlay t cardToPlay
                then Some ((decision, Some (EvalDecisionError decision
                       (IllegalPlayError cardToPlay (RequiredColorOfCurrentTurn t) (Number topOfPile)))), ch, t)
                else do {
                  (ch, t) \<leftarrow> playLegalCard srt decidingPlayer cardToPlay ch t;
                  Some ((decision, None), ch, t)
                })))"

definition checkIfPlayerHasWon :: "string \<Rightarrow> Card \<Rightarrow> EventChan \<Rightarrow> Table \<Rightarrow> bool \<times> EventChan \<times> Table" where
  "checkIfPlayerHasWon decidingPlayer lastCardDropped ch t =
     (let hand = handOf t decidingPlayer in
      if Len hand = 0
      then (True, ch @ [PlayerHasWonEvent decidingPlayer (fromLocal decidingPlayer t)],
            t\<lparr>WinnerPlayerName := decidingPlayer\<rparr>)
      else (False, ch, t))"

section \<open>Decisions\<close>

type_synonym EvalResult = "((PlayerDecision \<times> EvalError option) \<times> EventChan \<times> Table) option"

definition evalPullFromDeck :: "Card swaps \<Rightarrow> string \<Rightarrow> PlayerDecision \<Rightarrow> EventChan \<Rightarrow> Table \<Rightarrow> EvalResult" where
  "evalPullFromDeck srt decidingPlayer decision ch t =
     (if TableState t \<noteq> StartOfTurn
      then Some ((decision, Some (EvalDecisionError decision ErrAlreadyDrewCard)), ch, t)
      else case pullCardFromDeckToPlayerHand srt decidingPlayer (fromLocal decidingPlayer t) ch t of
        None \<Rightarrow> None
      | Some ((topCard, Some err), ch, t) \<Rightarrow> Some ((decision, Some (EvalDecisionError decision err)), ch, t)
      | Some ((topCard, None), ch, t) \<Rightarrow>
          (let decision = decision\<lparr>ResultCard := topCard\<rparr>;
               t = t\<lparr>TableState := AwaitingDropOrPass\<rparr>;
               ch = ch @ [AwaitingPlayOrPassEvent decidingPlayer (fromLocal decidingPlayer t) False]
           in Some ((decision, None), ch, t)))"

definition evalPass :: "string \<Rightarrow> PlayerDecision \<Rightarrow> EventChan \<Rightarrow> Table \<Rightarrow> EvalResult" where
  "evalPass decidingPlayer decision ch t =
     (if TableState t \<noteq> AwaitingDropOrPass
      then Some ((decision, Some (EvalDecisionError decision ErrPassWithoutDrawOrDrop)), ch, t)
      else do {
        t \<leftarrow> setNeighborAsNextPlayer decidingPlayer StartOfTurn t;
        let ch = ch @ [PlayerPassedTurnEvent decidingPlayer (PlayerOfNextTurn t) (fromLocal decidingPlayer t)];
        Some ((decision, None), ch, t)
      })"

definition evalPlayHandCard :: "Card swaps \<Rightarrow> string \<Rightarrow> PlayerDecision \<Rightarrow> EventChan \<Rightarrow> Table \<Rightarrow> EvalResult" where
  "evalPlayHandCard srt decidingPlayer decision ch t =
     (if TableState t \<noteq> StartOfTurn \<and> TableState t \<noteq> AwaitingDropOrPass
      then Some ((decision, Some (EvalDecisionError decision ErrInvalidDecision)), ch, t)
      else case tryPlayCard srt decidingPlayer (ResultCard decision) ch t of
        None \<Rightarrow> None
      | Some ((played, Some err), ch, t) \<Rightarrow> Some ((played, Some err), ch, t)
      | Some ((played, None), ch, t) \<Rightarrow>
          (case checkIfPlayerHasWon decidingPlayer (ResultCard played) ch t of
             (_, ch, t) \<Rightarrow> Some ((decision, None), ch, t)))"

definition evalChooseColor :: "string \<Rightarrow> PlayerDecision \<Rightarrow> EventChan \<Rightarrow> Table \<Rightarrow> EvalResult" where
  "evalChooseColor decidingPlayer decision ch t =
     (if TableState t \<noteq> AwaitingWildCardColorDecision \<and> TableState t \<noteq> AwaitingWildDraw4CardColorDecision
      then Some ((decision, Some (EvalDecisionError decision ErrUnexpectedDecision)), ch, t)
      else do {
        let (ch, t) = sendRequiredColor (WildCardChosenColor decision) ch t;
        t \<leftarrow> (if TableState t = AwaitingWildCardColorDecision
              then setNeighborAsNextPlayer decidingPlayer StartOfTurn (t\<lparr>TableState := StartOfTurn\<rparr>)
              else setNeighborAsNextPlayer decidingPlayer AwaitingWildDraw4ChallengeDecision
                     (t\<lparr>TableState := AwaitingWildDraw4ChallengeDecision\<rparr>));
        Some ((decision, None), ch, t)
      })"

text \<open>The cards that make a wild-draw-four illegal, searched in the hand after the play.\<close>

definition eligibleCards :: "Table \<Rightarrow> Deck" where
  "eligibleCards t =
     filter (\<lambda>c. \<not> IsWild c \<and>
        (Color c = RequiredColorOfLastTurn t \<or> Number c = RequiredNumberBeforeWild4 t))
       (handOf t (PlayerOfLastTurn t))"

text \<open>The end of both challenge branches: four cards to the loser, then the neighbour's turn.\<close>

definition drawFourAndPass :: "Card swaps \<Rightarrow> string \<Rightarrow> string \<Rightarrow> PlayerDecision \<Rightarrow> EventChan \<Rightarrow> Table \<Rightarrow> EvalResult" where
  "drawFourAndPass srt loser decidingPlayer decision ch t =
     (case pullCards 4 srt loser (fromLocal decidingPlayer t) ch t of
        None \<Rightarrow> None
      | Some (Some err, ch, t) \<Rightarrow> Some ((decision, Some (BareReason err)), ch, t)
      | Some (None, ch, t) \<Rightarrow> do {
          t \<leftarrow> setNeighborAsNextPlayer decidingPlayer StartOfTurn t;
          Some ((decision, None), ch, t)
        })"

definition evalDoChallenge :: "Card swaps \<Rightarrow> string \<Rightarrow> PlayerDecision \<Rightarrow> EventChan \<Rightarrow> Table \<Rightarrow> EvalResult" where
  "evalDoChallenge srt decidingPlayer decision ch t =
     (if TableState t \<noteq> AwaitingWildDraw4ChallengeDecision
      then Some ((decision, Some (EvalDecisionError decision ErrUnexpectedDecision)), ch, t)
      else if Len (eligibleCards t) \<noteq> 0
      then drawFourAndPass srt (PlayerOfLastTurn t) decidingPlayer decision
             (ch @ [ChallengerSuccessEvent decidingPlayer (PlayerOfLastTurn t) (eligibleCards t)
                      (fromLocal decidingPlayer t)]) t
      else drawFourAndPass srt decidingPlayer decidingPlayer decision
             (ch @ [ChallengerFailedEvent decidingPlayer (PlayerOfLastTurn t) (fromLocal decidingPlayer t)]) t)"

definition evalDontChallenge :: "Card swaps \<Rightarrow> string \<Rightarrow> PlayerDecision \<Rightarrow> EventChan \<Rightarrow> Table \<Rightarrow> EvalResult" where
  "evalDontChallenge srt decidingPlayer decision ch t =
     (if TableState t \<noteq> AwaitingWildDraw4ChallengeDecision
      then Some ((decision, Some (EvalDecisionError decision ErrUnexpectedDecision)), ch, t)
      else drawFourAndPass srt decidingPlayer decidingPlayer decision ch t)"

definition EvalPlayerDecision :: "Card swaps \<Rightarrow> string \<Rightarrow> PlayerDecision \<Rightarrow> EventChan \<Rightarrow> Table \<Rightarrow> EvalResult" where
  "EvalPlayerDecision srt decidingPlayer decision ch t =
     (case Kind decision of
        PlayerDecisionPullFromDeck \<Rightarrow> evalPullFromDeck srt decidingPlayer decision ch t
      | PlayerDecisionPass \<Rightarrow> evalPass decidingPlayer decision ch t
      | PlayerDecisionPlayHandCard \<Rightarrow> evalPlayHandCard srt decidingPlayer decision ch t
      | PlayerDecisionWildCardChooseColor \<Rightarrow> evalChooseColor decidingPlayer decision ch t
      | PlayerDecisionDoChallenge \<Rightarrow> evalDoChallenge srt decidingPlayer decision ch t
      | PlayerDecisionDontChallenge \<Rightarrow> evalDontChallenge srt decidingPlayer decision ch t
      | PlayerDecisionOther _ \<Rightarrow> Some ((decision, None), ch, t))"

fun EvalPlayerDecisions ::
  "Card swaps \<Rightarrow> string \<Rightarrow> PlayerDecision list \<Rightarrow> EventChan \<Rightarrow> Table \<Rightarrow> (EvalError option \<times> EventChan \<times> Table) option" where
  "EvalPlayerDecisions srt decidingPlayer [] ch t = Some (None, ch, t)"
| "EvalPlayerDecisions srt decidingPlayer (decision # decisions) ch t =
     (case EvalPlayerDecision srt decidingPlayer decision ch t of
        None \<Rightarrow> None
      | Some ((_, Some err), ch, t) \<Rightarrow> Some (Some err, ch, t)
      | Some ((_, None), ch, t) \<Rightarrow> EvalPlayerDecisions srt decidingPlayer decisions ch t)"

text \<open>The variant without a channel drains a private one: the events are dropped.\<close>

definition EvalPlayerDecisionsNoTransferChan ::
  "Card swaps \<Rightarrow> string \<Rightarrow> PlayerDecision list \<Rightarrow> Table \<Rightarrow> (EvalError option \<times> Table) option" where
  "EvalPlayerDecisionsNoTransferChan srt decidingPlayer decisions t = do {
     (err, _, t) \<leftarrow> EvalPlayerDecisions srt decidingPlayer decisions [] t;
     Some (err, t)
   }"

end
