(* ===== verification/Rules.thy ===== *)
theory Rules
  imports Eval
begin

text \<open>
  The rules of the game and the proof that the evaluation of decisions implements them.  \<open>Game\<close> is
  the table with hands as multisets and piles read from the top; \<open>ruleStep\<close> says what one decision
  does to it, as a total function without indices, slices, events or sorting.  \<open>stepOk\<close> collects
  what every evaluation keeps (a playable table, the cards, the seats).  The locale
  \<open>decision_machine\<close> is the contract that evaluators of decision lists and replicas of the table
  rely on; it is interpreted on \<open>EvalPlayerDecisions\<close>.
\<close>

section \<open>Closed forms\<close>

lemma setNeighbor_eq:
  assumes "wf_table t" and "p \<in> set (PlayerNames t)"
  shows "setNeighborAsNextPlayer p s t = Some (t\<lparr>PlayerOfLastTurn := PlayerOfNextTurn t,
    PlayerOfNextTurn := seatFrom t p 1, TableState := s\<rparr>)"
proof -
  have w: "wf_seating t" using assms(1) by (rule wf_tableD)
  have ne: "PlayerNames t \<noteq> []" using assms(2) by auto
  obtain i where i: "IndexOfPlayer t p = Some i" using seats.idx_lookup [OF w assms(2)] by blast
  have d: "Direction t * Direction t = 1" using assms(1) by (rule wf_tableD)
  show ?thesis using ne i
    by (simp add: setNeighborAsNextPlayer_def PlayerIndexFromName_eq [OF w] GetNextPlayerIndex_mod d mod_in_names
        SetPlayerOfNextTurn_def seatFrom_def map_get_Some)
qed

lemma pull_empty:
  "DrawDeck t = [] \<Longrightarrow> pullCardFromDeckToPlayerHand srt p l ch t = Some ((zeroCard, Some ErrDrawDeckIsEmpty), ch, t)"
  by (simp add: pullCardFromDeckToPlayerHand_def deck_eqs)

definition pulledTable :: "Card swaps \<Rightarrow> string \<Rightarrow> Table \<Rightarrow> Table" where
  "pulledTable srt p t =
     t\<lparr>HandOfPlayer := (HandOfPlayer t)(p \<mapsto> goSort srt (handOf t p @ [last (DrawDeck t)])),
       DrawDeck := butlast (DrawDeck t)\<rparr>"

lemma pull_nonempty:
  "DrawDeck t \<noteq> [] \<Longrightarrow> pullCardFromDeckToPlayerHand srt p l ch t =
     Some ((last (DrawDeck t), None),
       ch @ [CardTransferEvent CardTransferNodeDeck CardTransferNodePlayerHand [] p (last (DrawDeck t)) l],
       pulledTable srt p t)"
  by (simp add: pullCardFromDeckToPlayerHand_def deck_eqs pulledTable_def Let_def)

lemma skipOne_eq:
  assumes "wf_table t" and "p \<in> set (PlayerNames t)"
  shows "setNextPlayerSkipOne p t = Some ((seatFrom t p 1, seatFrom t p 2), SetPlayerOfNextTurn (seatFrom t p 2) t)"
proof -
  have w: "wf_seating t" using assms(1) by (rule wf_tableD)
  have ne: "PlayerNames t \<noteq> []" using assms(2) by auto
  have d: "Direction t * Direction t = 1" using assms(1) by (rule wf_tableD)
  have "((indexOf t p + 1) mod PlayerCount t + 1) mod PlayerCount t = (indexOf t p + 2) mod PlayerCount t"
    using mod_add_left_eq [of "indexOf t p + 1" "PlayerCount t" 1] by (simp only: add.assoc one_add_one)
  then show ?thesis using ne
    by (simp add: setNextPlayerSkipOne_def GetNextPlayerIndex_mod d mod_in_names seatFrom_def Let_def)
qed

lemma moveCardToPile_eq:
  assumes "c \<in> set (handOf t p)"
  shows "moveCardToPile p c ch t = Some (ch @ [CardTransferEvent CardTransferNodePlayerHand CardTransferNodePile p [] c (fromLocal p t)],
    t\<lparr>HandOfPlayer := (HandOfPlayer t)(p \<mapsto> remove1 c (handOf t p)), DiscardedPile := DiscardedPile t @ [c],
      WinnerPlayerName := (if remove1 c (handOf t p) = [] then p else WinnerPlayerName t)\<rparr>)"
proof -
  obtain j where j: "MustFindCard (handOf t p) c = Some j" using assms MustFindCard_None by blast
  then have "RemoveCard (handOf t p) j = Some (remove1 c (handOf t p))" by (rule RemoveCard_remove1)
  then have r: "take (nat j) (handOf t p) @ drop (nat (j + 1)) (handOf t p) = remove1 c (handOf t p)"
    by (simp add: RemoveCard_def split: if_splits)
  show ?thesis
    unfolding moveCardToPile_def Let_def j Option.bind.bind_lunit r by (simp add: deck_eqs fromLocal_def)
qed

section \<open>Steps that keep the game going\<close>

text \<open>What every evaluation guarantees of the table it leaves: it is again one on which the game
  can be played, with the same cards, the same seats and the same local player.\<close>

definition stepOk :: "Table \<Rightarrow> Table \<Rightarrow> bool" where
  "stepOk t t' \<longleftrightarrow> wf_game t' \<and> tableCards t' = tableCards t \<and> PlayerNames t' = PlayerNames t \<and>
     IndexOfPlayer t' = IndexOfPlayer t \<and> LocalPlayerName t' = LocalPlayerName t"

lemma stepOkD:
  assumes "stepOk t t'"
  shows "wf_game t'" "wf_table t'" "tableCards t' = tableCards t" "PlayerNames t' = PlayerNames t"
    "IndexOfPlayer t' = IndexOfPlayer t" "LocalPlayerName t' = LocalPlayerName t"
  using assms by (auto simp: stepOk_def wf_game_def)

lemma stepOk_refl [simp]: "stepOk t t \<longleftrightarrow> wf_game t"
  by (auto simp: stepOk_def)

lemma stepOk_trans [trans]: "stepOk t t' \<Longrightarrow> stepOk t' t'' \<Longrightarrow> stepOk t t''"
  by (simp add: stepOk_def)

lemma seatFrom_stepOk: "stepOk t t' \<Longrightarrow> seatFrom t' p k = seatFrom t p k"
  by (simp add: stepOk_def seatFrom_def PlayerCount_def)

text \<open>The single updates.\<close>

lemma tableCards_fields [simp]:
  "tableCards (t\<lparr>TableState := s\<rparr>) = tableCards t"
  "tableCards (t\<lparr>WinnerPlayerName := w\<rparr>) = tableCards t"
  "tableCards (t\<lparr>RequiredNumberBeforeWild4 := n\<rparr>) = tableCards t"
  "tableCards (t\<lparr>RequiredNumberOfCurrentTurn := n\<rparr>) = tableCards t"
  "tableCards (t\<lparr>RequiredNumberOfLastTurn := n\<rparr>) = tableCards t"
  "tableCards (t\<lparr>RequiredColorOfCurrentTurn := c\<rparr>) = tableCards t"
  "tableCards (t\<lparr>RequiredColorOfLastTurn := c\<rparr>) = tableCards t"
  "tableCards (t\<lparr>PlayerOfNextTurn := p\<rparr>) = tableCards t"
  "tableCards (t\<lparr>PlayerOfLastTurn := p\<rparr>) = tableCards t"
  "tableCards (t\<lparr>Direction := d\<rparr>) = tableCards t"
  by (simp_all add: tableCards_def)

lemma wf_table_fields [simp]:
  "wf_table (t\<lparr>TableState := s\<rparr>) = wf_table t"
  "wf_table (t\<lparr>WinnerPlayerName := w\<rparr>) = wf_table t"
  "wf_table (t\<lparr>RequiredNumberBeforeWild4 := n\<rparr>) = wf_table t"
  "wf_table (t\<lparr>RequiredNumberOfCurrentTurn := n\<rparr>) = wf_table t"
  "wf_table (t\<lparr>RequiredNumberOfLastTurn := n\<rparr>) = wf_table t"
  "wf_table (t\<lparr>RequiredColorOfCurrentTurn := c\<rparr>) = wf_table t"
  "wf_table (t\<lparr>RequiredColorOfLastTurn := c\<rparr>) = wf_table t"
  "wf_table (t\<lparr>PlayerOfNextTurn := p\<rparr>) = wf_table t"
  "wf_table (t\<lparr>PlayerOfLastTurn := p\<rparr>) = wf_table t"
  by (simp_all add: wf_table_def wf_seating_def)

lemma stepOk_fields [simp]:
  "stepOk t0 (t\<lparr>TableState := s\<rparr>) \<longleftrightarrow> stepOk t0 t"
  "stepOk t0 (t\<lparr>WinnerPlayerName := w\<rparr>) \<longleftrightarrow> stepOk t0 t"
  "stepOk t0 (t\<lparr>RequiredNumberBeforeWild4 := n\<rparr>) \<longleftrightarrow> stepOk t0 t"
  "stepOk t0 (t\<lparr>RequiredNumberOfCurrentTurn := n\<rparr>) \<longleftrightarrow> stepOk t0 t"
  "stepOk t0 (t\<lparr>RequiredNumberOfLastTurn := n\<rparr>) \<longleftrightarrow> stepOk t0 t"
  "stepOk t0 (t\<lparr>RequiredColorOfLastTurn := c\<rparr>) \<longleftrightarrow> stepOk t0 t"
  by (simp_all add: stepOk_def wf_game_def)

lemma stepOk_color: "stepOk t0 t \<Longrightarrow> valid_color c \<Longrightarrow> stepOk t0 (t\<lparr>RequiredColorOfCurrentTurn := c\<rparr>)"
  by (auto simp: stepOk_def wf_game_def)

lemma wf_table_direction: "wf_table t \<Longrightarrow> wf_table (t\<lparr>Direction := - Direction t\<rparr>)"
  using wf_tableD(4) [of t] by (simp add: wf_table_def wf_seating_def minus_equation_iff) linarith

lemma stepOk_direction: "stepOk t0 t \<Longrightarrow> stepOk t0 (t\<lparr>Direction := - Direction t\<rparr>)"
  using wf_table_direction [of t] by (auto simp: stepOk_def wf_game_def)

lemma stepOk_turn: "stepOk t0 t \<Longrightarrow> p \<in> set (PlayerNames t) \<Longrightarrow> q \<in> set (PlayerNames t) \<Longrightarrow>
    stepOk t0 (t\<lparr>PlayerOfLastTurn := p, PlayerOfNextTurn := q\<rparr>)"
  by (simp add: stepOk_def wf_game_def)

lemma seat_mem: "wf_game t \<Longrightarrow> p \<in> set (PlayerNames t) \<Longrightarrow> seatFrom t p k \<in> set (PlayerNames t)"
  by (rule seats.seat_in(1)) (auto dest: wf_gameD(1) wf_tableD(1))

lemma stepOk_SetRequiredNumber: "stepOk t0 t \<Longrightarrow> stepOk t0 (SetRequiredNumber n t)"
  by (simp add: SetRequiredNumber_def)

lemma sendRequiredColor_eq:
  "sendRequiredColor c ch t = (ch @ [RequiredColorUpdatedEvent c],
     t\<lparr>RequiredColorOfLastTurn := RequiredColorOfCurrentTurn t, RequiredColorOfCurrentTurn := c\<rparr>)"
  by (simp add: sendRequiredColor_def SetRequiredColor_def)

text \<open>Cards that move.\<close>

lemma stepOk_move:
  assumes "wf_game t" "p \<in> set (PlayerNames t)" "DiscardedPile t' \<noteq> []"
    and f: "t' = t\<lparr>HandOfPlayer := (HandOfPlayer t)(p \<mapsto> h), DrawDeck := d, DiscardedPile := dp\<rparr>"
    and m: "mset d + mset dp + mset h = mset (DrawDeck t) + mset (DiscardedPile t) + mset (handOf t p)"
  shows "stepOk t t'"
proof -
  have w: "wf_table t" using assms(1) by (rule wf_gameD)
  let ?s = "\<lambda>m. sum_list (map (\<lambda>q. mset (map_get [] m q)) (PlayerNames t))"
  have "?s ((HandOfPlayer t)(p \<mapsto> h)) + mset (handOf t p) = ?s (HandOfPlayer t) + mset h"
    by (rule hands_update [OF wf_tableD(2) [OF w] assms(2)])
  from mset_exchange [OF this, of "mset d + mset dp"] m
  have "mset d + mset dp + ?s ((HandOfPlayer t)(p \<mapsto> h)) = mset (DrawDeck t) + mset (DiscardedPile t) + ?s (HandOfPlayer t)" by blast
  then have "tableCards t' = tableCards t" unfolding tableCards_def f by simp
  moreover have "wf_table t'" using w assms(2) by (auto simp: f wf_table_def wf_seating_def)
  ultimately show ?thesis using assms(1,3) by (simp add: stepOk_def wf_game_def f)
qed


lemma stepOk_pulledTable:
  assumes "wf_game t" "p \<in> set (PlayerNames t)" "DrawDeck t \<noteq> []"
  shows "stepOk t (pulledTable srt p t)"
proof (rule stepOk_move [OF assms(1,2)])
  show "DiscardedPile (pulledTable srt p t) \<noteq> []" using wf_gameD(2) [OF assms(1)] by (simp add: pulledTable_def)
  show "pulledTable srt p t = t\<lparr>HandOfPlayer := (HandOfPlayer t)(p \<mapsto> goSort srt (handOf t p @ [last (DrawDeck t)])),
      DrawDeck := butlast (DrawDeck t), DiscardedPile := DiscardedPile t\<rparr>" by (simp add: pulledTable_def)
  show "mset (butlast (DrawDeck t)) + mset (DiscardedPile t) + mset (goSort srt (handOf t p @ [last (DrawDeck t)])) =
      mset (DrawDeck t) + mset (DiscardedPile t) + mset (handOf t p)"
    using mset_last_butlast [OF assms(3)] by (simp add: ac_simps)
qed

section \<open>Tables up to the order of the hands\<close>

record Game =
  gDeck :: "Card list"
  gPile :: "Card list"
  gHands :: "string \<Rightarrow> Card multiset"
  gNames :: "string list"
  gTurn :: string
  gLast :: string
  gDirection :: int
  gPhase :: TableState
  gColor :: Color
  gLastColor :: Color
  gNumber :: Number
  gLastNumber :: Number
  gBeforeWild4 :: Number
  gWinner :: string

definition absTable :: "Table \<Rightarrow> Game" where
  "absTable t =
     \<lparr>gDeck = rev (DrawDeck t), gPile = rev (DiscardedPile t), gHands = (\<lambda>p. mset (handOf t p)),
      gNames = PlayerNames t, gTurn = PlayerOfNextTurn t, gLast = PlayerOfLastTurn t, gDirection = Direction t,
      gPhase = TableState t, gColor = RequiredColorOfCurrentTurn t, gLastColor = RequiredColorOfLastTurn t,
      gNumber = RequiredNumberOfCurrentTurn t, gLastNumber = RequiredNumberOfLastTurn t,
      gBeforeWild4 = RequiredNumberBeforeWild4 t, gWinner = WinnerPlayerName t\<rparr>"

section \<open>The rules\<close>

definition seatAfter :: "string list \<Rightarrow> string \<Rightarrow> nat \<Rightarrow> string" where
  "seatAfter ns p k = hd (rotate k (dropWhile (\<lambda>q. q \<noteq> p) ns @ takeWhile (\<lambda>q. q \<noteq> p) ns))"

definition giveCards :: "nat \<Rightarrow> string \<Rightarrow> Game \<Rightarrow> Game" where
  "giveCards n p g = g\<lparr>gHands := (gHands g)(p := gHands g p + mset (take n (gDeck g))), gDeck := drop n (gDeck g)\<rparr>"

definition turnTo :: "nat \<Rightarrow> string \<Rightarrow> TableState \<Rightarrow> Game \<Rightarrow> Game" where
  "turnTo k p s g = g\<lparr>gLast := gTurn g, gTurn := seatAfter (gNames g) p k, gPhase := s\<rparr>"

definition requireColor :: "Color \<Rightarrow> Game \<Rightarrow> Game" where
  "requireColor c g = g\<lparr>gLastColor := gColor g, gColor := c\<rparr>"

definition requireNumber :: "Number \<Rightarrow> Game \<Rightarrow> Game" where
  "requireNumber n g = g\<lparr>gLastNumber := gNumber g, gNumber := n\<rparr>"

definition requireCard :: "Card \<Rightarrow> Game \<Rightarrow> Game" where
  "requireCard c g = requireNumber (Number c) (requireColor (Color c) g)"

definition layCard :: "string \<Rightarrow> Card \<Rightarrow> Game \<Rightarrow> Game" where
  "layCard p c g =
     (let h = gHands g p - {#c#}
      in g\<lparr>gHands := (gHands g)(p := h), gPile := c # gPile g, gWinner := (if h = {#} then p else gWinner g)\<rparr>)"

definition cardEffect :: "string \<Rightarrow> Card \<Rightarrow> Game \<Rightarrow> Game" where
  "cardEffect p c g =
     (if Number c = NumberSkip then requireCard c (turnTo 2 p StartOfTurn g)
      else if Number c = NumberDrawTwo
      then giveCards 2 (seatAfter (gNames g) p 1) (requireCard c (turnTo 2 p StartOfTurn g))
      else if Number c = NumberReverse
      then requireCard c (turnTo 1 p StartOfTurn (g\<lparr>gDirection := - gDirection g\<rparr>))
      else if Number c = NumberWild
      then requireNumber NumberWild (g\<lparr>gPhase := AwaitingWildCardColorDecision\<rparr>)
      else if Number c = NumberWildDrawFour
      then requireNumber NumberWildDrawFour
             (g\<lparr>gPhase := AwaitingWildDraw4CardColorDecision, gBeforeWild4 := gNumber g\<rparr>)
      else requireCard c (turnTo 1 p StartOfTurn g))"

definition mayPlay :: "Game \<Rightarrow> Card \<Rightarrow> bool" where
  "mayPlay g c \<longleftrightarrow> IsWild c \<or> Number c = gNumber g \<or> Color c = gColor g"

definition guilty :: "Game \<Rightarrow> bool" where
  "guilty g \<longleftrightarrow> (\<exists>c \<in># gHands g (gLast g). \<not> IsWild c \<and> (Color c = gLastColor g \<or> Number c = gBeforeWild4 g))"

definition drawFour :: "string \<Rightarrow> string \<Rightarrow> Game \<Rightarrow> EvalError option \<times> Game" where
  "drawFour loser p g =
     (if length (gDeck g) < 4 then (Some (BareReason ErrDrawDeckIsEmpty), giveCards 4 loser g)
      else (None, turnTo 1 p StartOfTurn (giveCards 4 loser g)))"

definition rulePlay :: "string \<Rightarrow> PlayerDecision \<Rightarrow> Game \<Rightarrow> EvalError option \<times> Game" where
  "rulePlay p d g =
     (let c = ResultCard d;
          d' = \<lparr>Kind = PlayerDecisionPlayHandCard, ResultCard = c, WildCardChosenColor = 0\<rparr>
      in if gPhase g \<noteq> StartOfTurn \<and> gPhase g \<noteq> AwaitingDropOrPass
         then (Some (EvalDecisionError d ErrInvalidDecision), g)
         else if c \<notin># gHands g p then (Some (EvalDecisionError d' ErrCardNotInHand), g)
         else if \<not> mayPlay g c
         then (Some (EvalDecisionError d' (IllegalPlayError c (gColor g) (Number (hd (gPile g))))), g)
         else (None, cardEffect p c (layCard p c g)))"

definition ruleStep :: "string \<Rightarrow> PlayerDecision \<Rightarrow> Game \<Rightarrow> EvalError option \<times> Game" where
  "ruleStep p d g =
     (case Kind d of
        PlayerDecisionPullFromDeck \<Rightarrow>
          (if gPhase g \<noteq> StartOfTurn then (Some (EvalDecisionError d ErrAlreadyDrewCard), g)
           else if gDeck g = [] then (Some (EvalDecisionError d ErrDrawDeckIsEmpty), g)
           else (None, (giveCards 1 p g)\<lparr>gPhase := AwaitingDropOrPass\<rparr>))
      | PlayerDecisionPass \<Rightarrow>
          (if gPhase g \<noteq> AwaitingDropOrPass then (Some (EvalDecisionError d ErrPassWithoutDrawOrDrop), g)
           else (None, turnTo 1 p StartOfTurn g))
      | PlayerDecisionPlayHandCard \<Rightarrow> rulePlay p d g
      | PlayerDecisionWildCardChooseColor \<Rightarrow>
          (if gPhase g = AwaitingWildCardColorDecision
           then (None, turnTo 1 p StartOfTurn (requireColor (WildCardChosenColor d) g))
           else if gPhase g = AwaitingWildDraw4CardColorDecision
           then (None, turnTo 1 p AwaitingWildDraw4ChallengeDecision (requireColor (WildCardChosenColor d) g))
           else (Some (EvalDecisionError d ErrUnexpectedDecision), g))
      | PlayerDecisionDoChallenge \<Rightarrow>
          (if gPhase g \<noteq> AwaitingWildDraw4ChallengeDecision then (Some (EvalDecisionError d ErrUnexpectedDecision), g)
           else drawFour (if guilty g then gLast g else p) p g)
      | PlayerDecisionDontChallenge \<Rightarrow>
          (if gPhase g \<noteq> AwaitingWildDraw4ChallengeDecision then (Some (EvalDecisionError d ErrUnexpectedDecision), g)
           else drawFour p p g)
      | PlayerDecisionOther _ \<Rightarrow> (None, g))"


section \<open>The code follows the rules\<close>

lemma absTable_sel [simp]:
  "gDeck (absTable t) = rev (DrawDeck t)" "gPile (absTable t) = rev (DiscardedPile t)"
  "gHands (absTable t) = (\<lambda>p. mset (handOf t p))" "gNames (absTable t) = PlayerNames t"
  "gTurn (absTable t) = PlayerOfNextTurn t" "gLast (absTable t) = PlayerOfLastTurn t"
  "gDirection (absTable t) = Direction t" "gPhase (absTable t) = TableState t"
  "gColor (absTable t) = RequiredColorOfCurrentTurn t" "gLastColor (absTable t) = RequiredColorOfLastTurn t"
  "gNumber (absTable t) = RequiredNumberOfCurrentTurn t" "gLastNumber (absTable t) = RequiredNumberOfLastTurn t"
  "gBeforeWild4 (absTable t) = RequiredNumberBeforeWild4 t" "gWinner (absTable t) = WinnerPlayerName t"
  by (simp_all add: absTable_def)

lemma absTable_upd:
  "absTable (t\<lparr>TableState := s\<rparr>) = (absTable t)\<lparr>gPhase := s\<rparr>"
  "absTable (t\<lparr>Direction := k\<rparr>) = (absTable t)\<lparr>gDirection := k\<rparr>"
  "absTable (t\<lparr>RequiredNumberBeforeWild4 := n\<rparr>) = (absTable t)\<lparr>gBeforeWild4 := n\<rparr>"
  "absTable (t\<lparr>WinnerPlayerName := p\<rparr>) = (absTable t)\<lparr>gWinner := p\<rparr>"
  "absTable (t\<lparr>DrawDeck := d\<rparr>) = (absTable t)\<lparr>gDeck := rev d\<rparr>"
  "absTable (t\<lparr>DiscardedPile := d\<rparr>) = (absTable t)\<lparr>gPile := rev d\<rparr>"
  "absTable (t\<lparr>PlayerOfLastTurn := p\<rparr>) = (absTable t)\<lparr>gLast := p\<rparr>"
  "absTable (t\<lparr>PlayerOfNextTurn := p\<rparr>) = (absTable t)\<lparr>gTurn := p\<rparr>"
  "absTable (t\<lparr>RequiredColorOfCurrentTurn := c\<rparr>) = (absTable t)\<lparr>gColor := c\<rparr>"
  "absTable (t\<lparr>RequiredColorOfLastTurn := c\<rparr>) = (absTable t)\<lparr>gLastColor := c\<rparr>"
  "absTable (t\<lparr>RequiredNumberOfCurrentTurn := n\<rparr>) = (absTable t)\<lparr>gNumber := n\<rparr>"
  "absTable (t\<lparr>RequiredNumberOfLastTurn := n\<rparr>) = (absTable t)\<lparr>gLastNumber := n\<rparr>"
  by (simp_all add: absTable_def)

lemma absTable_hand:
  "absTable (t\<lparr>HandOfPlayer := (HandOfPlayer t)(p \<mapsto> h)\<rparr>) = (absTable t)\<lparr>gHands := (\<lambda>q. mset (handOf t q))(p := mset h)\<rparr>"
  by (auto simp: absTable_def)

lemma seatAfter_eq:
  assumes "wf_table t" and "p \<in> set (PlayerNames t)"
  shows "seatAfter (PlayerNames t) p k = seatFrom t p (int k)"
proof -
  let ?ns = "PlayerNames t"
  obtain i where i: "i < length ?ns" "?ns ! i = p" "IndexOfPlayer t p = Some (int i)"
    using seats.idx_lookup [OF wf_tableD(1) [OF assms(1)] assms(2)] by blast
  have nd: "?ns ! j \<noteq> p" if "j < i" for j
    using that i wf_tableD(2) [OF assms(1)] by (auto simp: nth_eq_iff_index_eq)
  have "takeWhile (\<lambda>q. q \<noteq> p) ?ns = take i ?ns" by (rule takeWhile_eq_take_P_nth) (use i nd in auto)
  moreover from this have "dropWhile (\<lambda>q. q \<noteq> p) ?ns = drop i ?ns"
    using i(1) by (simp add: dropWhile_eq_drop)
  ultimately have "dropWhile (\<lambda>q. q \<noteq> p) ?ns @ takeWhile (\<lambda>q. q \<noteq> p) ?ns = rotate i ?ns"
    using i(1) by (simp add: rotate_drop_take)
  moreover have "?ns \<noteq> []" using i(1) by auto
  ultimately have "seatAfter ?ns p k = ?ns ! ((k + i) mod length ?ns)"
    by (simp add: seatAfter_def rotate_rotate hd_rotate_conv_nth)
  also have "(k + i) mod length ?ns = nat ((int i + int k) mod int (length ?ns))"
    by (simp add: add.commute nat_mod_as_int)
  finally show ?thesis using i(3) by (simp add: seatFrom_def PlayerCount_def map_get_Some)
qed

lemma setNeighbor_step:
  assumes "wf_game t" "p \<in> set (PlayerNames t)"
  shows "\<exists>t'. setNeighborAsNextPlayer p s t = Some t' \<and> stepOk t t' \<and> absTable t' = turnTo 1 p s (absTable t)"
proof -
  have w: "wf_table t" using assms(1) by (rule wf_gameD)
  have "stepOk t (t\<lparr>PlayerOfLastTurn := PlayerOfNextTurn t, PlayerOfNextTurn := seatFrom t p 1\<rparr>)"
    using assms by (intro stepOk_turn) (simp_all add: seat_mem wf_gameD)
  then show ?thesis unfolding setNeighbor_eq [OF w assms(2)]
    by (simp add: turnTo_def absTable_upd seatAfter_eq [OF w assms(2)])
qed

lemma absTable_pulled: "DrawDeck t \<noteq> [] \<Longrightarrow> absTable (pulledTable srt p t) = giveCards 1 p (absTable t)"
  unfolding pulledTable_def giveCards_def
  by (cases "DrawDeck t" rule: rev_cases) (simp_all add: absTable_def fun_eq_iff)

lemma giveCards_Suc: "gDeck g \<noteq> [] \<Longrightarrow> giveCards n p (giveCards (Suc 0) p g) = giveCards (Suc n) p g"
  by (cases "gDeck g") (simp_all add: giveCards_def)

lemma giveCards_empty: "gDeck g = [] \<Longrightarrow> giveCards n p g = g"
  by (simp add: giveCards_def)

lemma pullCards_step:
  assumes "wf_game t" "p \<in> set (PlayerNames t)"
  shows "\<exists>t'. pullCards n srt p l ch t = Some
      (if n \<le> length (DrawDeck t) then None else Some ErrDrawDeckIsEmpty,
       ch @ map (\<lambda>c. CardTransferEvent CardTransferNodeDeck CardTransferNodePlayerHand [] p c l) (take n (rev (DrawDeck t))), t')
    \<and> stepOk t t' \<and> absTable t' = giveCards n p (absTable t)"
  using assms
proof (induction n arbitrary: ch t)
  case 0
  have "giveCards 0 p (absTable t) = absTable t" by (simp add: giveCards_def fun_upd_idem)
  with 0 show ?case by simp
next
  case (Suc n)
  show ?case
  proof (cases "DrawDeck t = []")
    case True
    with Suc.prems(1) show ?thesis by (simp add: pull_empty giveCards_empty)
  next
    case False
    let ?t = "pulledTable srt p t"
    have ok: "stepOk t ?t" using Suc.prems False by (rule stepOk_pulledTable)
    have d: "DrawDeck ?t = butlast (DrawDeck t)" by (simp add: pulledTable_def)
    from Suc.IH [OF stepOkD(1) [OF ok], of "ch @ [CardTransferEvent CardTransferNodeDeck CardTransferNodePlayerHand [] p (last (DrawDeck t)) l]"]
      Suc.prems(2) stepOkD(4) [OF ok] obtain t' where t': "pullCards n srt p l (ch @ [CardTransferEvent CardTransferNodeDeck CardTransferNodePlayerHand [] p (last (DrawDeck t)) l]) ?t =
        Some (if n \<le> length (DrawDeck ?t) then None else Some ErrDrawDeckIsEmpty,
        (ch @ [CardTransferEvent CardTransferNodeDeck CardTransferNodePlayerHand [] p (last (DrawDeck t)) l]) @
          map (\<lambda>c. CardTransferEvent CardTransferNodeDeck CardTransferNodePlayerHand [] p c l) (take n (rev (DrawDeck ?t))), t')"
      "stepOk ?t t'" "absTable t' = giveCards n p (absTable ?t)" by auto
    have "take (Suc n) (rev (DrawDeck t)) = last (DrawDeck t) # take n (rev (butlast (DrawDeck t)))"
      using False by (cases "DrawDeck t" rule: rev_cases) simp_all
    moreover have "n \<le> length (butlast (DrawDeck t)) \<longleftrightarrow> Suc n \<le> length (DrawDeck t)" using False by (cases "DrawDeck t" rule: rev_cases) simp_all
    moreover have "absTable t' = giveCards (Suc n) p (absTable t)"
      using t'(3) False by (simp add: absTable_pulled giveCards_Suc)
    ultimately show ?thesis using t'(1) stepOk_trans [OF ok t'(2)] False d by (simp add: pull_nonempty)
  qed
qed


lemma SetRequiredNumber_step: "absTable (SetRequiredNumber n t) = requireNumber n (absTable t)"
  by (simp add: SetRequiredNumber_def requireNumber_def absTable_upd)

lemma sendRequiredColor_step:
  "sendRequiredColor c ch t = (ch', t') \<Longrightarrow> stepOk t0 t \<Longrightarrow> valid_color c \<Longrightarrow>
     stepOk t0 t' \<and> absTable t' = requireColor c (absTable t) \<and> TableState t' = TableState t"
  by (auto simp: sendRequiredColor_eq requireColor_def absTable_upd intro!: stepOk_color)

text \<open>Passing the turn and setting what the next card has to match, the common tail of a played
  card.\<close>

lemma requireCard_step:
  assumes "stepOk t0 t" "valid_color (Color c)"
  obtains ch' t' where "sendRequiredColor (Color c) ch t = (ch', t')" "stepOk t0 (SetRequiredNumber (Number c) t')"
    "absTable (SetRequiredNumber (Number c) t') = requireCard c (absTable t)"
proof -
  obtain ch' t' where t': "sendRequiredColor (Color c) ch t = (ch', t')" by fastforce
  with sendRequiredColor_step [OF t' assms] show ?thesis
    by (intro that) (auto simp: requireCard_def SetRequiredNumber_step stepOk_SetRequiredNumber)
qed

lemma evalPlayedNumberCard_step:
  assumes "wf_game t" "p \<in> set (PlayerNames t)" "valid_color (Color c)"
  shows "\<exists>ch' t'. evalPlayedNumberCard p c ch t = Some (ch', t') \<and> stepOk t t' \<and>
    absTable t' = requireCard c (turnTo 1 p StartOfTurn (absTable t))"
proof -
  obtain t1 where t1: "setNeighborAsNextPlayer p StartOfTurn t = Some t1" "stepOk t t1"
    "absTable t1 = turnTo 1 p StartOfTurn (absTable t)" using setNeighbor_step [OF assms(1,2)] by blast
  have "stepOk t (t1\<lparr>TableState := StartOfTurn\<rparr>)" using t1(2) by simp
  then obtain ch' t' where "sendRequiredColor (Color c) ch (t1\<lparr>TableState := StartOfTurn\<rparr>) = (ch', t')"
    "stepOk t (SetRequiredNumber (Number c) t')"
    "absTable (SetRequiredNumber (Number c) t') = requireCard c (absTable (t1\<lparr>TableState := StartOfTurn\<rparr>))"
    using assms(3) by (rule requireCard_step)
  with t1 show ?thesis by (simp add: evalPlayedNumberCard_def absTable_upd turnTo_def)
qed

lemma skipOne_step:
  assumes "wf_game t" "p \<in> set (PlayerNames t)"
  shows "\<exists>t'. setNextPlayerSkipOne p t = Some ((seatAfter (PlayerNames t) p 1, seatAfter (PlayerNames t) p 2), t') \<and>
    stepOk t (t'\<lparr>TableState := s\<rparr>) \<and> absTable (t'\<lparr>TableState := s\<rparr>) = turnTo 2 p s (absTable t)"
proof -
  have w: "wf_table t" using assms(1) by (rule wf_gameD)
  have "stepOk t (t\<lparr>PlayerOfLastTurn := PlayerOfNextTurn t, PlayerOfNextTurn := seatFrom t p 2\<rparr>)"
    using assms by (intro stepOk_turn) (simp_all add: seat_mem wf_gameD)
  then show ?thesis unfolding skipOne_eq [OF w assms(2)]
    by (simp add: turnTo_def absTable_upd SetPlayerOfNextTurn_def seatAfter_eq [OF w assms(2)])
qed

lemma evalSkip_step:
  assumes "wf_game t" "p \<in> set (PlayerNames t)" "valid_color (Color c)"
  shows "\<exists>ch' t'. evalSkip p c ch t = Some (ch', t') \<and> stepOk t t' \<and>
    absTable t' = requireCard c (turnTo 2 p StartOfTurn (absTable t))"
proof -
  obtain t1 where t1: "setNextPlayerSkipOne p t = Some ((seatAfter (PlayerNames t) p 1, seatAfter (PlayerNames t) p 2), t1)"
    "stepOk t (t1\<lparr>TableState := StartOfTurn\<rparr>)"
    "absTable (t1\<lparr>TableState := StartOfTurn\<rparr>) = turnTo 2 p StartOfTurn (absTable t)"
    using skipOne_step [OF assms(1,2)] by blast
  obtain ch' t' where "sendRequiredColor (Color c) ch (t1\<lparr>TableState := StartOfTurn\<rparr>) = (ch', t')"
    "stepOk t (SetRequiredNumber (Number c) t')"
    "absTable (SetRequiredNumber (Number c) t') = requireCard c (absTable (t1\<lparr>TableState := StartOfTurn\<rparr>))"
    using t1(2) assms(3) by (rule requireCard_step)
  with t1 show ?thesis by (simp add: evalSkip_def Let_def)
qed

lemma evalDrawTwo_step:
  assumes "wf_game t" "p \<in> set (PlayerNames t)" "valid_color (Color c)"
  shows "\<exists>ch' t'. evalDrawTwo srt p c ch t = Some (ch', t') \<and> stepOk t t' \<and>
    absTable t' = giveCards 2 (seatAfter (PlayerNames t) p 1) (requireCard c (turnTo 2 p StartOfTurn (absTable t)))"
proof -
  let ?q = "seatAfter (PlayerNames t) p 1"
  obtain t1 where t1: "setNextPlayerSkipOne p t = Some ((?q, seatAfter (PlayerNames t) p 2), t1)"
    "stepOk t (t1\<lparr>TableState := StartOfTurn\<rparr>)"
    "absTable (t1\<lparr>TableState := StartOfTurn\<rparr>) = turnTo 2 p StartOfTurn (absTable t)"
    using skipOne_step [OF assms(1,2)] by blast
  obtain ch' t' where t': "sendRequiredColor (Color c) ch (t1\<lparr>TableState := StartOfTurn\<rparr>) = (ch', t')"
    "stepOk t (SetRequiredNumber (Number c) t')"
    "absTable (SetRequiredNumber (Number c) t') = requireCard c (absTable (t1\<lparr>TableState := StartOfTurn\<rparr>))"
    using t1(2) assms(3) by (rule requireCard_step)
  let ?t = "SetRequiredNumber (Number c) t'"
  let ?ch = "ch' @ [DrawTwoCardActionEvent p ?q (seatAfter (PlayerNames t) p 2) (fromLocal p ?t)]"
  have "?q \<in> set (PlayerNames ?t)"
    using seat_mem [OF assms(1,2)] seatAfter_eq [OF wf_gameD(1) [OF assms(1)] assms(2)] stepOkD(4) [OF t'(2)] by simp
  from pullCards_step [OF stepOkD(1) [OF t'(2)] this, of 2 srt "fromLocal p ?t" ?ch]
  obtain t'' err ch'' where "pullCards 2 srt ?q (fromLocal p ?t) ?ch ?t = Some (err, ch'', t'')" "stepOk ?t t''"
    "absTable t'' = giveCards 2 ?q (absTable ?t)" by blast
  with t1 t' stepOk_trans [OF t'(2)] show ?thesis by (simp add: evalDrawTwo_def Let_def)
qed

lemma evalReverse_step:
  assumes "wf_game t" "p \<in> set (PlayerNames t)" "valid_color (Color c)"
  shows "\<exists>ch' t'. evalReverse p c ch t = Some (ch', t') \<and> stepOk t t' \<and>
    absTable t' = requireCard c (turnTo 1 p StartOfTurn ((absTable t)\<lparr>gDirection := - Direction t\<rparr>))"
proof -
  have w: "wf_table t" using assms(1) by (rule wf_gameD)
  have ne: "PlayerNames t \<noteq> []" using assms(2) by auto
  have d: "Direction t * Direction t = 1" using w by (rule wf_tableD)
  let ?t = "t\<lparr>Direction := - Direction t, PlayerOfLastTurn := PlayerOfNextTurn t, PlayerOfNextTurn := seatFrom t p 1,
    TableState := StartOfTurn\<rparr>"
  have "stepOk t (t\<lparr>Direction := - Direction t\<rparr>)" using assms(1) by (intro stepOk_direction) simp
  then have ok: "stepOk t ?t"
    using stepOk_turn [of t "t\<lparr>Direction := - Direction t\<rparr>" "PlayerOfNextTurn t" "seatFrom t p 1"] assms
    by (simp add: seat_mem wf_gameD)
  have a: "absTable ?t = turnTo 1 p StartOfTurn ((absTable t)\<lparr>gDirection := - Direction t\<rparr>)"
    by (simp add: turnTo_def absTable_upd seatAfter_eq [OF w assms(2)])
  obtain ch' t' where "sendRequiredColor (Color c) ch ?t = (ch', t')"
    "stepOk t (SetRequiredNumber (Number c) t')"
    "absTable (SetRequiredNumber (Number c) t') = requireCard c (absTable ?t)"
    using ok assms(3) by (rule requireCard_step)
  moreover have "evalReverse p c ch t = (case sendRequiredColor (Color c) ch ?t of (ch, t') \<Rightarrow>
     let t' = SetRequiredNumber (Number c) t' in
     Some (ch @ [ReverseCardActionEvent p (seatFrom t p 1) (PlayerOfNextTurn t') (fromLocal p t')], t'))"
    using ne d mod_in_names [of t]
    by (simp add: evalReverse_def GetNextPlayerIndex_mod SetPlayerOfNextTurn_def seatFrom_def Let_def PlayerCount_def)
  ultimately show ?thesis using a by (simp add: Let_def)
qed


lemma hand_card:
  assumes "wf_game t" "p \<in> set (PlayerNames t)" "c \<in> set (handOf t p)"
  shows "valid_card c"
proof -
  have "c \<in># tableCards t" using assms(2,3) by (auto simp: tableCards_def)
  then show ?thesis using wf_gameD(7) [OF assms(1)] by blast
qed

lemma moveCardToPile_step:
  assumes "wf_game t" "p \<in> set (PlayerNames t)" "c \<in> set (handOf t p)"
  shows "\<exists>ch' t'. moveCardToPile p c ch t = Some (ch', t') \<and> stepOk t t' \<and> absTable t' = layCard p c (absTable t)"
proof -
  let ?h = "remove1 c (handOf t p)"
  let ?t = "t\<lparr>HandOfPlayer := (HandOfPlayer t)(p \<mapsto> ?h), DrawDeck := DrawDeck t, DiscardedPile := DiscardedPile t @ [c]\<rparr>"
  have "mset (handOf t p) = mset ?h + {#c#}" using assms(3) by simp
  then have "stepOk t ?t" by (intro stepOk_move [OF assms(1,2) _ refl]) simp_all
  then have "stepOk t (?t\<lparr>WinnerPlayerName := (if ?h = [] then p else WinnerPlayerName t)\<rparr>)" by (simp only: stepOk_fields)
  moreover have "mset ?h = {#} \<longleftrightarrow> ?h = []" by (rule mset_zero_iff)
  ultimately show ?thesis unfolding moveCardToPile_eq [OF assms(3)]
    by (simp add: layCard_def absTable_def fun_eq_iff Let_def)
qed

lemma evalPlayedActionCard_step:
  assumes "wf_game t" "p \<in> set (PlayerNames t)" "valid_card c" "IsAction (Number c)"
  shows "\<exists>ch' t'. evalPlayedActionCard srt p c ch t = Some (ch', t') \<and> stepOk t t' \<and> absTable t' = cardEffect p c (absTable t)"
proof -
  have n: "10 \<le> k \<Longrightarrow> k \<le> 12 \<Longrightarrow> k = 10 \<or> k = 11 \<or> k = 12" for k :: int by linarith
  from assms(3,4) n [of "Number c"] consider (coloured) "Number c = 10 \<or> Number c = 11 \<or> Number c = 12" "valid_color (Color c)"
    | (wild) "Number c = 13" | (wild4) "Number c = 14"
    by (auto simp: valid_card_def IsAction_def IsWild_def)
  then show ?thesis
  proof cases
    case coloured
    with evalSkip_step [OF assms(1,2) coloured(2), of ch] evalReverse_step [OF assms(1,2) coloured(2), of ch]
      evalDrawTwo_step [OF assms(1,2) coloured(2), of srt ch]
    show ?thesis by (auto simp: evalPlayedActionCard_def cardEffect_def)
  next
    case wild
    with assms(1) show ?thesis
      by (simp add: evalPlayedActionCard_def cardEffect_def evalWild_def SetRequiredNumber_step absTable_upd stepOk_SetRequiredNumber Let_def)
  next
    case wild4
    with assms(1) show ?thesis
      by (simp add: evalPlayedActionCard_def cardEffect_def evalWildDrawFour_def SetRequiredNumber_step absTable_upd stepOk_SetRequiredNumber Let_def)
  qed
qed

lemma playLegalCard_step:
  assumes "wf_game t" "p \<in> set (PlayerNames t)" "c \<in> set (handOf t p)"
  shows "\<exists>ch' t'. playLegalCard srt p c ch t = Some (ch', t') \<and> stepOk t t' \<and>
    absTable t' = cardEffect p c (layCard p c (absTable t))"
proof -
  obtain ch1 t1 where t1: "moveCardToPile p c ch t = Some (ch1, t1)" "stepOk t t1" "absTable t1 = layCard p c (absTable t)"
    using moveCardToPile_step [OF assms] by blast
  have v: "valid_card c" using assms by (rule hand_card)
  have w: "wf_game t1" "p \<in> set (PlayerNames t1)" using stepOkD [OF t1(2)] assms(2) by simp_all
  obtain ch2 t2 where t2: "(if IsAction (Number c) then evalPlayedActionCard srt p c ch1 t1
      else evalPlayedNumberCard p c ch1 t1) = Some (ch2, t2)" "stepOk t1 t2" "absTable t2 = cardEffect p c (absTable t1)"
  proof (cases "IsAction (Number c)")
    case True
    with evalPlayedActionCard_step [OF w v True] that show ?thesis by auto
  next
    case False
    with v have "valid_color (Color c)" "cardEffect p c (absTable t1) = requireCard c (turnTo 1 p StartOfTurn (absTable t1))"
      by (auto simp: valid_card_def IsAction_def IsWild_def cardEffect_def)
    with False evalPlayedNumberCard_step [OF w this(1)] that show ?thesis by auto
  qed
  then show ?thesis using t1 stepOk_trans [OF t1(2)] by (simp add: playLegalCard_def)
qed

lemma winner_layCard: "gHands (layCard p c g) p = {#} \<Longrightarrow> gWinner (layCard p c g) = p"
  by (auto simp: layCard_def Let_def)

lemma cardEffect_winner: "gWinner (cardEffect p c g) = gWinner g"
  by (simp add: cardEffect_def requireCard_def requireNumber_def requireColor_def turnTo_def giveCards_def)

lemma cardEffect_hand: "gHands (cardEffect p c g) q = {#} \<Longrightarrow> gHands g q = {#}"
  by (auto simp: cardEffect_def requireCard_def requireNumber_def requireColor_def turnTo_def giveCards_def split: if_splits)

lemma evalPlayHandCard_step:
  assumes "wf_game t" "p \<in> set (PlayerNames t)"
  shows "\<exists>d' err ch' t'. evalPlayHandCard srt p d ch t = Some ((d', err), ch', t') \<and> stepOk t t' \<and>
    (err, absTable t') = rulePlay p d (absTable t)"
proof -
  let ?c = "ResultCard d"
  have "p \<in> dom (HandOfPlayer t)" using wf_tableD(3) [OF wf_gameD(1) [OF assms(1)]] assms(2) by simp
  then obtain h where h: "HandOfPlayer t p = Some h" "handOf t p = h" by (auto simp: map_get_def)
  have top: "Top (DiscardedPile t) = (last (DiscardedPile t), None)" using wf_gameD(2) [OF assms(1)] by (simp add: Top_eq)
  have hd: "hd (rev (DiscardedPile t)) = last (DiscardedPile t)" by (rule hd_rev)
  have may: "mayPlay (absTable t) ?c \<longleftrightarrow> legalPlay t ?c" by (auto simp: mayPlay_def legalPlay_def)
  show ?thesis
  proof (cases "(TableState t = StartOfTurn \<or> TableState t = AwaitingDropOrPass) \<and> ?c \<in> set h \<and> legalPlay t ?c")
    case False
    then show ?thesis using assms(1) h top hd may FindCard_error [of h ?c]
      by (auto simp: evalPlayHandCard_def tryPlayCard_def rulePlay_def Let_def split: option.split)
  next
    case True
    with h have "?c \<in> set (handOf t p)" by simp
    from playLegalCard_step [OF assms this, of srt ch] obtain ch1 t1 where t1:
      "playLegalCard srt p ?c ch t = Some (ch1, t1)" "stepOk t t1"
      "absTable t1 = cardEffect p ?c (layCard p ?c (absTable t))" by blast
    have w: "absTable (t1\<lparr>WinnerPlayerName := p\<rparr>) = absTable t1" if "handOf t1 p = []"
    proof -
      have "gHands (absTable t1) p = {#}" using that by simp
      then have "gWinner (absTable t1) = p" using winner_layCard cardEffect_winner cardEffect_hand unfolding t1(3) by metis
      then show ?thesis by (simp add: absTable_def)
    qed
    have "tryPlayCard srt p ?c ch t = Some ((\<lparr>Kind = PlayerDecisionPlayHandCard, ResultCard = ?c, WildCardChosenColor = 0\<rparr>, None), ch1, t1)"
      using True h top t1(1) FindCard_error [of h ?c] by (simp add: tryPlayCard_def)
    moreover have "rulePlay p d (absTable t) = (None, absTable t1)"
      using True h(2) may t1(3) by (simp add: rulePlay_def Let_def)
    ultimately show ?thesis using True w t1(2)
      by (cases "handOf t1 p = []") (simp_all add: evalPlayHandCard_def checkIfPlayerHasWon_def Len_def Let_def)
  qed
qed


text \<open>A decision as the client builds it: the colour chosen for a wild card is one of the four.\<close>

definition okDecision :: "PlayerDecision \<Rightarrow> bool" where
  "okDecision d \<longleftrightarrow> (Kind d = PlayerDecisionWildCardChooseColor \<longrightarrow> valid_color (WildCardChosenColor d))"

lemma evalPullFromDeck_step:
  assumes "wf_game t" "p \<in> set (PlayerNames t)"
  shows "\<exists>d' err ch' t'. evalPullFromDeck srt p d ch t = Some ((d', err), ch', t') \<and> stepOk t t' \<and>
    (err, absTable t') =
      (if TableState t \<noteq> StartOfTurn then (Some (EvalDecisionError d ErrAlreadyDrewCard), absTable t)
       else if DrawDeck t = [] then (Some (EvalDecisionError d ErrDrawDeckIsEmpty), absTable t)
       else (None, (giveCards 1 p (absTable t))\<lparr>gPhase := AwaitingDropOrPass\<rparr>))"
proof (cases "TableState t = StartOfTurn \<and> DrawDeck t \<noteq> []")
  case True
  with stepOk_pulledTable [OF assms, of srt] show ?thesis
    by (simp add: evalPullFromDeck_def pull_nonempty absTable_upd absTable_pulled Let_def)
next
  case False
  with assms(1) show ?thesis by (auto simp: evalPullFromDeck_def pull_empty)
qed

lemma evalPass_step:
  assumes "wf_game t" "p \<in> set (PlayerNames t)"
  shows "\<exists>d' err ch' t'. evalPass p d ch t = Some ((d', err), ch', t') \<and> stepOk t t' \<and>
    (err, absTable t') =
      (if TableState t \<noteq> AwaitingDropOrPass then (Some (EvalDecisionError d ErrPassWithoutDrawOrDrop), absTable t)
       else (None, turnTo 1 p StartOfTurn (absTable t)))"
  using setNeighbor_step [OF assms, of StartOfTurn] assms(1) by (auto simp: evalPass_def Let_def)

lemma evalChooseColor_step:
  assumes "wf_game t" "p \<in> set (PlayerNames t)" "valid_color (WildCardChosenColor d)"
  shows "\<exists>d' err ch' t'. evalChooseColor p d ch t = Some ((d', err), ch', t') \<and> stepOk t t' \<and>
    (err, absTable t') =
      (if TableState t = AwaitingWildCardColorDecision
       then (None, turnTo 1 p StartOfTurn (requireColor (WildCardChosenColor d) (absTable t)))
       else if TableState t = AwaitingWildDraw4CardColorDecision
       then (None, turnTo 1 p AwaitingWildDraw4ChallengeDecision (requireColor (WildCardChosenColor d) (absTable t)))
       else (Some (EvalDecisionError d ErrUnexpectedDecision), absTable t))"
proof -
  obtain ch1 t1 where c: "sendRequiredColor (WildCardChosenColor d) ch t = (ch1, t1)" by fastforce
  have t1: "stepOk t t1" "absTable t1 = requireColor (WildCardChosenColor d) (absTable t)" "TableState t1 = TableState t"
    using sendRequiredColor_step [OF c _ assms(3), of t] assms(1) by simp_all
  have n: "\<exists>t'. setNeighborAsNextPlayer p s (t1\<lparr>TableState := s\<rparr>) = Some t' \<and> stepOk t t' \<and> absTable t' = turnTo 1 p s (absTable t1)" for s
  proof -
    have ok: "stepOk t (t1\<lparr>TableState := s\<rparr>)" using t1(1) by simp
    from setNeighbor_step [OF stepOkD(1) [OF ok], of p s] obtain t' where
      "setNeighborAsNextPlayer p s (t1\<lparr>TableState := s\<rparr>) = Some t'" "stepOk (t1\<lparr>TableState := s\<rparr>) t'"
      "absTable t' = turnTo 1 p s (absTable (t1\<lparr>TableState := s\<rparr>))"
      using stepOkD(4) [OF ok] assms(2) by auto
    then show ?thesis using stepOk_trans [OF ok] by (simp add: absTable_upd turnTo_def)
  qed
  show ?thesis using n [of StartOfTurn] n [of AwaitingWildDraw4ChallengeDecision] t1 c assms(1)
    by (cases "TableState t") (auto simp: evalChooseColor_def)
qed

lemma drawFourAndPass_step:
  assumes "wf_game t" "p \<in> set (PlayerNames t)" "q \<in> set (PlayerNames t)"
  shows "\<exists>d' err ch' t'. drawFourAndPass srt q p d ch t = Some ((d', err), ch', t') \<and> stepOk t t' \<and>
    (err, absTable t') = drawFour q p (absTable t)"
proof -
  from pullCards_step [OF assms(1,3), of 4 srt "fromLocal p t" ch] obtain ch1 t1 where t1:
    "pullCards 4 srt q (fromLocal p t) ch t = Some (if 4 \<le> length (DrawDeck t) then None else Some ErrDrawDeckIsEmpty, ch1, t1)"
    "stepOk t t1" "absTable t1 = giveCards 4 q (absTable t)" by blast
  from setNeighbor_step [OF stepOkD(1) [OF t1(2)], of p StartOfTurn] obtain t2 where t2:
    "setNeighborAsNextPlayer p StartOfTurn t1 = Some t2" "stepOk t1 t2" "absTable t2 = turnTo 1 p StartOfTurn (absTable t1)"
    using stepOkD(4) [OF t1(2)] assms(2) by auto
  show ?thesis using t1 t2 stepOk_trans [OF t1(2) t2(2)]
    by (cases "4 \<le> length (DrawDeck t)") (simp_all add: drawFourAndPass_def drawFour_def)
qed

lemma guilty_abs: "guilty (absTable t) \<longleftrightarrow> eligibleCards t \<noteq> []"
  by (auto simp: guilty_def eligibleCards_def filter_empty_conv)

lemma EvalPlayerDecision_step:
  assumes "wf_game t" "p \<in> set (PlayerNames t)" "okDecision d"
  shows "\<exists>d' err ch' t'. EvalPlayerDecision srt p d ch t = Some ((d', err), ch', t') \<and> stepOk t t' \<and>
    (err, absTable t') = ruleStep p d (absTable t)"
proof (cases "Kind d")
  case PlayerDecisionPullFromDeck
  then show ?thesis using evalPullFromDeck_step [OF assms(1,2), of srt d ch]
    by (simp add: EvalPlayerDecision_def ruleStep_def split: if_splits)
next
  case PlayerDecisionPlayHandCard
  then show ?thesis using evalPlayHandCard_step [OF assms(1,2), of srt d ch]
    by (simp add: EvalPlayerDecision_def ruleStep_def)
next
  case PlayerDecisionPass
  then show ?thesis using evalPass_step [OF assms(1,2), of d ch]
    by (simp add: EvalPlayerDecision_def ruleStep_def)
next
  case PlayerDecisionWildCardChooseColor
  then show ?thesis using evalChooseColor_step [OF assms(1,2), of d ch] assms(3)
    by (simp add: EvalPlayerDecision_def ruleStep_def okDecision_def split: if_splits)
next
  case PlayerDecisionDoChallenge
  then show ?thesis
    using drawFourAndPass_step [OF assms(1,2,2), of srt d] drawFourAndPass_step [OF assms(1,2) wf_gameD(4) [OF assms(1)], of srt d] assms(1)
    by (simp add: EvalPlayerDecision_def ruleStep_def evalDoChallenge_def guilty_abs Len_def)
next
  case PlayerDecisionDontChallenge
  then show ?thesis using drawFourAndPass_step [OF assms(1,2,2), of srt d ch] assms(1)
    by (simp add: EvalPlayerDecision_def ruleStep_def evalDontChallenge_def)
next
  case (PlayerDecisionOther k)
  then show ?thesis using assms(1) by (simp add: EvalPlayerDecision_def ruleStep_def)
qed


section \<open>Machines that evaluate decisions\<close>

text \<open>The contract between the evaluation of one decision and its clients, which evaluate lists of
  decisions on several copies of the table: a step never gets stuck, keeps the invariant, the cards
  and who may decide, and acts on the abstract state as the rules say.\<close>

locale decision_machine =
  fixes step :: "'p \<Rightarrow> 'd \<Rightarrow> 's \<Rightarrow> ('e option \<times> 's) option"
    and run :: "'p \<Rightarrow> 'd list \<Rightarrow> 's \<Rightarrow> ('e option \<times> 's) option"
    and inv :: "'s \<Rightarrow> bool"
    and may :: "'s \<Rightarrow> 'p \<Rightarrow> bool"
    and ok :: "'d \<Rightarrow> bool"
    and cards :: "'s \<Rightarrow> 'c"
    and abst :: "'s \<Rightarrow> 'a"
    and rule :: "'p \<Rightarrow> 'd \<Rightarrow> 'a \<Rightarrow> 'e option \<times> 'a"
  assumes run_Nil: "run p [] s = Some (None, s)"
    and run_Cons: "run p (d # ds) s = (case step p d s of None \<Rightarrow> None
      | Some (Some e, s') \<Rightarrow> Some (Some e, s') | Some (None, s') \<Rightarrow> run p ds s')"
    and step_ok: "inv s \<Longrightarrow> may s p \<Longrightarrow> ok d \<Longrightarrow>
      \<exists>e s'. step p d s = Some (e, s') \<and> inv s' \<and> may s' = may s \<and> cards s' = cards s \<and> (e, abst s') = rule p d (abst s)"
begin

fun rules :: "'p \<Rightarrow> 'd list \<Rightarrow> 'a \<Rightarrow> 'e option \<times> 'a" where
  "rules p [] a = (None, a)"
| "rules p (d # ds) a = (case rule p d a of (Some e, a') \<Rightarrow> (Some e, a') | (None, a') \<Rightarrow> rules p ds a')"

lemma run_ok:
  "inv s \<Longrightarrow> may s p \<Longrightarrow> \<forall>d \<in> set ds. ok d \<Longrightarrow>
     \<exists>e s'. run p ds s = Some (e, s') \<and> inv s' \<and> may s' = may s \<and> cards s' = cards s \<and> (e, abst s') = rules p ds (abst s)"
proof (induction ds arbitrary: s)
  case (Cons d ds)
  then obtain e s1 where s1: "step p d s = Some (e, s1)" "inv s1" "may s1 = may s" "cards s1 = cards s"
    "(e, abst s1) = rule p d (abst s)" using step_ok [of s p d] by auto
  show ?case
  proof (cases e)
    case None
    with Cons s1 obtain e' s2 where "run p ds s1 = Some (e', s2)" "inv s2" "may s2 = may s" "cards s2 = cards s"
      "(e', abst s2) = rules p ds (abst s1)" by fastforce
    with s1 None show ?thesis by (simp add: run_Cons s1(5) [symmetric])
  qed (use s1 in \<open>simp add: run_Cons s1(5) [symmetric]\<close>)
qed (simp add: run_Nil)

text \<open>Two replicas with the same abstract state that evaluate the same decisions agree on the
  outcome and on the abstract state they reach.\<close>

lemma replicas_agree:
  assumes "inv s" "inv r" "may s p" "may r p" "\<forall>d \<in> set ds. ok d" "abst s = abst r"
  shows "\<exists>e s' r'. run p ds s = Some (e, s') \<and> run p ds r = Some (e, r') \<and> abst s' = abst r'"
proof -
  obtain e s' where s': "run p ds s = Some (e, s')" "(e, abst s') = rules p ds (abst s)" using run_ok [OF assms(1,3,5)] by blast
  obtain f r' where r': "run p ds r = Some (f, r')" "(f, abst r') = rules p ds (abst r)" using run_ok [OF assms(2,4,5)] by blast
  from s' r' assms(6) show ?thesis by (metis prod.inject)
qed

inductive reachable :: "'s \<Rightarrow> 's \<Rightarrow> bool" for s0 where
  start: "reachable s0 s0"
| decide: "reachable s0 s \<Longrightarrow> may s p \<Longrightarrow> \<forall>d \<in> set ds. ok d \<Longrightarrow> run p ds s = Some (e, s') \<Longrightarrow> reachable s0 s'"

lemma reachable_ok: "reachable s0 s \<Longrightarrow> inv s0 \<Longrightarrow> inv s \<and> may s = may s0 \<and> cards s = cards s0"
proof (induction rule: reachable.induct)
  case (decide s p ds e s')
  then show ?case using run_ok [of s p ds] by auto
qed simp

end

definition evalStep :: "Card swaps \<Rightarrow> string \<Rightarrow> PlayerDecision \<Rightarrow> EventChan \<times> Table \<Rightarrow> (EvalError option \<times> EventChan \<times> Table) option" where
  "evalStep srt p d = (\<lambda>(ch, t). map_option (\<lambda>((_, err), s). (err, s)) (EvalPlayerDecision srt p d ch t))"

interpretation tables: decision_machine "evalStep srt" "\<lambda>p ds (ch, t). EvalPlayerDecisions srt p ds ch t"
  "\<lambda>(ch, t). wf_game t" "\<lambda>(ch, t) p. p \<in> set (PlayerNames t)" okDecision "\<lambda>(ch, t). tableCards t"
  "\<lambda>(ch, t). absTable t" ruleStep for srt
proof unfold_locales
  fix s :: "EventChan \<times> Table" and p d
  obtain ch t where s: "s = (ch, t)" by fastforce
  assume "case s of (ch, t) \<Rightarrow> wf_game t" "(case s of (ch, t) \<Rightarrow> \<lambda>p. p \<in> set (PlayerNames t)) p" "okDecision d"
  with s obtain d' err ch' t' where "EvalPlayerDecision srt p d ch t = Some ((d', err), ch', t')" "stepOk t t'"
    "(err, absTable t') = ruleStep p d (absTable t)" using EvalPlayerDecision_step [of t p d srt ch] by auto
  with s show "\<exists>e s'. evalStep srt p d s = Some (e, s') \<and> (case s' of (ch, t) \<Rightarrow> wf_game t) \<and>
      (case s' of (ch, t) \<Rightarrow> \<lambda>p. p \<in> set (PlayerNames t)) = (case s of (ch, t) \<Rightarrow> \<lambda>p. p \<in> set (PlayerNames t)) \<and>
      (case s' of (ch, t) \<Rightarrow> tableCards t) = (case s of (ch, t) \<Rightarrow> tableCards t) \<and>
      (e, case s' of (ch, t) \<Rightarrow> absTable t) = ruleStep p d (case s of (ch, t) \<Rightarrow> absTable t)"
    by (simp add: evalStep_def stepOk_def)
qed (auto simp: evalStep_def split: prod.split option.split)

section \<open>Table states\<close>

lemma setNeighbor_state: "setNeighborAsNextPlayer p s t = Some t' \<Longrightarrow> TableState t' = s"
  by (auto simp: setNeighborAsNextPlayer_def option_bind_simps Let_def)

lemma pull_state:
  "pullCardFromDeckToPlayerHand srt p l ch t = Some (r, ch', t') \<Longrightarrow> TableState t' = TableState t"
  by (auto simp: pullCardFromDeckToPlayerHand_def option_bind_simps Let_def split: prod.splits option.splits)

lemma pullCards_state: "pullCards n srt p l ch t = Some (r, ch', t') \<Longrightarrow> TableState t' = TableState t"
proof (induction n arbitrary: ch t)
  case (Suc n)
  then show ?case by (auto dest: pull_state split: option.splits prod.splits)
qed simp

lemma setter_states [simp]:
  "TableState (SetRequiredNumber n t) = TableState t" "TableState (SetPlayerOfNextTurn p t) = TableState t"
  "TableState (snd (sendRequiredColor c ch t)) = TableState t"
  by (simp_all add: SetRequiredNumber_def SetPlayerOfNextTurn_def sendRequiredColor_eq)

lemma action_state:
  "evalPlayedActionCard srt p c ch t = Some (ch', t') \<Longrightarrow> TableState t' \<noteq> HaveWinner"
  by (auto simp: evalPlayedActionCard_def evalSkip_def evalDrawTwo_def evalReverse_def evalWild_def evalWildDrawFour_def
      sendRequiredColor_eq option_bind_simps Let_def dest!: pullCards_state split: if_splits)

lemma playLegalCard_state: "playLegalCard srt p c ch t = Some (ch', t') \<Longrightarrow> TableState t' \<noteq> HaveWinner"
  by (auto simp: playLegalCard_def evalPlayedNumberCard_def sendRequiredColor_eq option_bind_simps Let_def
      dest: action_state split: if_splits)

lemma drawFourAndPass_state:
  "drawFourAndPass srt q p d ch t = Some (r, ch', t') \<Longrightarrow> TableState t' = TableState t \<or> TableState t' = StartOfTurn"
  by (auto simp: drawFourAndPass_def option_bind_simps dest: pullCards_state setNeighbor_state split: option.splits)

section \<open>Properties\<close>

abbreviation (input) demoPlay :: "Card \<Rightarrow> PlayerDecision" where
  "demoPlay c \<equiv> \<lparr>Kind = PlayerDecisionPlayHandCard, ResultCard = c, WildCardChosenColor = 0\<rparr>"

abbreviation (input) demoKind :: "PlayerDecisionKind \<Rightarrow> PlayerDecision" where
  "demoKind k \<equiv> \<lparr>Kind = k, ResultCard = mkCard 0 0, WildCardChosenColor = 0\<rparr>"

text \<open>C1. Evaluating a decision of a seated player implements the rules: it never panics, and the
  error it returns and the table it leaves, read up to the order of the cards in a hand, are what
  \<open>ruleStep\<close> says, whatever the sort does and whoever the local player is.\<close>

theorem EvalPlayerDecision_refines_rules:
  assumes "wf_game t" "p \<in> set (PlayerNames t)" "okDecision d"
  shows "\<exists>d' err ch' t'. EvalPlayerDecision srt p d ch t = Some ((d', err), ch', t') \<and>
    (err, absTable t') = ruleStep p d (absTable t)"
  using EvalPlayerDecision_step [OF assms] by blast

theorem EvalPlayerDecision_refines_rules_witness:
  "wf_game demoTable \<and>
   (\<exists>d' ch' t'. EvalPlayerDecision (\<lambda>_. []) ''al'' (demoPlay (mkCard 12 1)) [] demoTable = Some ((d', None), ch', t') \<and>
      gHands (absTable t') ''bob'' = {#mkCard 9 4, mkCard 13 0, mkCard 5 1, mkCard 6 2#} \<and> PlayerOfNextTurn t' = ''cy'')"
proof -
  have h: "''al'' \<in> set (PlayerNames demoTable)" "okDecision (demoPlay (mkCard 12 1))" by (simp_all add: okDecision_def)
  from EvalPlayerDecision_refines_rules [OF wf_game_demoTable h, of "\<lambda>_. []" "[]"] obtain d' err ch' t' where
    t': "EvalPlayerDecision (\<lambda>_. []) ''al'' (demoPlay (mkCard 12 1)) [] demoTable = Some ((d', err), ch', t')"
    "(err, absTable t') = ruleStep ''al'' (demoPlay (mkCard 12 1)) (absTable demoTable)" by blast
  then have "err = None" "gHands (absTable t') ''bob'' = {#mkCard 9 4, mkCard 13 0, mkCard 5 1, mkCard 6 2#}" "gTurn (absTable t') = ''cy''"
    by (simp_all add: ruleStep_def rulePlay_def mayPlay_def IsWild_def cardEffect_def layCard_def giveCards_def requireCard_def
        requireColor_def requireNumber_def turnTo_def seatAfter_def rotate_def map_get_def Let_def numeral_2_eq_2)
  with t'(1) show ?thesis by auto
qed

text \<open>C2. Evaluation keeps the game playable: a seated player's decision, which names one of the four colours
  when it chooses one, never panics and leaves a table with agreeing seats, a non-empty pile, a seated current and last player, a required colour that
  is one of the four, and exactly the cards it had: none is lost, duplicated or invented, on success and
  on every error.\<close>

theorem EvalPlayerDecision_invariant:
  assumes "wf_game t" "p \<in> set (PlayerNames t)" "okDecision d"
  shows "\<exists>r ch' t'. EvalPlayerDecision srt p d ch t = Some (r, ch', t') \<and>
    wf_game t' \<and> tableCards t' = tableCards t \<and> PlayerNames t' = PlayerNames t"
  using EvalPlayerDecision_step [OF assms, of srt ch] stepOkD by blast

theorem EvalPlayerDecision_invariant_witness:
  "wf_game demoTable \<and>
   (\<exists>r ch' t'. EvalPlayerDecision (\<lambda>_. []) ''al'' (demoPlay (mkCard 10 1)) [] demoTable = Some (r, ch', t') \<and>
      wf_game t' \<and> tableCards t' = tableCards demoTable)"
proof -
  have h: "''al'' \<in> set (PlayerNames demoTable)" "okDecision (demoPlay (mkCard 10 1))" by (simp_all add: okDecision_def)
  show ?thesis using EvalPlayerDecision_invariant [OF wf_game_demoTable h, of "\<lambda>_. []" "[]"] wf_game_demoTable by blast
qed

text \<open>C21. Replication: an admin and a client table that agree up to the order of hands and the local
  name, and evaluate the same list of decisions of a seated player, report the same error (or none) and
  agree again afterwards, even when they sort hands differently.\<close>

theorem replicas_stay_in_step:
  assumes "wf_game s" "wf_game r" "absTable s = absTable r" "p \<in> set (PlayerNames s)" "\<forall>d \<in> set ds. okDecision d"
  shows "\<exists>e s' r'. EvalPlayerDecisionsNoTransferChan srt p ds s = Some (e, s') \<and>
    EvalPlayerDecisionsNoTransferChan srt' p ds r = Some (e, r') \<and> absTable s' = absTable r' \<and> wf_game s' \<and> wf_game r'"
proof -
  have r: "p \<in> set (PlayerNames r)" using assms(3,4) absTable_sel(4) by metis
  obtain e c1 s' where s': "EvalPlayerDecisions srt p ds [] s = Some (e, c1, s')" "wf_game s'"
      "(e, absTable s') = tables.rules p ds (absTable s)"
    using tables.run_ok [of "([], s)" p ds srt] assms by auto
  obtain f c2 r' where r': "EvalPlayerDecisions srt' p ds [] r = Some (f, c2, r')" "wf_game r'"
      "(f, absTable r') = tables.rules p ds (absTable r)"
    using tables.run_ok [of "([], r)" p ds srt'] assms r by auto
  have "f = e" "absTable r' = absTable s'" using s'(3) r'(3) assms(3) by (metis prod.inject)+
  with s' r' show ?thesis by (simp add: EvalPlayerDecisionsNoTransferChan_def)
qed

theorem replicas_stay_in_step_witness:
  "\<exists>e s' r'. EvalPlayerDecisionsNoTransferChan (\<lambda>_. []) ''al'' [demoPlay (mkCard 11 1)] demoTable = Some (e, s') \<and>
     EvalPlayerDecisionsNoTransferChan (insertionSwaps IsLessThan) ''al'' [demoPlay (mkCard 11 1)]
       (demoTable\<lparr>LocalPlayerName := ''bob''\<rparr>) = Some (e, r') \<and> absTable s' = absTable r'"
proof -
  let ?r = "demoTable\<lparr>LocalPlayerName := ''bob''\<rparr>"
  have a: "absTable demoTable = absTable ?r" by (simp add: absTable_def)
  have w: "wf_game ?r" using wf_game_demoTable unfolding wf_game_def wf_table_def wf_seating_def tableCards_def by simp
  have h: "''al'' \<in> set (PlayerNames demoTable)" "\<forall>d \<in> set [demoPlay (mkCard 11 1)]. okDecision d" by (simp_all add: okDecision_def)
  show ?thesis using replicas_stay_in_step [OF wf_game_demoTable w a h] by blast
qed


text \<open>C26. A rejected decision changes nothing: whenever the evaluation returns a wrapped error, on any
  table, the table and the event channel are exactly as before.\<close>

theorem rejected_decision_is_noop:
  "EvalPlayerDecision srt p d ch t = Some ((d', Some (EvalDecisionError e r)), ch', t') \<Longrightarrow> t' = t \<and> ch' = ch"
proof (cases "Kind d")
  case PlayerDecisionPlayHandCard
  assume "EvalPlayerDecision srt p d ch t = Some ((d', Some (EvalDecisionError e r)), ch', t')"
  with PlayerDecisionPlayHandCard show ?thesis
    by (auto simp: EvalPlayerDecision_def evalPlayHandCard_def tryPlayCard_def checkIfPlayerHasWon_def Let_def
        option_bind_simps split: option.splits prod.splits if_splits)
qed (auto simp: EvalPlayerDecision_def evalPullFromDeck_def pullCardFromDeckToPlayerHand_def evalPass_def evalChooseColor_def
       evalDoChallenge_def evalDontChallenge_def drawFourAndPass_def Let_def option_bind_simps
       split: option.splits prod.splits if_splits)

theorem rejected_decision_is_noop_witness:
  "\<exists>d' e r ch' t'. EvalPlayerDecision (\<lambda>_. []) ''al'' (demoPlay (mkCard 9 4)) [] demoTable
     = Some ((d', Some (EvalDecisionError e r)), ch', t') \<and> t' = demoTable \<and> ch' = []"
proof -
  have "EvalPlayerDecision (\<lambda>_. []) ''al'' (demoPlay (mkCard 9 4)) [] demoTable
      = Some ((demoPlay (mkCard 9 4), Some (EvalDecisionError (demoPlay (mkCard 9 4)) ErrCardNotInHand)), [], demoTable)"
    by (simp add: EvalPlayerDecision_def evalPlayHandCard_def tryPlayCard_def FindCard_def Let_def)
  with rejected_decision_is_noop [OF this] show ?thesis by blast
qed

text \<open>C28. The winner: the table state \<open>HaveWinner\<close> that the admin waits for is never entered by the
  evaluation of any decision, on any table.\<close>

theorem HaveWinner_never_set:
  "EvalPlayerDecision srt p d ch t = Some (r, ch', t') \<Longrightarrow> TableState t \<noteq> HaveWinner \<Longrightarrow> TableState t' \<noteq> HaveWinner"
proof (cases "Kind d")
  case PlayerDecisionPlayHandCard
  assume "EvalPlayerDecision srt p d ch t = Some (r, ch', t')" "TableState t \<noteq> HaveWinner"
  with PlayerDecisionPlayHandCard show ?thesis
    by (auto simp: EvalPlayerDecision_def evalPlayHandCard_def tryPlayCard_def checkIfPlayerHasWon_def Let_def
        option_bind_simps dest!: playLegalCard_state split: option.splits prod.splits if_splits)
qed (auto simp: EvalPlayerDecision_def evalPullFromDeck_def evalPass_def evalChooseColor_def
       evalDoChallenge_def evalDontChallenge_def Let_def option_bind_simps
       dest!: drawFourAndPass_state pull_state setNeighbor_state split: option.splits prod.splits if_splits)

theorem HaveWinner_never_set_witness:
  "TableState demoTable \<noteq> HaveWinner \<and>
   (\<exists>r ch' t'. EvalPlayerDecision (\<lambda>_. []) ''cy'' (demoPlay (mkCard 8 2)) [] (demoTable\<lparr>RequiredNumberOfCurrentTurn := 8\<rparr>)
      = Some (r, ch', t') \<and> handOf t' ''cy'' = [] \<and> WinnerPlayerName t' = ''cy'' \<and> TableState t' \<noteq> HaveWinner)"
proof -
  let ?t = "demoTable\<lparr>RequiredNumberOfCurrentTurn := 8\<rparr>"
  have w: "wf_game ?t" using wf_game_demoTable by (simp add: wf_game_def)
  have h: "''cy'' \<in> set (PlayerNames ?t)" "okDecision (demoPlay (mkCard 8 2))" by (simp_all add: okDecision_def)
  from EvalPlayerDecision_step [OF w h, of "\<lambda>_. []" "[]"] obtain d' err ch' t' where
    t': "EvalPlayerDecision (\<lambda>_. []) ''cy'' (demoPlay (mkCard 8 2)) [] ?t = Some ((d', err), ch', t')"
    "(err, absTable t') = ruleStep ''cy'' (demoPlay (mkCard 8 2)) (absTable ?t)" by blast
  then have "gHands (absTable t') ''cy'' = {#}" "gWinner (absTable t') = ''cy''"
    by (simp_all add: ruleStep_def rulePlay_def mayPlay_def IsWild_def cardEffect_def layCard_def requireCard_def
        requireColor_def requireNumber_def turnTo_def map_get_def Let_def)
  with HaveWinner_never_set [OF t'(1)] t'(1) show ?thesis by auto
qed

text \<open>C23. The challenge of a wild-draw-four: with at least four cards in the deck, the top four cards
  go to the player who laid it exactly when that player still holds a card, not a wild, of the colour
  or number then required, and to the challenger otherwise; every other hand and the pile stay as they
  were, and the turn moves to the challenger's neighbour.\<close>

theorem challenge_outcome:
  assumes "wf_game t" "p \<in> set (PlayerNames t)" "TableState t = AwaitingWildDraw4ChallengeDecision"
    and "4 \<le> length (DrawDeck t)" "Kind d = PlayerDecisionDoChallenge"
  shows "\<exists>d' ch' t'. EvalPlayerDecision srt p d ch t = Some ((d', None), ch', t') \<and>
    (let loser = (if \<exists>c \<in> set (handOf t (PlayerOfLastTurn t)). \<not> IsWild c \<and>
           (Color c = RequiredColorOfLastTurn t \<or> Number c = RequiredNumberBeforeWild4 t)
         then PlayerOfLastTurn t else p)
     in mset (handOf t' loser) = mset (handOf t loser) + mset (drop (length (DrawDeck t) - 4) (DrawDeck t)) \<and>
        (\<forall>q. q \<noteq> loser \<longrightarrow> mset (handOf t' q) = mset (handOf t q)) \<and>
        DrawDeck t' = take (length (DrawDeck t) - 4) (DrawDeck t) \<and> DiscardedPile t' = DiscardedPile t \<and>
        PlayerOfNextTurn t' = seatFrom t p 1 \<and> TableState t' = StartOfTurn)"
proof -
  have "okDecision d" using assms(5) by (simp add: okDecision_def)
  from EvalPlayerDecision_step [OF assms(1,2) this, of srt ch] obtain d' err ch' t' where
    e: "EvalPlayerDecision srt p d ch t = Some ((d', err), ch', t')" "(err, absTable t') = ruleStep p d (absTable t)" by blast
  define loser where "loser = (if guilty (absTable t) then PlayerOfLastTurn t else p)"
  have l: "loser = (if \<exists>c \<in> set (handOf t (PlayerOfLastTurn t)). \<not> IsWild c \<and>
           (Color c = RequiredColorOfLastTurn t \<or> Number c = RequiredNumberBeforeWild4 t)
         then PlayerOfLastTurn t else p)" unfolding loser_def guilty_def by simp
  have r: "(err, absTable t') = (None, turnTo 1 p StartOfTurn (giveCards 4 loser (absTable t)))"
    using e(2) assms(3-5) by (simp add: ruleStep_def drawFour_def loser_def)
  then have "err = None" by simp
  moreover have "gHands (absTable t') = (gHands (absTable t))(loser := gHands (absTable t) loser + mset (take 4 (gDeck (absTable t))))"
    "gDeck (absTable t') = drop 4 (gDeck (absTable t))" "gPile (absTable t') = gPile (absTable t)"
    "gTurn (absTable t') = seatAfter (PlayerNames t) p 1" "gPhase (absTable t') = StartOfTurn"
    using r by (simp_all add: turnTo_def giveCards_def)
  then have "(\<lambda>q. mset (handOf t' q)) = (\<lambda>q. mset (handOf t q))(loser := mset (handOf t loser) + mset (take 4 (rev (DrawDeck t))))"
    "DrawDeck t' = take (length (DrawDeck t) - 4) (DrawDeck t)" "DiscardedPile t' = DiscardedPile t"
    "PlayerOfNextTurn t' = seatFrom t p 1" "TableState t' = StartOfTurn"
    using seatAfter_eq [OF wf_gameD(1) [OF assms(1)] assms(2), of 1] by (simp_all add: rev_swap drop_rev)
  moreover have "mset (take 4 (rev (DrawDeck t))) = mset (drop (length (DrawDeck t) - 4) (DrawDeck t))"
    by (simp add: take_rev)
  moreover from calculation have "mset (handOf t' loser) = mset (handOf t loser) + mset (drop (length (DrawDeck t) - 4) (DrawDeck t))"
    "\<forall>q. q \<noteq> loser \<longrightarrow> mset (handOf t' q) = mset (handOf t q)"
    by (metis fun_upd_same, metis fun_upd_other)
  ultimately show ?thesis using e(1) unfolding l [symmetric] Let_def by blast
qed

theorem challenge_outcome_witness:
  "let t = demoTable\<lparr>TableState := AwaitingWildDraw4ChallengeDecision, PlayerOfLastTurn := ''al'',
     RequiredColorOfLastTurn := 1, RequiredNumberBeforeWild4 := 7\<rparr> in
   wf_game t \<and> (\<exists>d' ch' t'. EvalPlayerDecision (\<lambda>_. []) ''bob'' (demoKind PlayerDecisionDoChallenge) [] t
     = Some ((d', None), ch', t') \<and> length (DrawDeck t') = 2 \<and> PlayerOfNextTurn t' = ''cy'')"
proof -
  let ?t = "demoTable\<lparr>TableState := AwaitingWildDraw4ChallengeDecision, PlayerOfLastTurn := ''al'',
     RequiredColorOfLastTurn := 1, RequiredNumberBeforeWild4 := 7\<rparr>"
  have w: "wf_game ?t" using wf_game_demoTable by (simp add: wf_game_def)
  have h: "''bob'' \<in> set (PlayerNames ?t)" "TableState ?t = AwaitingWildDraw4ChallengeDecision" "4 \<le> length (DrawDeck ?t)"
    "Kind (demoKind PlayerDecisionDoChallenge) = PlayerDecisionDoChallenge" by simp_all
  have "seatFrom ?t ''bob'' 1 = ''cy''" by (simp add: seatFrom_def PlayerCount_def map_get_def)
  with w challenge_outcome [OF w h, of "\<lambda>_. []" "[]"] show ?thesis unfolding Let_def by fastforce
qed

text \<open>A lone challenge without enough cards fails midway: with fewer than four cards in the deck
  both answers to a wild-draw-four hand out whatever is left and then return an error, so the table has
  changed although the decision was refused.\<close>

theorem challenge_short_deck:
  assumes "wf_game t" "p \<in> set (PlayerNames t)" "TableState t = AwaitingWildDraw4ChallengeDecision"
    and "length (DrawDeck t) < 4" "Kind d = PlayerDecisionDontChallenge"
  shows "\<exists>d' ch' t'. EvalPlayerDecision srt p d ch t = Some ((d', Some (BareReason ErrDrawDeckIsEmpty)), ch', t') \<and>
    DrawDeck t' = [] \<and> mset (handOf t' p) = mset (handOf t p) + mset (DrawDeck t) \<and>
    TableState t' = AwaitingWildDraw4ChallengeDecision \<and> PlayerOfNextTurn t' = PlayerOfNextTurn t"
proof -
  have "okDecision d" using assms(5) by (simp add: okDecision_def)
  from EvalPlayerDecision_step [OF assms(1,2) this, of srt ch] obtain d' err ch' t' where
    e: "EvalPlayerDecision srt p d ch t = Some ((d', err), ch', t')" "(err, absTable t') = ruleStep p d (absTable t)" by blast
  then have r: "(err, absTable t') = (Some (BareReason ErrDrawDeckIsEmpty), giveCards 4 p (absTable t))"
    using assms(3-5) by (simp add: ruleStep_def drawFour_def)
  then have "gHands (absTable t') p = gHands (absTable t) p + mset (take 4 (gDeck (absTable t)))"
    "gDeck (absTable t') = drop 4 (gDeck (absTable t))" "gTurn (absTable t') = gTurn (absTable t)" "gPhase (absTable t') = gPhase (absTable t)"
    by (simp_all add: giveCards_def)
  moreover from r have "err = Some (BareReason ErrDrawDeckIsEmpty)" by simp
  ultimately show ?thesis using e(1) assms(3,4) by simp
qed

theorem challenge_short_deck_witness:
  "let t = demoTable\<lparr>DrawDeck := [mkCard 1 1], TableState := AwaitingWildDraw4ChallengeDecision\<rparr> in
   wf_game t \<and> (\<exists>d' ch' t'. EvalPlayerDecision (\<lambda>_. []) ''bob'' (demoKind PlayerDecisionDontChallenge) [] t
     = Some ((d', Some (BareReason ErrDrawDeckIsEmpty)), ch', t') \<and> DrawDeck t' = [])"
proof -
  let ?t = "demoTable\<lparr>DrawDeck := [mkCard 1 1], TableState := AwaitingWildDraw4ChallengeDecision\<rparr>"
  have w: "wf_game ?t"
    using wf_game_demoTable unfolding wf_game_def wf_table_def wf_seating_def tableCards_def by (simp add: valid_card_def valid_color_def)
  have h: "''bob'' \<in> set (PlayerNames ?t)" "TableState ?t = AwaitingWildDraw4ChallengeDecision" "length (DrawDeck ?t) < 4"
    "Kind (demoKind PlayerDecisionDontChallenge) = PlayerDecisionDontChallenge" by simp_all
  show ?thesis unfolding Let_def using w challenge_short_deck [OF w h, of "\<lambda>_. []" "[]"] by blast
qed


text \<open>C22. What a play does: the play of a seated player is accepted exactly when no colour and no challenge is
  awaited (the table is at the start of a turn or after a draw), the card is in the hand, and it is a wild or
  matches the required number or colour. An accepted card leaves the hand and is the new top of the pile; it
  sets the required number and, unless it is a wild, which keeps the colour, the required colour. A draw-two
  gives the top two cards of the deck, or what is left of it, to the next player; nothing else changes a
  hand or the deck.\<close>

theorem play_card_spec:
  assumes "wf_game t" "p \<in> set (PlayerNames t)" "Kind d = PlayerDecisionPlayHandCard" "ResultCard d = c"
  shows "\<exists>d' err ch' t'. EvalPlayerDecision srt p d ch t = Some ((d', err), ch', t') \<and>
    (err = None \<longleftrightarrow> (TableState t = StartOfTurn \<or> TableState t = AwaitingDropOrPass) \<and> c \<in> set (handOf t p) \<and>
       (IsWild c \<or> Number c = RequiredNumberOfCurrentTurn t \<or> Color c = RequiredColorOfCurrentTurn t)) \<and>
    (err = None \<longrightarrow> DiscardedPile t' = DiscardedPile t @ [c] \<and> RequiredNumberOfCurrentTurn t' = Number c \<and>
       RequiredColorOfCurrentTurn t' = (if IsWild c then RequiredColorOfCurrentTurn t else Color c) \<and>
       (let drawn = (if Number c = NumberDrawTwo then take 2 (rev (DrawDeck t)) else []) in
        rev (DrawDeck t) = drawn @ rev (DrawDeck t') \<and>
        (\<forall>q. mset (handOf t' q) = mset (handOf t q) - (if q = p then {#c#} else {#})
           + (if q = seatFrom t p 1 then mset drawn else {#}))))"
proof -
  have "okDecision d" using assms(3) by (simp add: okDecision_def)
  from EvalPlayerDecision_step [OF assms(1,2) this, of srt ch] obtain d' err ch' t' where
    e: "EvalPlayerDecision srt p d ch t = Some ((d', err), ch', t')" "(err, absTable t') = ruleStep p d (absTable t)" by blast
  then have r: "(err, absTable t') = rulePlay p d (absTable t)" using assms(3) by (simp add: ruleStep_def)
  have may: "mayPlay (absTable t) c \<longleftrightarrow>
      IsWild c \<or> Number c = RequiredNumberOfCurrentTurn t \<or> Color c = RequiredColorOfCurrentTurn t"
    by (simp add: mayPlay_def)
  have iff: "err = None \<longleftrightarrow> (TableState t = StartOfTurn \<or> TableState t = AwaitingDropOrPass) \<and>
      c \<in> set (handOf t p) \<and> mayPlay (absTable t) c"
    using r assms(4) by (auto simp: rulePlay_def Let_def split: if_splits)
  let ?g = "cardEffect p c (layCard p c (absTable t))" and ?n = "if Number c = NumberDrawTwo then 2 else 0"
  have "seatAfter (PlayerNames t) p (Suc 0) = seatFrom t p 1"
    using seatAfter_eq [OF wf_gameD(1) [OF assms(1)] assms(2), of 1] by simp
  then have g: "gPile ?g = c # rev (DiscardedPile t)" "gNumber ?g = Number c"
    "gColor ?g = (if IsWild c then RequiredColorOfCurrentTurn t else Color c)"
    "gDeck ?g = drop ?n (rev (DrawDeck t))"
    "gHands ?g q = mset (handOf t q) - (if q = p then {#c#} else {#})
      + (if q = seatFrom t p 1 then mset (take ?n (rev (DrawDeck t))) else {#})" for q
    by (auto simp: cardEffect_def layCard_def requireCard_def requireNumber_def requireColor_def turnTo_def giveCards_def IsWild_def Let_def)
  have "absTable t' = ?g" if "err = None"
    using r that assms(4) by (auto simp: rulePlay_def Let_def split: if_splits)
  then have a: "gPile (absTable t') = gPile ?g" "gNumber (absTable t') = gNumber ?g" "gColor (absTable t') = gColor ?g"
    "gDeck (absTable t') = gDeck ?g" "gHands (absTable t') q = gHands ?g q" if "err = None" for q using that by simp_all
  have m: "DiscardedPile t' = DiscardedPile t @ [c]" "RequiredNumberOfCurrentTurn t' = Number c"
    "RequiredColorOfCurrentTurn t' = (if IsWild c then RequiredColorOfCurrentTurn t else Color c)"
    "rev (DrawDeck t) = take ?n (rev (DrawDeck t)) @ rev (DrawDeck t')" if "err = None"
    using a(1-4) [OF that] g(1-4) by simp_all
  have h: "mset (handOf t' q) = mset (handOf t q) - (if q = p then {#c#} else {#})
      + (if q = seatFrom t p 1 then mset (take ?n (rev (DrawDeck t))) else {#})" if "err = None" for q
    using a(5) [OF that, of q] g(5) [of q] by simp
  have n: "take ?n (rev (DrawDeck t)) = (if Number c = NumberDrawTwo then take 2 (rev (DrawDeck t)) else [])" by simp
  show ?thesis unfolding Let_def n [symmetric]
    by (intro exI conjI impI allI, rule e(1)) (use iff may in blast, use m h in simp_all)
qed

theorem play_card_spec_witness:
  "\<exists>d' ch' t'. EvalPlayerDecision (\<lambda>_. []) ''al'' (demoPlay (mkCard 7 3)) [] demoTable = Some ((d', None), ch', t') \<and>
     DiscardedPile t' = [mkCard 7 1, mkCard 7 3] \<and> RequiredColorOfCurrentTurn t' = 3"
proof -
  have h: "''al'' \<in> set (PlayerNames demoTable)" "Kind (demoPlay (mkCard 7 3)) = PlayerDecisionPlayHandCard"
    "ResultCard (demoPlay (mkCard 7 3)) = mkCard 7 3" by simp_all
  have m: "mkCard 7 3 \<in> set (handOf demoTable ''al'')" by (simp add: map_get_def)
  from play_card_spec [OF wf_game_demoTable h, of "\<lambda>_. []" "[]"] m show ?thesis by (auto simp: IsWild_def)
qed

text \<open>C29. The direction of play has no effect on whose turn it is: after a reverse card has made the direction
  negative, the turn of a player who passes still goes to the next seat up, while \<open>GetNextPlayer\<close> announces
  the next seat down; with three or more players these are different players.\<close>

theorem passed_turn_ignores_direction:
  assumes "wf_game t" "TableState t = AwaitingDropOrPass" "Kind d = PlayerDecisionPass"
    and "Direction t = -1" "3 \<le> PlayerCount t"
  shows "\<exists>d' ch' t'. EvalPlayerDecision srt (PlayerOfNextTurn t) d ch t = Some ((d', None), ch', t') \<and>
    PlayerOfNextTurn t' = seatFrom t (PlayerOfNextTurn t) 1 \<and>
    GetNextPlayer t 1 = Some (seatFrom t (PlayerOfNextTurn t) (- 1), None) \<and>
    seatFrom t (PlayerOfNextTurn t) (- 1) \<noteq> PlayerOfNextTurn t'"
proof -
  let ?p = "PlayerOfNextTurn t" and ?n = "int (length (PlayerNames t))"
  have w: "wf_table t" and p: "?p \<in> set (PlayerNames t)" using assms(1) by (auto dest: wf_gameD)
  have s: "wf_seating t" using w by (rule wf_tableD)
  have "seatFrom t ?p (?n - 1) = seatFrom t (seatFrom t ?p ?n) (- 1)" by (simp add: seats.seat_seat [OF s p])
  then have "seatFrom t ?p (- 1) = seatFrom t ?p (?n - 1)" by (simp add: seats.seat_period [OF s p])
  moreover have "seatFrom t ?p (?n - 1) \<noteq> seatFrom t ?p 1"
    using assms(5) seated_nonempty [OF p] seats.seat_inject [OF s p, of "?n - 1" 1] by (simp add: PlayerCount_def)
  ultimately show ?thesis
    using setNeighbor_eq [OF w p, of StartOfTurn] GetNextPlayer_seat [OF w p, of 1] assms(2-4)
    by (simp add: EvalPlayerDecision_def evalPass_def)
qed

theorem passed_turn_ignores_direction_witness:
  "let t = demoTable\<lparr>Direction := -1, TableState := AwaitingDropOrPass\<rparr> in
   \<exists>d' ch' t'. EvalPlayerDecision (\<lambda>_. []) ''al'' (demoKind PlayerDecisionPass) [] t = Some ((d', None), ch', t') \<and>
     PlayerOfNextTurn t' = ''bob'' \<and> GetNextPlayer t 1 = Some (''cy'', None)"
proof -
  let ?t = "demoTable\<lparr>Direction := -1, TableState := AwaitingDropOrPass\<rparr>"
  have w: "wf_game ?t" using wf_game_demoTable wf_table_direction [OF wf_demoTable] by (simp add: wf_game_def)
  have h: "TableState ?t = AwaitingDropOrPass" "Kind (demoKind PlayerDecisionPass) = PlayerDecisionPass" "Direction ?t = -1"
    "3 \<le> PlayerCount ?t" by (simp_all add: PlayerCount_def)
  have "seatFrom ?t ''al'' 1 = ''bob''" "seatFrom ?t ''al'' (- 1) = ''cy''"
    by (simp_all add: seatFrom_def PlayerCount_def map_get_def)
  with passed_turn_ignores_direction [OF w h, of "\<lambda>_. []" "[]"] show ?thesis unfolding Let_def by auto
qed

text \<open>C27. Winning: whenever an accepted play leaves the player's hand empty, on any table, the player
  is recorded as the winner and the win is the last event sent.\<close>

theorem empty_hand_wins:
  "Kind d = PlayerDecisionPlayHandCard \<Longrightarrow> EvalPlayerDecision srt p d ch t = Some ((d', None), ch', t') \<Longrightarrow> handOf t' p = [] \<Longrightarrow>
     WinnerPlayerName t' = p \<and> ch' \<noteq> [] \<and> last ch' = PlayerHasWonEvent p (p = LocalPlayerName t')"
  by (auto simp: EvalPlayerDecision_def evalPlayHandCard_def checkIfPlayerHasWon_def Len_def fromLocal_def Let_def
      split: option.splits prod.splits if_splits)

theorem empty_hand_wins_witness:
  "\<exists>d' ch' t'. EvalPlayerDecision (\<lambda>_. []) ''cy'' (demoPlay (mkCard 8 2)) [] (demoTable\<lparr>RequiredColorOfCurrentTurn := 2\<rparr>)
     = Some ((d', None), ch', t') \<and> handOf t' ''cy'' = [] \<and> WinnerPlayerName t' = ''cy''"
proof -
  let ?t = "demoTable\<lparr>RequiredColorOfCurrentTurn := 2\<rparr>"
  have w: "wf_game ?t" using wf_game_demoTable by (simp add: wf_game_def valid_color_def)
  have h: "''cy'' \<in> set (PlayerNames ?t)" "okDecision (demoPlay (mkCard 8 2))" by (simp_all add: okDecision_def)
  from EvalPlayerDecision_step [OF w h, of "\<lambda>_. []" "[]"] obtain d' err ch' t' where
    t': "EvalPlayerDecision (\<lambda>_. []) ''cy'' (demoPlay (mkCard 8 2)) [] ?t = Some ((d', err), ch', t')"
    "(err, absTable t') = ruleStep ''cy'' (demoPlay (mkCard 8 2)) (absTable ?t)" by blast
  then have "err = None" "gHands (absTable t') ''cy'' = {#}"
    by (simp_all add: ruleStep_def rulePlay_def mayPlay_def IsWild_def cardEffect_def layCard_def requireCard_def
        requireColor_def requireNumber_def turnTo_def map_get_def Let_def)
  with empty_hand_wins [of "demoPlay (mkCard 8 2)" "\<lambda>_. []" "''cy''" "[]" ?t d' ch' t'] t'(1) show ?thesis by auto
qed

end
