(* ===== verification/Acks.thy ===== *)
theory Acks
  imports GoPrelude
begin

text \<open>
  Expected acknowledgements (\<open>admin/expected_acks.go\<close>).  The admin registers the acks it waits for;
  each registration starts a goroutine that waits for the ack or a timeout and runs one of two
  callbacks; a loop matches arriving acks with registrations.  A registration is named by its
  channel \<open>ackReceivedChan\<close>; \<open>waiting\<close> are the channels with a goroutine in its \<open>select\<close>,
  \<open>leaked\<close> the channels on which a goroutine sends with nobody to receive, \<open>fired\<close> the callbacks
  run so far, and \<open>stuck\<close> says that the matching loop blocks on a send while it holds the mutex.
  Time is not modelled: a timeout may happen whenever the goroutine still waits.
\<close>

section \<open>Data\<close>

record expectedAck =
  ackId :: string
  ackerPlayerName :: string

record pendingAck =
  pendingFor :: expectedAck
  ackReceivedChan :: nat

datatype callback = OnAck nat | OnTimeout nat

record acksState =
  pendingAcks :: "pendingAck list"
  preemptiveAcks :: "expectedAck list"
  waiting :: "nat set"
  leaked :: "nat list"
  fired :: "callback list"
  stuck :: bool

section \<open>Operations\<close>

definition ackEqual :: "expectedAck \<Rightarrow> expectedAck \<Rightarrow> bool" where
  "ackEqual ack ack1 \<longleftrightarrow> ackId ack = ackId ack1 \<and> ackerPlayerName ack = ackerPlayerName ack1"

definition newExpectedAcksState :: acksState where
  "newExpectedAcksState =
     \<lparr>pendingAcks = [], preemptiveAcks = [], waiting = {}, leaked = [], fired = [], stuck = False\<rparr>"

text \<open>The loops over the two slices delete the first match with \<open>slices.Delete(s, i, i+1)\<close>.\<close>

fun deleteFirst :: "('a \<Rightarrow> bool) \<Rightarrow> 'a list \<Rightarrow> ('a \<times> 'a list) option" where
  "deleteFirst P [] = None"
| "deleteFirst P (x # xs) =
     (if P x then Some (x, xs)
      else case deleteFirst P xs of None \<Rightarrow> None | Some (y, ys) \<Rightarrow> Some (y, x # ys))"

definition addPending :: "expectedAck \<Rightarrow> nat \<Rightarrow> acksState \<Rightarrow> acksState" where
  "addPending ack ch es =
     (let p = \<lparr>pendingFor = ack, ackReceivedChan = ch\<rparr>
      in case deleteFirst (\<lambda>a. ackEqual a (pendingFor p)) (preemptiveAcks es) of
           Some (_, rest) \<Rightarrow> es\<lparr>preemptiveAcks := rest, leaked := leaked es @ [ch]\<rparr>
         | None \<Rightarrow> es\<lparr>waiting := insert ch (waiting es), pendingAcks := pendingAcks es @ [p]\<rparr>)"

definition ackIds :: "acksState \<Rightarrow> string" where
  "ackIds es = concat (map (\<lambda>p. ackId (pendingFor p) @ [CHR 0x0A]) (pendingAcks es))"

text \<open>One turn of \<open>waitForAcks\<close>.  The send on the unbuffered channel meets the waiting goroutine,
  which then runs \<open>onAck\<close>, or blocks for ever.\<close>

definition waitForAcks :: "expectedAck \<Rightarrow> acksState \<Rightarrow> acksState" where
  "waitForAcks ack es =
     (case deleteFirst (\<lambda>p. ackEqual (pendingFor p) ack) (pendingAcks es) of
        Some (p, rest) \<Rightarrow>
          (let es = es\<lparr>pendingAcks := rest\<rparr>; ch = ackReceivedChan p
           in if ch \<in> waiting es
              then es\<lparr>waiting := waiting es - {ch}, fired := fired es @ [OnAck ch]\<rparr>
              else es\<lparr>stuck := True\<rparr>)
      | None \<Rightarrow> es\<lparr>preemptiveAcks := preemptiveAcks es @ [ack]\<rparr>)"

text \<open>The timer of a registration fires.\<close>

definition ackTimeout :: "nat \<Rightarrow> acksState \<Rightarrow> acksState" where
  "ackTimeout ch es = es\<lparr>waiting := waiting es - {ch}, fired := fired es @ [OnTimeout ch]\<rparr>"

section \<open>Interleavings\<close>

fun callbackChan :: "callback \<Rightarrow> nat" where
  "callbackChan (OnAck c) = c"
| "callbackChan (OnTimeout c) = c"

definition usedChans :: "acksState \<Rightarrow> nat set" where
  "usedChans es = waiting es \<union> set (leaked es) \<union> callbackChan ` set (fired es) \<union> ackReceivedChan ` set (pendingAcks es)"

inductive ackStep :: "acksState \<Rightarrow> acksState \<Rightarrow> bool" where
  add: "\<not> stuck es \<Longrightarrow> ch \<notin> usedChans es \<Longrightarrow> ackStep es (addPending ack ch es)"
| receive: "\<not> stuck es \<Longrightarrow> ackStep es (waitForAcks ack es)"
| timeout: "ch \<in> waiting es \<Longrightarrow> ackStep es (ackTimeout ch es)"

inductive_cases ackStepE: "ackStep es es'"

text \<open>What holds of every state: registrations have channels of their own, waiting registrations are
  pending, a callback ran at most once and only for registrations that wait no more.\<close>

definition acksInv :: "acksState \<Rightarrow> bool" where
  "acksInv es \<longleftrightarrow>
     distinct (map ackReceivedChan (pendingAcks es)) \<and>
     waiting es \<subseteq> ackReceivedChan ` set (pendingAcks es) \<and>
     distinct (map callbackChan (fired es)) \<and>
     callbackChan ` set (fired es) \<inter> waiting es = {} \<and>
     set (leaked es) \<inter> (waiting es \<union> callbackChan ` set (fired es) \<union> ackReceivedChan ` set (pendingAcks es)) = {} \<and>
     (\<forall>c. OnAck c \<in> set (fired es) \<longrightarrow> c \<notin> ackReceivedChan ` set (pendingAcks es))"

section \<open>Lemmas\<close>

lemma deleteFirst_None: "deleteFirst P xs = None \<longleftrightarrow> (\<forall>x \<in> set xs. \<not> P x)"
  by (induction xs) (auto split: option.splits)

lemma deleteFirst_Some:
  "deleteFirst P xs = Some (x, ys) \<Longrightarrow> \<exists>us vs. xs = us @ x # vs \<and> ys = us @ vs \<and> P x \<and> (\<forall>u \<in> set us. \<not> P u)"
proof (induction xs arbitrary: ys)
  case (Cons a xs)
  show ?case
  proof (cases "P a")
    case True
    with Cons.prems show ?thesis by (intro exI [of _ "[]"] exI [of _ xs]) auto
  next
    case False
    with Cons.prems obtain zs where z: "deleteFirst P xs = Some (x, zs)" "ys = a # zs" by (auto split: option.splits)
    from Cons.IH [OF z(1)] obtain us vs where "xs = us @ x # vs" "zs = us @ vs" "P x" "\<forall>u \<in> set us. \<not> P u" by blast
    with z False show ?thesis by (intro exI [of _ "a # us"] exI [of _ vs]) auto
  qed
qed simp

lemma callbackChan_OnAck: "OnAck c \<in> A \<Longrightarrow> c \<in> callbackChan ` A"
  by (metis callbackChan.simps(1) image_eqI)

lemma acksInv_add: "acksInv es \<Longrightarrow> ch \<notin> usedChans es \<Longrightarrow> acksInv (addPending ack ch es)"
  by (auto simp: addPending_def acksInv_def usedChans_def Let_def split: option.splits dest: callbackChan_OnAck)

lemma acksInv_timeout: "acksInv es \<Longrightarrow> ch \<in> waiting es \<Longrightarrow> acksInv (ackTimeout ch es)"
  by (auto simp: ackTimeout_def acksInv_def)

lemma acksInv_receive: "acksInv es \<Longrightarrow> acksInv (waitForAcks ack es)"
proof (cases "deleteFirst (\<lambda>p. ackEqual (pendingFor p) ack) (pendingAcks es)")
  case (Some r)
  assume inv: "acksInv es"
  obtain p rest where r: "r = (p, rest)" by fastforce
  from Some r obtain us vs where "pendingAcks es = us @ p # vs" "rest = us @ vs" by (auto dest!: deleteFirst_Some)
  with inv Some r show ?thesis by (auto simp: waitForAcks_def acksInv_def Let_def)
qed (auto simp: waitForAcks_def acksInv_def)

lemma acksInv_step: "ackStep es es' \<Longrightarrow> acksInv es \<Longrightarrow> acksInv es'"
  by (auto elim!: ackStepE intro: acksInv_add acksInv_receive acksInv_timeout)

lemma acksInv_new: "acksInv newExpectedAcksState"
  by (simp add: newExpectedAcksState_def acksInv_def)

interpretation acks: invariant_system "\<lambda>es. es = newExpectedAcksState" ackStep acksInv
  by unfold_locales (auto simp: acksInv_new acksInv_step)

text \<open>A channel on which a goroutine sends in vain is never waited on again.\<close>

lemma leaked_step: "ackStep es es' \<Longrightarrow> set (leaked es) \<subseteq> set (leaked es')"
  by (auto elim!: ackStepE simp: addPending_def waitForAcks_def ackTimeout_def Let_def split: option.splits)

lemma stuck_step: "ackStep es es' \<Longrightarrow> stuck es \<Longrightarrow> stuck es' \<and> pendingAcks es' = pendingAcks es \<and> preemptiveAcks es' = preemptiveAcks es"
  by (auto elim!: ackStepE simp: ackTimeout_def)

section \<open>Properties\<close>

text \<open>C32. In every interleaving of registrations, arriving acks and timeouts, each registration runs at
  most one of its two callbacks, and at most once, and a registration that still waits has run none.\<close>

theorem callbacks_at_most_once:
  assumes "ackStep\<^sup>*\<^sup>* newExpectedAcksState es"
  shows "distinct (map callbackChan (fired es)) \<and> (\<forall>c \<in> waiting es. OnAck c \<notin> set (fired es) \<and> OnTimeout c \<notin> set (fired es))"
proof -
  have i: "distinct (map callbackChan (fired es))" "callbackChan ` set (fired es) \<inter> waiting es = {}"
    using acks.reachable_inv [OF refl assms] by (auto simp: acksInv_def)
  have "OnAck c \<notin> set (fired es) \<and> OnTimeout c \<notin> set (fired es)" if "c \<in> waiting es" for c
    using i(2) that by (metis IntI callbackChan.simps empty_iff image_eqI)
  with i(1) show ?thesis by blast
qed

abbreviation (input) demoAck :: expectedAck where
  "demoAck \<equiv> \<lparr>ackId = ''a1'', ackerPlayerName = ''bob''\<rparr>"

lemmas acks_defs = addPending_def waitForAcks_def ackTimeout_def newExpectedAcksState_def ackEqual_def usedChans_def

lemma demo_add: "ackStep newExpectedAcksState (addPending demoAck 0 newExpectedAcksState)"
  by (rule ackStep.add) (simp_all add: acks_defs)

theorem callbacks_at_most_once_witness:
  "ackStep\<^sup>*\<^sup>* newExpectedAcksState (waitForAcks demoAck (addPending demoAck 0 newExpectedAcksState)) \<and>
   fired (waitForAcks demoAck (addPending demoAck 0 newExpectedAcksState)) = [OnAck 0] \<and>
   distinct (map callbackChan (fired (waitForAcks demoAck (addPending demoAck 0 newExpectedAcksState))))"
proof -
  have "ackStep (addPending demoAck 0 newExpectedAcksState) (waitForAcks demoAck (addPending demoAck 0 newExpectedAcksState))"
    by (rule ackStep.receive) (simp add: acks_defs)
  with demo_add have r: "ackStep\<^sup>*\<^sup>* newExpectedAcksState (waitForAcks demoAck (addPending demoAck 0 newExpectedAcksState))" by auto
  with callbacks_at_most_once [OF r] show ?thesis by (simp add: acks_defs Let_def)
qed

text \<open>An ack that arrives in time is delivered: when the first registration of that ack still
  waits, its \<open>onAck\<close> runs, it is no longer pending or waiting, the others keep their order, and the
  loop does not block.\<close>

theorem ack_in_time_delivered:
  assumes "acksInv es" "pendingAcks es = us @ p # vs" "\<forall>u \<in> set us. \<not> ackEqual (pendingFor u) (pendingFor p)"
    and "ackReceivedChan p \<in> waiting es" "\<not> stuck es"
  shows "let es' = waitForAcks (pendingFor p) es in
    pendingAcks es' = us @ vs \<and> waiting es' = waiting es - {ackReceivedChan p} \<and>
    fired es' = fired es @ [OnAck (ackReceivedChan p)] \<and> \<not> stuck es' \<and> preemptiveAcks es' = preemptiveAcks es"
proof -
  have e: "ackEqual (pendingFor p) (pendingFor p)" by (simp add: ackEqual_def)
  have "deleteFirst (\<lambda>q. ackEqual (pendingFor q) (pendingFor p)) (us @ p # vs) = Some (p, us @ vs)"
    using assms(3) e by (induction us) auto
  with assms show ?thesis by (simp add: waitForAcks_def Let_def)
qed

theorem ack_in_time_delivered_witness:
  "let es = addPending demoAck 0 newExpectedAcksState in acksInv es \<and> fired (waitForAcks demoAck es) = [OnAck 0]"
proof -
  let ?es = "addPending demoAck 0 newExpectedAcksState" and ?p = "\<lparr>pendingFor = demoAck, ackReceivedChan = 0\<rparr>"
  have i: "acksInv ?es" using acksInv_step [OF demo_add acksInv_new] .
  have h: "pendingAcks ?es = [] @ ?p # []" "\<forall>u \<in> set []. \<not> ackEqual (pendingFor u) (pendingFor ?p)"
    "ackReceivedChan ?p \<in> waiting ?es" "\<not> stuck ?es" by (simp_all add: acks_defs)
  from ack_in_time_delivered [OF i h(1,2,3,4)] i show ?thesis by (simp add: Let_def) (simp add: acks_defs)
qed

text \<open>An ack that arrives before its registration is lost on the callbacks: the registration
  consumes it, but neither \<open>onAck\<close> nor \<open>onTimeout\<close> of that registration runs in any continuation,
  and its goroutine stays blocked.\<close>

theorem preempted_registration_never_calls_back:
  assumes "acksInv es" "ch \<notin> usedChans es" "ack \<in> set (preemptiveAcks es)" "ackStep\<^sup>*\<^sup>* (addPending ack ch es) es'"
  shows "ch \<in> set (leaked es') \<and> OnAck ch \<notin> set (fired es') \<and> OnTimeout ch \<notin> set (fired es')"
proof -
  have "deleteFirst (\<lambda>a. ackEqual a ack) (preemptiveAcks es) \<noteq> None"
    using assms(3) unfolding deleteFirst_None by (auto simp: ackEqual_def)
  then have l: "ch \<in> set (leaked (addPending ack ch es))" by (auto simp: addPending_def Let_def)
  have i: "acksInv (addPending ack ch es)" using assms(1,2) by (rule acksInv_add)
  have "ch \<in> set (leaked es')"
    using acks.steps_stable [OF assms(4) i, of "\<lambda>e. ch \<in> set (leaked e)"] l leaked_step by blast
  moreover have "acksInv es'" using assms(4) i by (rule acks.steps_inv)
  ultimately have "ch \<notin> callbackChan ` set (fired es')" unfolding acksInv_def by blast
  with \<open>ch \<in> set (leaked es')\<close> show ?thesis by (metis callbackChan.simps image_eqI)
qed

theorem preempted_registration_never_calls_back_witness:
  "let es = waitForAcks demoAck newExpectedAcksState in
   demoAck \<in> set (preemptiveAcks es) \<and> fired (addPending demoAck 0 es) = [] \<and> leaked (addPending demoAck 0 es) = [0]"
proof -
  let ?es = "waitForAcks demoAck newExpectedAcksState"
  have i: "acksInv ?es" using acksInv_new by (rule acksInv_receive)
  have h: "0 \<notin> usedChans ?es" "demoAck \<in> set (preemptiveAcks ?es)" by (simp_all add: acks_defs)
  from preempted_registration_never_calls_back [OF i h rtranclp.rtrancl_refl] h(2)
  show ?thesis unfolding Let_def by (simp add: acks_defs)
qed

text \<open>C40. A late ack stops the loop: once a registration has timed out and its ack arrives as the first
  match, the loop blocks holding the mutex, and in every continuation no registration is added and no
  ack is handled any more.\<close>

theorem late_ack_blocks_forever:
  assumes "pendingAcks es = us @ p # vs" "\<forall>u \<in> set us. \<not> ackEqual (pendingFor u) (pendingFor p)"
    and "ackReceivedChan p \<notin> waiting es" "ackStep\<^sup>*\<^sup>* (waitForAcks (pendingFor p) es) es'"
  shows "stuck es' \<and> pendingAcks es' = us @ vs \<and> preemptiveAcks es' = preemptiveAcks es"
proof -
  have e: "ackEqual (pendingFor p) (pendingFor p)" by (simp add: ackEqual_def)
  have "deleteFirst (\<lambda>q. ackEqual (pendingFor q) (pendingFor p)) (us @ p # vs) = Some (p, us @ vs)"
    using assms(2) e by (induction us) auto
  with assms(1,3) have s: "stuck (waitForAcks (pendingFor p) es)" "pendingAcks (waitForAcks (pendingFor p) es) = us @ vs"
    "preemptiveAcks (waitForAcks (pendingFor p) es) = preemptiveAcks es" by (simp_all add: waitForAcks_def Let_def)
  from assms(4) show ?thesis
    by (induction rule: rtranclp_induct) (use s stuck_step in auto)
qed

theorem late_ack_blocks_forever_witness:
  "let es = ackTimeout 0 (addPending demoAck 0 newExpectedAcksState) in
   fired es = [OnTimeout 0] \<and> stuck (waitForAcks demoAck es)"
proof -
  let ?es = "ackTimeout 0 (addPending demoAck 0 newExpectedAcksState)" and ?p = "\<lparr>pendingFor = demoAck, ackReceivedChan = 0\<rparr>"
  have h: "pendingAcks ?es = [] @ ?p # []" "\<forall>u \<in> set []. \<not> ackEqual (pendingFor u) (pendingFor ?p)"
    "ackReceivedChan ?p \<notin> waiting ?es" by (simp_all add: acks_defs)
  from late_ack_blocks_forever [OF h rtranclp.rtrancl_refl] show ?thesis unfolding Let_def by (simp add: acks_defs)
qed

end
