(* ===== verification/ReplCommand.thy ===== *)
theory ReplCommand
  imports Cards
begin

text \<open>
  The command language of the client (\<open>player_client/repl_command.go\<close>): the commands, the scanner
  calls and the parser.  Input is ASCII text.  The scanner is \<open>text/scanner\<close> with \<open>GoTokens\<close>, of
  which the model has white space, comments, identifiers and number literals; every other token
  (strings, characters, floats, single symbols) is \<open>TokOther\<close>, after which the parser scans no
  further, so what such a token consumes does not matter.  Error texts are replaced by constructors.
\<close>

section \<open>Commands\<close>

datatype ReplCommandKind =
    CmdNone
  | CmdAskUserToPlay
  | CmdDeclareReady
  | CmdQuit
  | CmdConnect
  | CmdTableSummary
  | CmdDumpDrawDeck
  | CmdShowHand
  | CmdDropCard
  | CmdDrawCard
  | CmdPass
  | CmdDrawCardFromPile
  | CmdSetWildCardColor
  | CmdNoChallenge
  | CmdChallenge

text \<open>The constants are an \<open>iota\<close> enumeration; their order is that of the numbers.\<close>

fun kindNumber :: "ReplCommandKind \<Rightarrow> nat" where
  "kindNumber CmdNone = 0"
| "kindNumber CmdAskUserToPlay = 1"
| "kindNumber CmdDeclareReady = 2"
| "kindNumber CmdQuit = 3"
| "kindNumber CmdConnect = 4"
| "kindNumber CmdTableSummary = 5"
| "kindNumber CmdDumpDrawDeck = 6"
| "kindNumber CmdShowHand = 7"
| "kindNumber CmdDropCard = 8"
| "kindNumber CmdDrawCard = 9"
| "kindNumber CmdPass = 10"
| "kindNumber CmdDrawCardFromPile = 11"
| "kindNumber CmdSetWildCardColor = 12"
| "kindNumber CmdNoChallenge = 13"
| "kindNumber CmdChallenge = 14"

lemma kindNumber_inject: "kindNumber a = kindNumber b \<longleftrightarrow> a = b"
  by (cases a; cases b; simp)

instantiation ReplCommandKind :: linorder
begin

definition less_eq_ReplCommandKind :: "ReplCommandKind \<Rightarrow> ReplCommandKind \<Rightarrow> bool" where
  "less_eq_ReplCommandKind a b \<longleftrightarrow> kindNumber a \<le> kindNumber b"

definition less_ReplCommandKind :: "ReplCommandKind \<Rightarrow> ReplCommandKind \<Rightarrow> bool" where
  "less_ReplCommandKind a b \<longleftrightarrow> kindNumber a < kindNumber b"

instance
  by standard (auto simp: less_eq_ReplCommandKind_def less_ReplCommandKind_def kindNumber_inject)

end

definition IsUserDecisionCommand :: "ReplCommandKind \<Rightarrow> bool" where
  "IsUserDecisionCommand k \<longleftrightarrow> CmdDropCard \<le> k \<and> k \<le> CmdChallenge"

datatype ExtraData = NoData | ColorData Color | AddrData string

record ReplCommand =
  cmdCards :: "Card list"
  cmdKind :: ReplCommandKind
  cmdCount :: int
  cmdPlayerName :: string
  cmdTargetPlayerName :: string
  cmdExtraData :: ExtraData

definition NewReplCommand :: "ReplCommandKind \<Rightarrow> string \<Rightarrow> ReplCommand" where
  "NewReplCommand kind playerName =
     \<lparr>cmdCards = [], cmdKind = kind, cmdCount = 0, cmdPlayerName = playerName, cmdTargetPlayerName = [],
      cmdExtraData = NoData\<rparr>"

datatype ParseError =
    ExpectedMainCommand
  | ExpectedDrawCount
  | InvalidDrawCount
  | ExpectedCardNumber
  | NotANumber
  | InvalidDropNumber int
  | ExpectedCardColor
  | ExpectedWildColor
  | InvalidWildColor
  | MissingDumpCount
  | InvalidDumpCount
  | ExpectedEOF
  | ExpectedConnect

section \<open>The scanner\<close>

datatype token = TokEOF | TokIdent string | TokInt string | TokOther

definition code :: "char \<Rightarrow> nat" where
  "code c = of_char c"

definition is_alpha :: "char \<Rightarrow> bool" where
  "is_alpha c \<longleftrightarrow> 65 \<le> code c \<and> code c \<le> 90 \<or> 97 \<le> code c \<and> code c \<le> 122"

definition is_hex :: "char \<Rightarrow> bool" where
  "is_hex c \<longleftrightarrow> is_digit c \<or> 65 \<le> code c \<and> code c \<le> 70 \<or> 97 \<le> code c \<and> code c \<le> 102"

definition is_ident_start :: "char \<Rightarrow> bool" where
  "is_ident_start c \<longleftrightarrow> c = CHR ''_'' \<or> is_alpha c"

definition is_ident_part :: "char \<Rightarrow> bool" where
  "is_ident_part c \<longleftrightarrow> is_ident_start c \<or> is_digit c"

definition is_go_space :: "char \<Rightarrow> bool" where
  "is_go_space c \<longleftrightarrow> c \<in> {CHR 0x09, CHR 0x0A, CHR 0x0D, CHR '' ''}"

text \<open>\<open>strings.TrimSpace\<close> on ASCII text.\<close>

definition is_space :: "char \<Rightarrow> bool" where
  "is_space c \<longleftrightarrow> c \<in> {CHR 0x09, CHR 0x0A, CHR 0x0B, CHR 0x0C, CHR 0x0D, CHR '' ''}"

definition trim_space :: "string \<Rightarrow> string" where
  "trim_space s = rev (dropWhile is_space (rev (dropWhile is_space s)))"

text \<open>\<open>scanNumber\<close>: the kind and the rest of a literal that starts with a decimal digit.\<close>

definition numberDigits :: "bool \<Rightarrow> string \<Rightarrow> string" where
  "numberDigits hex s = dropWhile (\<lambda>c. (if hex then is_hex c else is_digit c) \<or> c = CHR ''_'') s"

definition numberBody :: "string \<Rightarrow> bool \<times> string" where
  "numberBody s =
     (case s of
        c # d # cs \<Rightarrow>
          (if c = CHR ''0'' \<and> d \<in> {CHR ''x'', CHR ''X''} then (True, cs)
           else if c = CHR ''0'' \<and> d \<in> {CHR ''o'', CHR ''O'', CHR ''b'', CHR ''B''} then (False, cs)
           else (False, s))
      | _ \<Rightarrow> (False, s))"

definition scanNumber :: "string \<Rightarrow> bool \<times> string" where
  "scanNumber s =
     (let (hex, body) = numberBody s;
          rest = numberDigits hex body
      in if rest \<noteq> [] \<and> hd rest \<in> {CHR ''.'', CHR ''e'', CHR ''E'', CHR ''p'', CHR ''P''}
         then (False, tl rest) else (True, rest))"

fun skipBlockComment :: "string \<Rightarrow> string" where
  "skipBlockComment (a # b # cs) = (if a = CHR ''*'' \<and> b = CHR ''/'' then cs else skipBlockComment (b # cs))"
| "skipBlockComment _ = []"

lemma length_skipBlockComment: "length (skipBlockComment s) \<le> length s"
  by (induction s rule: skipBlockComment.induct) auto

lemma length_dropWhile_less: "length (dropWhile P cs) < Suc (length cs)"
  by (simp add: le_imp_less_Suc length_dropWhile_le)

function Scan :: "string \<Rightarrow> token \<times> string" where
  "Scan [] = (TokEOF, [])"
| "Scan (c # cs) =
     (if is_go_space c then Scan cs
      else if is_ident_start c
      then (TokIdent (c # takeWhile is_ident_part cs), dropWhile is_ident_part cs)
      else if is_digit c
      then (case scanNumber (c # cs) of (isInt, rest) \<Rightarrow>
             if isInt then (TokInt (take (length (c # cs) - length rest) (c # cs)), rest) else (TokOther, rest))
      else if c = CHR ''/'' \<and> cs \<noteq> [] \<and> hd cs = CHR ''/''
      then Scan (dropWhile (\<lambda>d. d \<noteq> CHR 0x0A) (tl cs))
      else if c = CHR ''/'' \<and> cs \<noteq> [] \<and> hd cs = CHR ''*''
      then Scan (skipBlockComment (tl cs))
      else (TokOther, cs))"
  by pat_completeness auto
termination
proof (relation "measure length")
  fix c cs assume "c = CHR ''/'' \<and> cs \<noteq> [] \<and> hd cs = CHR ''/''"
  then show "(dropWhile (\<lambda>d. d \<noteq> CHR 0x0A) (tl cs), c # cs) \<in> measure length"
    using length_dropWhile_le [of "\<lambda>d. d \<noteq> CHR 0x0A" "tl cs"] by (cases cs) auto
next
  fix c cs assume "c = CHR ''/'' \<and> cs \<noteq> [] \<and> hd cs = CHR ''*''"
  then show "(skipBlockComment (tl cs), c # cs) \<in> measure length"
    using length_skipBlockComment [of "tl cs"] by (cases cs) auto
qed auto

section \<open>The parser\<close>

fun TokenText :: "token \<Rightarrow> string" where
  "TokenText (TokIdent s) = s"
| "TokenText (TokInt s) = s"
| "TokenText _ = []"

fun isIdent :: "token \<Rightarrow> bool" where
  "isIdent (TokIdent _) = True"
| "isIdent _ = False"

fun isInt :: "token \<Rightarrow> bool" where
  "isInt (TokInt _) = True"
| "isInt _ = False"

definition getColorFromString :: "string \<Rightarrow> Color \<times> bool" where
  "getColorFromString s =
     (let t = to_lower s in
      if t = ''red'' then (ColorRed, True)
      else if t = ''blue'' then (ColorBlue, True)
      else if t = ''green'' then (ColorGreen, True)
      else if t = ''yellow'' then (ColorYellow, True)
      else (ColorWild, False))"

text \<open>The first half of \<open>parseCardSequence\<close>: the number of the card named by the current token.\<close>

definition parseCardNumber :: "string \<Rightarrow> ParseError + Number" where
  "parseCardNumber word =
     (let text = to_lower word in
      if text = ''skip'' then Inr NumberSkip
      else if text = ''rev'' then Inr NumberReverse
      else if text = ''draw2'' then Inr NumberDrawTwo
      else if text = ''wild'' then Inr NumberWild
      else if text = ''wild4'' then Inr NumberWildDrawFour
      else case atoi text of
        None \<Rightarrow> Inl NotANumber
      | Some number \<Rightarrow>
          if number < 0 \<or> number > 9 then Inl (InvalidDropNumber number)
          else case IntToNumber number of Inl _ \<Rightarrow> Inl (InvalidDropNumber number) | Inr n \<Rightarrow> Inr n)"

lemma length_numberDigits: "length (numberDigits h cs) \<le> length cs"
  by (simp add: numberDigits_def length_dropWhile_le)

lemma numberBody_Cons:
  assumes "is_digit c" and "numberBody (c # cs) = (h, b)"
  shows "length (numberDigits h b) \<le> length cs"
proof -
  from assms(2) consider "h = False" "b = c # cs" | d ds where "cs = d # ds" "b = ds"
    unfolding numberBody_def by (cases cs) (auto split: if_splits)
  then show ?thesis
  proof cases
    case 1
    then show ?thesis using assms(1) length_dropWhile_le by (simp add: numberDigits_def)
  next
    case (2 d ds)
    then show ?thesis using length_numberDigits [of h ds] by simp
  qed
qed

lemma length_scanNumber:
  assumes "is_digit c"
  shows "length (snd (scanNumber (c # cs))) \<le> length cs"
proof -
  obtain h b where hb: "numberBody (c # cs) = (h, b)" by fastforce
  with numberBody_Cons [OF assms hb] show ?thesis by (auto simp: scanNumber_def Let_def)
qed

lemma Scan_length: "Scan s = (tok, rest) \<Longrightarrow> tok \<noteq> TokEOF \<Longrightarrow> length rest < length s"
proof (induction s rule: Scan.induct)
  case (2 c cs)
  have tl: "length (tl cs) \<le> length cs" by simp
  consider (space) "is_go_space c" | (ident) "\<not> is_go_space c" "is_ident_start c"
    | (digit) "\<not> is_go_space c" "\<not> is_ident_start c" "is_digit c"
    | (line) "\<not> is_go_space c" "\<not> is_ident_start c" "\<not> is_digit c" "c = CHR ''/'' \<and> cs \<noteq> [] \<and> hd cs = CHR ''/''"
    | (block) "\<not> is_go_space c" "\<not> is_ident_start c" "\<not> is_digit c" "\<not> (c = CHR ''/'' \<and> cs \<noteq> [] \<and> hd cs = CHR ''/'')"
        "c = CHR ''/'' \<and> cs \<noteq> [] \<and> hd cs = CHR ''*''"
    | (other) "\<not> is_go_space c" "\<not> is_ident_start c" "\<not> is_digit c" "\<not> (c = CHR ''/'' \<and> cs \<noteq> [] \<and> hd cs = CHR ''/'')"
        "\<not> (c = CHR ''/'' \<and> cs \<noteq> [] \<and> hd cs = CHR ''*'')"
    by blast
  then show ?case
  proof cases
    case space
    with 2 show ?thesis by simp
  next
    case ident
    with 2 length_dropWhile_le [of is_ident_part cs] show ?thesis by auto
  next
    case digit
    with 2 length_scanNumber [OF digit(3), of cs] show ?thesis by (auto split: prod.splits if_splits)
  next
    case line
    with 2(2) [OF line(1-4)] 2(4,5) length_dropWhile_le [of "\<lambda>d. d \<noteq> CHR 0x0A" "tl cs"] tl show ?thesis by simp
  next
    case block
    with 2(3) [OF block(1-5)] 2(4,5) length_skipBlockComment [of "tl cs"] tl show ?thesis by simp
  next
    case other
    with 2(4) show ?thesis by (simp split: if_splits)
  qed
qed simp

lemma Scan_step:
  "(tok, rest) = Scan s \<Longrightarrow> isIdent tok \<Longrightarrow> length rest < length s"
  "(tok, rest) = Scan s \<Longrightarrow> isInt tok \<Longrightarrow> length rest < length s"
  using Scan_length [of s tok rest] by (cases tok; simp)+

definition cardColor :: "string \<Rightarrow> Color option" where
  "cardColor s =
     (let t = to_lower s in
      if t = ''red'' then Some ColorRed
      else if t = ''green'' then Some ColorGreen
      else if t = ''blue'' then Some ColorBlue
      else if t = ''yellow'' then Some ColorYellow
      else None)"

text \<open>\<open>parseCardSequence\<close>: the scanner is its remaining input and the text of its current token.\<close>

function parseCardSequence :: "string \<Rightarrow> string \<Rightarrow> Card list \<Rightarrow> token \<times> Card list \<times> ParseError option" where
  "parseCardSequence s word cards =
     (case parseCardNumber word of
        Inl err \<Rightarrow> (TokOther, cards, Some err)
      | Inr n \<Rightarrow>
          if n = NumberWild \<or> n = NumberWildDrawFour
          then (case Scan s of (tok, s') \<Rightarrow>
                  if isIdent tok \<or> isInt tok then parseCardSequence s' (TokenText tok) (cards @ [mkCard n 0])
                  else (tok, cards @ [mkCard n 0], None))
          else (case Scan s of (tok, s') \<Rightarrow>
                  if \<not> isIdent tok then (tok, cards, Some ExpectedCardColor)
                  else case cardColor (TokenText tok) of
                    None \<Rightarrow> (tok, cards, Some ExpectedCardColor)
                  | Some color \<Rightarrow>
                      (case Scan s' of (tok, s'') \<Rightarrow>
                         if isIdent tok \<or> isInt tok
                         then parseCardSequence s'' (TokenText tok) (cards @ [mkCard n color])
                         else (tok, cards @ [mkCard n color], None))))"
  by pat_completeness auto
termination
  by (relation "measure (\<lambda>(s, _). length s)") (auto, (meson Scan_step less_trans)+)

text \<open>The commands without arguments scan once more and return.\<close>

definition simpleCommand :: "ReplCommandKind \<Rightarrow> string \<Rightarrow> string \<Rightarrow> token \<times> ReplCommand \<times> ParseError option" where
  "simpleCommand kind s playerName = (fst (Scan s), (NewReplCommand kind playerName), None)"

definition parseDraw :: "string \<Rightarrow> ReplCommand \<Rightarrow> token \<times> ReplCommand \<times> ParseError option" where
  "parseDraw s command =
     (let command = command\<lparr>cmdKind := CmdDrawCard, cmdCount := 1\<rparr>;
          tok = fst (Scan s)
      in if tok = TokEOF then (tok, command, None)
         else if \<not> isInt tok then (tok, command, Some ExpectedDrawCount)
         else case atoi (TokenText tok) of
           None \<Rightarrow> (tok, command, Some InvalidDrawCount)
         | Some number \<Rightarrow>
             if number > 9 \<or> number < 0 then (tok, command, Some InvalidDrawCount)
             else (tok, command\<lparr>cmdCount := number\<rparr>, None))"

definition parseDrop :: "string \<Rightarrow> ReplCommand \<Rightarrow> token \<times> ReplCommand \<times> ParseError option" where
  "parseDrop s command =
     (let command = command\<lparr>cmdKind := CmdDropCard\<rparr> in
      case Scan s of (tok, s') \<Rightarrow>
        if \<not> (isInt tok \<or> isIdent tok) then (tok, command, Some ExpectedCardNumber)
        else case parseCardSequence s' (TokenText tok) (cmdCards command) of
          (tok, cards, Some err) \<Rightarrow> (tok, command, Some err)
        | (tok, cards, None) \<Rightarrow> (tok, command\<lparr>cmdCards := cards\<rparr>, None))"

definition parseWildColor :: "string \<Rightarrow> ReplCommand \<Rightarrow> token \<times> ReplCommand \<times> ParseError option" where
  "parseWildColor s command =
     (let command = command\<lparr>cmdKind := CmdSetWildCardColor\<rparr> in
      case Scan s of (tok, s') \<Rightarrow>
        if \<not> isIdent tok then (tok, command, Some ExpectedWildColor)
        else case getColorFromString (TokenText tok) of
          (color, False) \<Rightarrow> (tok, command, Some InvalidWildColor)
        | (color, True) \<Rightarrow> (fst (Scan s'), command\<lparr>cmdExtraData := ColorData color\<rparr>, None))"

definition parseDump :: "string \<Rightarrow> ReplCommand \<Rightarrow> token \<times> ReplCommand \<times> ParseError option" where
  "parseDump s command =
     (let command = command\<lparr>cmdKind := CmdDumpDrawDeck\<rparr> in
      case Scan s of (countToken, s') \<Rightarrow>
        if \<not> isInt countToken then (countToken, command, Some MissingDumpCount)
        else case atoi (TokenText countToken) of
          None \<Rightarrow> (countToken, command, Some InvalidDumpCount)
        | Some n \<Rightarrow> (fst (Scan s'), command\<lparr>cmdCount := n\<rparr>, None))"

definition parseCommand :: "string \<Rightarrow> token \<Rightarrow> string \<Rightarrow> token \<times> ReplCommand \<times> ParseError option" where
  "parseCommand s tok playerName =
     (let command = NewReplCommand CmdNone playerName; word = to_lower (TokenText tok) in
      if \<not> isIdent tok then (tok, command, Some ExpectedMainCommand)
      else if word = ''ready'' then simpleCommand CmdDeclareReady s playerName
      else if word = ''draw'' then parseDraw s command
      else if word = ''drawpile'' then simpleCommand CmdDrawCardFromPile s playerName
      else if word = ''drop'' then parseDrop s command
      else if word = ''wild_color'' then parseWildColor s command
      else if word = ''quit'' then simpleCommand CmdQuit s playerName
      else if word = ''challenge'' then simpleCommand CmdChallenge s playerName
      else if word = ''no_challenge'' then simpleCommand CmdNoChallenge s playerName
      else if word = ''pass'' then simpleCommand CmdPass s playerName
      else if word = ''connect_default'' then simpleCommand CmdConnect s playerName
      else if word = ''conndef'' then simpleCommand CmdConnect s playerName
      else if word = ''table_summary'' then simpleCommand CmdTableSummary s playerName
      else if word = ''dump_drawdeck'' then parseDump s command
      else if word = ''show_hand'' then simpleCommand CmdShowHand s playerName
      else (tok, command, Some ExpectedMainCommand))"

text \<open>The expression of \<open>parseConnectCommand\<close> is a raw string, so its two backslashes match one
  literal backslash, and the \<open>s+\<close> after it one or more letters \<open>s\<close>; the group takes the rest of the
  line, or the last \<open>s\<close> when nothing else is left.\<close>

definition connectAddr :: "string \<Rightarrow> string option" where
  "connectAddr input =
     (let pre = ''connect'' @ [CHR 0x5C]; r = drop (length pre) input;
          rest = dropWhile (\<lambda>c. c = CHR ''s'') r; n = length r - length rest
      in if take (length pre) input \<noteq> pre \<or> n = 0 then None
         else if rest = [] then (if n \<ge> 2 then Some ''s'' else None)
         else if CHR 0x0A \<in> set rest then None
         else Some rest)"

definition parseConnectCommand :: "string \<Rightarrow> string \<Rightarrow> ReplCommand \<times> ParseError option" where
  "parseConnectCommand input playerName =
     (case connectAddr (trim_space input) of
        None \<Rightarrow> (NewReplCommand CmdNone [], Some ExpectedConnect)
      | Some adminAddr \<Rightarrow>
          (let adminAddr = (if take 7 adminAddr = ''http://'' then adminAddr else ''http://'' @ adminAddr)
           in ((NewReplCommand CmdConnect playerName)\<lparr>cmdExtraData := AddrData adminAddr\<rparr>, None)))"

definition ParseCommandFromInput :: "string \<Rightarrow> string \<Rightarrow> ReplCommand \<times> ParseError option" where
  "ParseCommandFromInput input playerName =
     (let input = trim_space input in
      case Scan input of (tok, s) \<Rightarrow>
        if tok = TokIdent ''connect'' then parseConnectCommand input playerName
        else case parseCommand s tok playerName of
          (tok, command, Some err) \<Rightarrow> (command, Some err)
        | (tok, command, None) \<Rightarrow>
            if tok \<noteq> TokEOF then (command, Some ExpectedEOF) else (command, None))"

definition IsUserNameAllowed :: "string \<Rightarrow> bool" where
  "IsUserNameAllowed name \<longleftrightarrow> name \<noteq> [] \<and> list_all (\<lambda>c. is_alpha c \<or> c = CHR ''_'') name"

section \<open>Printing commands\<close>

definition numWord :: "Number \<Rightarrow> string" where
  "numWord n =
     (if n = NumberSkip then ''skip'' else if n = NumberReverse then ''rev'' else if n = NumberDrawTwo then ''draw2''
      else if n = NumberWild then ''wild'' else if n = NumberWildDrawFour then ''wild4'' else show_int n)"

definition cardWords :: "Card \<Rightarrow> string list" where
  "cardWords c = (if IsWild c then [numWord (Number c)] else [numWord (Number c), ColorString (Color c)])"

definition joinWords :: "string list \<Rightarrow> string" where
  "joinWords ws = concat (map (\<lambda>w. CHR '' '' # w) ws)"

definition isWord :: "string \<Rightarrow> bool" where
  "isWord w \<longleftrightarrow> w \<noteq> [] \<and> (is_ident_start (hd w) \<and> list_all is_ident_part (tl w) \<or> is_digit (hd w) \<and> tl w = [])"

definition tokOf :: "string \<Rightarrow> token" where
  "tokOf w = (if is_ident_start (hd w) then TokIdent w else TokInt w)"

section \<open>Lemmas\<close>

declare Scan.simps [simp del] parseCardSequence.simps [simp del]

lemma char_classes:
  "is_ident_start c \<Longrightarrow> \<not> is_go_space c" "is_digit c \<Longrightarrow> \<not> is_go_space c" "is_digit c \<Longrightarrow> \<not> is_ident_start c"
  "\<not> is_ident_part (CHR '' '')" "is_go_space (CHR '' '')" "is_ident_start c \<Longrightarrow> \<not> is_space c" "is_digit c \<Longrightarrow> \<not> is_space c"
  by (auto simp: is_ident_start_def is_go_space_def is_space_def is_digit_def is_alpha_def is_ident_part_def code_def)

lemma joinWords_simps [simp]: "joinWords [] = []" "joinWords (w # ws) = CHR '' '' # w @ joinWords ws"
  "joinWords (vs @ ws) = joinWords vs @ joinWords ws"
  by (simp_all add: joinWords_def)

lemma takeWhile_word: "list_all P cs \<Longrightarrow> rest = [] \<or> \<not> P (hd rest) \<Longrightarrow> takeWhile P (cs @ rest) = cs \<and> dropWhile P (cs @ rest) = rest"
proof (induction cs)
  case Nil
  then show ?case by (cases rest) auto
qed auto

lemma Scan_ident:
  assumes "is_ident_start c" "list_all is_ident_part cs" "rest = [] \<or> hd rest = CHR '' ''"
  shows "Scan (c # cs @ rest) = (TokIdent (c # cs), rest)"
proof -
  have "rest = [] \<or> \<not> is_ident_part (hd rest)" using assms(3) char_classes(4) by auto
  from takeWhile_word [OF assms(2) this] show ?thesis using assms(1) char_classes(1) by (simp add: Scan.simps)
qed

lemma Scan_digit:
  assumes "is_digit c" "rest = [] \<or> hd rest = CHR '' ''"
  shows "Scan (c # rest) = (TokInt [c], rest)"
proof -
  have b: "numberBody (c # rest) = (False, c # rest)" using assms(2) by (cases rest) (auto simp: numberBody_def)
  have "\<not> is_digit (CHR '' '')" by (simp add: is_digit_def)
  then have "numberDigits False (c # rest) = rest" using assms by (cases rest) (auto simp: numberDigits_def)
  then have n: "scanNumber (c # rest) = (True, rest)" using assms(2) b by (auto simp: scanNumber_def Let_def)
  show ?thesis using n assms(1) char_classes(2,3) by (simp add: Scan.simps)
qed

lemma Scan_Nil [simp]: "Scan [] = (TokEOF, [])"
  by (simp add: Scan.simps)

lemma Scan_word: "isWord w \<Longrightarrow> Scan (joinWords (w # ws)) = (tokOf w, joinWords ws)"
proof -
  assume w: "isWord w"
  have h: "joinWords ws = [] \<or> hd (joinWords ws) = CHR '' ''" by (cases ws) simp_all
  obtain c cs where c: "w = c # cs" using w by (cases w) (auto simp: isWord_def)
  have "Scan (joinWords (w # ws)) = Scan (w @ joinWords ws)" using char_classes(5) by (simp add: Scan.simps)
  also have "\<dots> = (tokOf w, joinWords ws)"
  proof (cases "is_ident_start c")
    case True
    with w c char_classes(3) show ?thesis using Scan_ident [OF True _ h, of cs] by (auto simp: isWord_def tokOf_def)
  next
    case False
    with w c show ?thesis using Scan_digit [OF _ h, of c] by (auto simp: isWord_def tokOf_def)
  qed
  finally show ?thesis .
qed

lemma tokOf_kind: "isWord w \<Longrightarrow> (isIdent (tokOf w) \<or> isInt (tokOf w)) \<and> TokenText (tokOf w) = w"
  by (simp add: tokOf_def)

lemma number_enum: "0 \<le> n \<Longrightarrow> n \<le> 14 \<Longrightarrow> n \<in> {0,1,2,3,4,5,6,7,8,9,10,11,12,13,14}" for n :: int
  by (simp; presburger)

lemma show_digit: "show_int 0 = ''0''" "show_int 1 = ''1''" "show_int 2 = ''2''" "show_int 3 = ''3''" "show_int 4 = ''4''"
  "show_int 5 = ''5''" "show_int 6 = ''6''" "show_int 7 = ''7''" "show_int 8 = ''8''" "show_int 9 = ''9''"
  by code_simp+

lemma numWord_ok:
  assumes "0 \<le> n" "n \<le> 14"
  shows "parseCardNumber (numWord n) = Inr n \<and> isWord (numWord n)"
  using number_enum [OF assms]
  by (auto simp: numWord_def parseCardNumber_def to_lower_def to_lower_char_def isWord_def is_ident_start_def
      is_ident_part_def is_alpha_def is_digit_def code_def show_digit atoi_def IntToNumber_def)

lemma color_enum: "valid_color k \<Longrightarrow> k \<in> {1,2,3,4}"
  unfolding valid_color_def by (simp; presburger)

lemma colorWord_ok:
  assumes "valid_color k"
  shows "cardColor (ColorString k) = Some k \<and> isWord (ColorString k) \<and> isIdent (tokOf (ColorString k)) \<and> getColorFromString (ColorString k) = (k, True)"
  using color_enum [OF assms]
  by (auto simp: ColorString_def cardColor_def getColorFromString_def to_lower_def to_lower_char_def isWord_def is_ident_start_def
      is_ident_part_def is_alpha_def is_digit_def code_def tokOf_def)

lemma cardWords_Cons:
  "IsWild c \<Longrightarrow> cardWords c = [numWord (Number c)]"
  "\<not> IsWild c \<Longrightarrow> cardWords c = [numWord (Number c), ColorString (Color c)]"
  "hd (cardWords c) = numWord (Number c)" "cardWords c = hd (cardWords c) # tl (cardWords c)"
  by (simp_all add: cardWords_def)

lemma valid_numWord: "valid_card c \<Longrightarrow> parseCardNumber (numWord (Number c)) = Inr (Number c) \<and> isWord (numWord (Number c))"
  by (rule numWord_ok) (auto simp: valid_card_def IsWild_def)

text \<open>One card of a sequence: after it the parser is at the next token.\<close>

definition nextCard :: "string \<Rightarrow> Card list \<Rightarrow> token \<times> Card list \<times> ParseError option" where
  "nextCard s cards =
     (case Scan s of (tok, s') \<Rightarrow>
        if isIdent tok \<or> isInt tok then parseCardSequence s' (TokenText tok) cards else (tok, cards, None))"

lemma parse_one_card:
  assumes "valid_card c"
  shows "parseCardSequence (joinWords (tl (cardWords c) @ ws)) (hd (cardWords c)) acc = nextCard (joinWords ws) (acc @ [c])"
proof (cases "IsWild c")
  case True
  with assms obtain n where c: "c = mkCard n 0" "n = 13 \<or> n = 14" by (cases c) (auto simp: valid_card_def IsWild_def)
  then show ?thesis using True valid_numWord [OF assms]
    by (subst parseCardSequence.simps) (auto simp: cardWords_Cons(1) nextCard_def split: prod.split)
next
  case False
  with assms have v: "valid_color (Color c)" by (auto simp: valid_card_def)
  let ?k = "ColorString (Color c)"
  have "Scan (joinWords (?k # ws)) = (tokOf ?k, joinWords ws)" using colorWord_ok [OF v] by (intro Scan_word) simp
  moreover have "parseCardNumber (numWord (Number c)) = Inr (Number c)" "Number c \<noteq> 13" "Number c \<noteq> 14" "c = mkCard (Number c) (Color c)"
    using valid_numWord [OF assms] False by (auto simp: IsWild_def)
  ultimately show ?thesis using colorWord_ok [OF v] tokOf_kind [of ?k] unfolding cardWords_Cons(2) [OF False] list.sel
    by (cases c, subst parseCardSequence.simps) (simp add: nextCard_def del: joinWords_simps)
qed

lemma cardWords_parse:
  "valid_card c \<Longrightarrow> \<forall>d \<in> set cs. valid_card d \<Longrightarrow>
     parseCardSequence (joinWords (tl (cardWords c) @ concat (map cardWords cs))) (hd (cardWords c)) acc = (TokEOF, acc @ c # cs, None)"
proof (induction cs arbitrary: c acc)
  case Nil
  then show ?case using parse_one_card [OF Nil.prems(1), of "[]" acc] by (simp add: nextCard_def)
next
  case (Cons d cs)
  have vd: "valid_card d" using Cons.prems(2) by simp
  let ?w = "hd (cardWords d)" and ?ws = "tl (cardWords d) @ concat (map cardWords cs)"
  have w: "isWord ?w" using valid_numWord [OF vd] by (simp add: cardWords_Cons(3))
  have "concat (map cardWords (d # cs)) = ?w # ?ws" using cardWords_Cons(4) [of d] by (metis append_Cons concat.simps(2) list.simps(9))
  then have "Scan (joinWords (concat (map cardWords (d # cs)))) = (tokOf ?w, joinWords ?ws)" using Scan_word [OF w] by metis
  then show ?case using parse_one_card [OF Cons.prems(1), of "concat (map cardWords (d # cs))" acc]
      tokOf_kind [OF w] Cons.IH [OF vd, of "acc @ [c]"] Cons.prems(2)
    by (auto simp: nextCard_def simp del: joinWords_simps concat.simps list.map)
qed

text \<open>What the parser accepts.\<close>

lemma parseCardNumber_range: "parseCardNumber w = Inr n \<Longrightarrow> 0 \<le> n \<and> n \<le> 14"
  by (auto simp: parseCardNumber_def IntToNumber_def Let_def split: if_splits option.splits sum.splits)

lemma cardColor_valid: "cardColor w = Some k \<Longrightarrow> valid_color k"
  by (auto simp: cardColor_def valid_color_def Let_def split: if_splits)

lemma parseCardSequence_valid:
  "parseCardSequence s w cards = (tok, cards', None) \<Longrightarrow> \<forall>c \<in> set cards. valid_card c \<Longrightarrow>
     (\<forall>c \<in> set cards'. valid_card c) \<and> cards' \<noteq> []"
proof (induction s w cards rule: parseCardSequence.induct)
  case (1 s w cards)
  obtain n where n: "parseCardNumber w = Inr n" using 1(3) by (subst (asm) parseCardSequence.simps) (auto split: sum.splits)
  note r = parseCardNumber_range [OF n]
  obtain tok1 s1 where s1: "Scan s = (tok1, s1)" by fastforce
  show ?case
  proof (cases "n = NumberWild \<or> n = NumberWildDrawFour")
    case True
    then have v: "valid_card (mkCard n 0)" by (auto simp: valid_card_def IsWild_def)
    show ?thesis
    proof (cases "isIdent tok1 \<or> isInt tok1")
      case i: True
      have "parseCardSequence s1 (TokenText tok1) (cards @ [mkCard n 0]) = (tok, cards', None)"
        using 1(3) n True s1 i by (subst (asm) parseCardSequence.simps) auto
      from 1(1) [OF n True s1 [symmetric] i this] 1(4) v show ?thesis by auto
    next
      case False
      with 1(3,4) n True s1 v show ?thesis by (subst (asm) parseCardSequence.simps) auto
    qed
  next
    case False
    obtain color where i: "isIdent tok1" and color: "cardColor (TokenText tok1) = Some color"
      using 1(3) n False s1 by (subst (asm) parseCardSequence.simps) (auto split: if_splits option.splits)
    obtain tok2 s2 where s2: "Scan s1 = (tok2, s2)" by fastforce
    have v: "valid_card (mkCard n color)" using cardColor_valid [OF color] r False by (auto simp: valid_card_def)
    show ?thesis
    proof (cases "isIdent tok2 \<or> isInt tok2")
      case j: True
      have "parseCardSequence s2 (TokenText tok2) (cards @ [mkCard n color]) = (tok, cards', None)"
        using 1(3) n False s1 s2 i j color by (subst (asm) parseCardSequence.simps) auto
      with 1(2) [OF n False s1 [symmetric] _ color s2 [symmetric] j this] 1(4) v i show ?thesis by auto
    next
      case j: False
      with 1(3,4) n False s1 s2 i color v show ?thesis by (subst (asm) parseCardSequence.simps) auto
    qed
  qed
qed

lemma getColorFromString_valid: "getColorFromString w = (k, True) \<Longrightarrow> valid_color k"
  by (auto simp: getColorFromString_def valid_color_def Let_def split: if_splits)

lemma parseDrop_valid: "parseDrop s command = (tok, cmd, None) \<Longrightarrow> cmdCards command = [] \<Longrightarrow>
    cmdKind cmd = CmdDropCard \<and> (\<forall>c \<in> set (cmdCards cmd). valid_card c) \<and> cmdCards cmd \<noteq> [] \<and>
    cmdPlayerName cmd = cmdPlayerName command"
  by (auto simp: parseDrop_def Let_def dest!: parseCardSequence_valid split: prod.splits if_splits option.splits)

lemma parseWildColor_valid: "parseWildColor s command = (tok, cmd, None) \<Longrightarrow>
    cmdKind cmd = CmdSetWildCardColor \<and> (\<exists>k. cmdExtraData cmd = ColorData k \<and> valid_color k) \<and>
    cmdPlayerName cmd = cmdPlayerName command"
  by (auto simp: parseWildColor_def Let_def dest!: getColorFromString_valid split: prod.splits if_splits bool.splits)

lemma parseDraw_valid: "parseDraw s command = (tok, cmd, None) \<Longrightarrow>
    cmdKind cmd = CmdDrawCard \<and> cmdPlayerName cmd = cmdPlayerName command \<and> (tok = TokEOF \<longrightarrow> cmdCount cmd = 1)"
  by (auto simp: parseDraw_def Let_def split: if_splits option.splits)

lemma parseDump_valid: "parseDump s command = (tok, cmd, None) \<Longrightarrow>
    cmdKind cmd = CmdDumpDrawDeck \<and> cmdPlayerName cmd = cmdPlayerName command"
  by (auto simp: parseDump_def Let_def split: prod.splits if_splits option.splits)

lemma parseCommand_valid:
  assumes "parseCommand s tok p = (tok', cmd, None)"
  shows "cmdPlayerName cmd = p \<and>
    (cmdKind cmd = CmdDropCard \<longrightarrow> cmdCards cmd \<noteq> [] \<and> (\<forall>c \<in> set (cmdCards cmd). valid_card c)) \<and>
    (cmdKind cmd = CmdSetWildCardColor \<longrightarrow> (\<exists>k. cmdExtraData cmd = ColorData k \<and> valid_color k)) \<and>
    (cmdKind cmd = CmdDrawCard \<longrightarrow> tok' = TokEOF \<longrightarrow> cmdCount cmd = 1)"
  using assms unfolding parseCommand_def Let_def
  by (auto simp: simpleCommand_def NewReplCommand_def split: if_splits
      dest: parseDrop_valid parseWildColor_valid parseDraw_valid parseDump_valid)

lemma trim_space_prefix:
  assumes "xs \<noteq> []" "\<not> is_space (hd xs)" "\<not> is_space (last xs)"
  shows "trim_space (xs @ ys) = xs @ rev (dropWhile is_space (rev ys))"
proof -
  have "dropWhile is_space (xs @ ys) = xs @ ys" using assms(1,2) by (cases xs) simp_all
  moreover have "dropWhile is_space (rev xs) = rev xs" using assms(1,3) by (cases xs rule: rev_cases) simp_all
  ultimately show ?thesis by (auto simp: trim_space_def dropWhile_append dropWhile_eq_Nil_conv)
qed

lemma trim_space_id: "s \<noteq> [] \<Longrightarrow> \<not> is_space (hd s) \<Longrightarrow> \<not> is_space (last s) \<Longrightarrow> trim_space s = s"
  using trim_space_prefix [of s "[]"] by simp

lemma word_last: "isWord w \<Longrightarrow> \<not> is_space (last w)"
proof -
  assume w: "isWord w"
  have "list_all is_ident_part w" using w by (cases w) (auto simp: isWord_def is_ident_part_def)
  then have "is_ident_part (last w)" using w by (metis isWord_def last_in_set list_all_iff)
  then show ?thesis using char_classes(6,7) by (auto simp: is_ident_part_def)
qed

lemma joinWords_last: "ws \<noteq> [] \<Longrightarrow> \<forall>w \<in> set ws. isWord w \<Longrightarrow> joinWords ws \<noteq> [] \<and> \<not> is_space (last (joinWords ws))"
proof (cases ws rule: rev_cases)
  case (snoc vs w)
  assume "\<forall>w \<in> set ws. isWord w"
  with snoc have "isWord w" by simp
  then show ?thesis using snoc word_last by (auto simp: isWord_def)
qed simp

lemma cardWords_isWord: "valid_card c \<Longrightarrow> \<forall>w \<in> set (cardWords c). isWord w"
  using valid_numWord [of c] colorWord_ok [of "Color c"] by (auto simp: cardWords_def valid_card_def)

text \<open>Scanning a keyword of the language and a decimal number after it.\<close>

lemma Scan_keyword:
  "is_ident_start (hd k) \<Longrightarrow> k \<noteq> [] \<Longrightarrow> list_all is_ident_part (tl k) \<Longrightarrow> rest = [] \<or> hd rest = CHR '' '' \<Longrightarrow> Scan (k @ rest) = (TokIdent k, rest)"
  using Scan_ident [of "hd k" "tl k" rest] by (cases k) auto

lemma keyword_facts:
  "is_ident_start (hd ''drop'')" "list_all is_ident_part (tl ''drop'')" "is_ident_start (hd ''draw'')" "list_all is_ident_part (tl ''draw'')"
  "is_ident_start (hd ''connect'')" "list_all is_ident_part (tl ''connect'')"
  "to_lower ''drop'' = ''drop''" "to_lower ''draw'' = ''draw''"
  "\<not> is_space (CHR ''d'')" "\<not> is_space (CHR ''p'')" "\<not> is_space (CHR ''c'')" "\<not> is_space (CHR ''t'')"
  by code_simp+

lemma Scan_number:
  assumes "ds \<noteq> []" "list_all is_digit ds"
  shows "Scan ds = (TokInt ds, [])"
proof -
  obtain c cs where c: "ds = c # cs" using assms(1) by (cases ds) auto
  have x: "\<not> is_digit (CHR ''x'')" "\<not> is_digit (CHR ''X'')" "\<not> is_digit (CHR ''o'')" "\<not> is_digit (CHR ''O'')"
    "\<not> is_digit (CHR ''b'')" "\<not> is_digit (CHR ''B'')" by (simp_all add: is_digit_def)
  have "numberBody ds = (False, ds)" using assms(2) x by (cases cs) (auto simp: c numberBody_def)
  moreover have "numberDigits False ds = []" using assms(2) by (auto simp: numberDigits_def dropWhile_eq_Nil_conv list_all_iff)
  ultimately have "scanNumber ds = (True, [])" by (simp add: scanNumber_def)
  then show ?thesis using assms(2) char_classes(2,3) by (simp add: c Scan.simps)
qed

lemma ParseCommandFromInput_valid:
  assumes "ParseCommandFromInput input playerName = (cmd, None)"
  shows "cmdPlayerName cmd = playerName \<and>
    (cmdKind cmd = CmdDropCard \<longrightarrow> cmdCards cmd \<noteq> [] \<and> (\<forall>c \<in> set (cmdCards cmd). valid_card c)) \<and>
    (cmdKind cmd = CmdSetWildCardColor \<longrightarrow> (\<exists>k. cmdExtraData cmd = ColorData k \<and> valid_color k)) \<and>
    (cmdKind cmd = CmdDrawCard \<longrightarrow> cmdCount cmd = 1)"
proof -
  obtain tok s where s: "Scan (trim_space input) = (tok, s)" by fastforce
  show ?thesis
  proof (cases "tok = TokIdent ''connect''")
    case True
    with assms s show ?thesis
      by (auto simp: ParseCommandFromInput_def parseConnectCommand_def NewReplCommand_def Let_def split: option.splits)
  next
    case False
    with assms s have "parseCommand s tok playerName = (TokEOF, cmd, None)"
      by (auto simp: ParseCommandFromInput_def Let_def split: prod.splits option.splits if_splits)
    from parseCommand_valid [OF this] show ?thesis by simp
  qed
qed

section \<open>Properties\<close>

text \<open>C33. Dropping cards round-trips: writing any non-empty list of valid cards as a \<open>drop\<close> command, by
  number or action name and colour, and parsing the text gives the command to drop exactly those
  cards in that order.\<close>

theorem drop_command_roundtrip:
  assumes "cs \<noteq> []" "\<forall>c \<in> set cs. valid_card c"
  shows "ParseCommandFromInput (''drop'' @ joinWords (concat (map cardWords cs))) playerName =
    ((NewReplCommand CmdDropCard playerName)\<lparr>cmdCards := cs\<rparr>, None)"
proof -
  obtain d ds where d: "cs = d # ds" using assms(1) by (cases cs) auto
  let ?ws = "concat (map cardWords cs)" and ?w = "hd (cardWords d)" and ?vs = "tl (cardWords d) @ concat (map cardWords ds)"
  have vd: "valid_card d" "\<forall>c \<in> set ds. valid_card c" using assms(2) d by auto
  have ws: "?ws = ?w # ?vs" using cardWords_Cons(4) [of d] by (metis append_Cons concat.simps(2) list.simps(9) d)
  have "\<forall>w \<in> set ?ws. isWord w" using assms(2) cardWords_isWord by auto
  then have l: "joinWords ?ws \<noteq> []" "\<not> is_space (last (joinWords ?ws))" using joinWords_last [of ?ws] ws by simp_all
  have "trim_space (''drop'' @ joinWords ?ws) = ''drop'' @ joinWords ?ws"
    using l keyword_facts(9) by (intro trim_space_id) simp_all
  moreover have "Scan (''drop'' @ joinWords ?ws) = (TokIdent ''drop'', joinWords ?ws)"
    using keyword_facts(1,2) unfolding ws by (intro Scan_keyword) simp_all
  moreover have w: "isWord ?w" using valid_numWord [OF vd(1)] by (simp add: cardWords_Cons(3))
  have sc: "Scan (joinWords ?ws) = (tokOf ?w, joinWords ?vs)" unfolding ws by (rule Scan_word [OF w])
  have "parseCommand (joinWords ?ws) (TokIdent ''drop'') playerName =
      (TokEOF, (NewReplCommand CmdDropCard playerName)\<lparr>cmdCards := cs\<rparr>, None)"
    using sc tokOf_kind [OF w] cardWords_parse [OF vd, of "[]"] unfolding d
    by (auto simp: parseCommand_def parseDrop_def NewReplCommand_def keyword_facts(7) Let_def
        simp del: joinWords_simps concat.simps list.map)
  ultimately show ?thesis by (simp add: ParseCommandFromInput_def del: joinWords_simps)
qed

theorem drop_command_roundtrip_witness:
  "ParseCommandFromInput ''drop 7 blue wild skip red'' ''al'' =
     ((NewReplCommand CmdDropCard ''al'')\<lparr>cmdCards := [mkCard 7 3, mkCard 13 0, mkCard 10 1]\<rparr>, None)"
proof -
  have v: "\<forall>c \<in> set [mkCard 7 3, mkCard 13 0, mkCard 10 1]. valid_card c" by (simp add: valid_card_def valid_color_def IsWild_def)
  have t: "''drop'' @ joinWords (concat (map cardWords [mkCard 7 3, mkCard 13 0, mkCard 10 1])) = ''drop 7 blue wild skip red''"
    by (simp add: cardWords_def IsWild_def numWord_def ColorString_def show_digit)
  show ?thesis using drop_command_roundtrip [OF _ v, of "''al''"] unfolding t by simp
qed

text \<open>C34. Every command the parser accepts is well-formed: it carries the player's name, a drop command
  names at least one card and only cards of the game, a colour command one of the four colours, and a
  draw command draws one card.\<close>

theorem parsed_command_valid:
  assumes "ParseCommandFromInput input playerName = (cmd, None)"
  shows "cmdPlayerName cmd = playerName \<and>
    (cmdKind cmd = CmdDropCard \<longrightarrow> cmdCards cmd \<noteq> [] \<and> (\<forall>c \<in> set (cmdCards cmd). valid_card c)) \<and>
    (cmdKind cmd = CmdSetWildCardColor \<longrightarrow> (\<exists>k. cmdExtraData cmd = ColorData k \<and> valid_color k)) \<and>
    (cmdKind cmd = CmdDrawCard \<longrightarrow> cmdCount cmd = 1)"
  using assms by (rule ParseCommandFromInput_valid)

theorem parsed_command_valid_witness:
  "\<exists>cmd. ParseCommandFromInput ''wild_color green'' ''al'' = (cmd, None) \<and> cmdPlayerName cmd = ''al'' \<and> cmdKind cmd = CmdSetWildCardColor"
proof -
  have e: "ParseCommandFromInput ''wild_color green'' ''al'' =
      ((NewReplCommand CmdSetWildCardColor ''al'')\<lparr>cmdExtraData := ColorData 2\<rparr>, None)" by code_simp
  from parsed_command_valid [OF e] e show ?thesis by (simp add: NewReplCommand_def)
qed

text \<open>The documented \<open>connect REMOTE_ADDRESS\<close> is never accepted: whatever follows \<open>connect\<close> and a
  space, the parser reports that it expected a connect command.\<close>

theorem connect_always_rejected:
  "snd (ParseCommandFromInput (''connect '' @ addr) playerName) = Some ExpectedConnect"
proof -
  define r where "r = rev (dropWhile is_space (rev (CHR '' '' # addr)))"
  have t: "trim_space (''connect '' @ addr) = ''connect'' @ r"
    using trim_space_prefix [of "''connect''" "CHR '' '' # addr"] keyword_facts(11,12) by (simp add: r_def)
  have sp: "is_space (CHR '' '')" by (simp add: is_space_def)
  have r: "r = [] \<or> hd r = CHR '' ''"
    using sp by (auto simp: r_def dropWhile_append hd_append)
  have "Scan (''connect'' @ r) = (TokIdent ''connect'', r)" using r keyword_facts(5,6) by (intro Scan_keyword) simp_all
  moreover have "trim_space (''connect'' @ r) = ''connect'' @ r"
    using trim_space_prefix [of "''connect''" r] keyword_facts(11,12) by (simp add: r_def dropWhile_idem)
  moreover have "connectAddr (''connect'' @ r) = None" using r by (cases r) (auto simp: connectAddr_def Let_def)
  ultimately show ?thesis unfolding ParseCommandFromInput_def parseConnectCommand_def t Let_def by simp
qed

text \<open>The documented \<open>draw NUMBER\<close> is never accepted, for any number; a bare \<open>draw\<close> is.\<close>

theorem draw_with_count_rejected:
  "snd (ParseCommandFromInput (''draw '' @ show_nat n) playerName) \<noteq> None \<and>
   ParseCommandFromInput ''draw'' playerName = ((NewReplCommand CmdDrawCard playerName)\<lparr>cmdCount := 1\<rparr>, None)"
proof -
  have ds: "show_nat n \<noteq> []" "list_all is_digit (show_nat n)" using show_nat_digits by auto
  then have "is_digit (last (show_nat n))" by (metis last_in_set list_all_iff)
  then have t: "trim_space (''draw '' @ show_nat n) = ''draw '' @ show_nat n"
    using ds(1) char_classes(7) keyword_facts(9) by (intro trim_space_id) simp_all
  have "Scan (''draw'' @ CHR '' '' # show_nat n) = (TokIdent ''draw'', CHR '' '' # show_nat n)"
    using keyword_facts(3,4) by (intro Scan_keyword) simp_all
  then have s: "Scan (''draw '' @ show_nat n) = (TokIdent ''draw'', CHR '' '' # show_nat n)" by simp
  have "Scan (CHR '' '' # show_nat n) = (TokInt (show_nat n), [])"
    using Scan_number [OF ds] char_classes(5) by (simp add: Scan.simps(2) [of "CHR '' ''"])
  then have "snd (ParseCommandFromInput (''draw '' @ show_nat n) playerName) \<noteq> None"
    using t s by (auto simp: ParseCommandFromInput_def parseCommand_def parseDraw_def keyword_facts(8) Let_def split: option.split)
  moreover have "trim_space ''draw'' = ''draw''" "Scan ''draw'' = (TokIdent ''draw'', [])"
    "to_lower ''draw'' = ''draw''" by code_simp+
  then have "ParseCommandFromInput ''draw'' playerName = ((NewReplCommand CmdDrawCard playerName)\<lparr>cmdCount := 1\<rparr>, None)"
    by (simp add: ParseCommandFromInput_def parseCommand_def parseDraw_def NewReplCommand_def)
  ultimately show ?thesis ..
qed

end
