(* ===== verification/HandReader.thy ===== *)
theory HandReader
  imports Complex_Main Tables ReplCommand "HOL-Library.AList"
begin

text \<open>
  The hand configuration reader (\<open>hand_reader/hand_reader.go\<close>): from a decoded JSON object to a table
  in the middle of a game.  JSON values are a datatype, numbers are rational (every \<open>float64\<close> is one),
  and an object is the list of its entries in the order a \<open>range\<close> loop visits them.  Maps that the
  reader builds are association lists; each loop over one takes a rearrangement, so that every
  iteration order is covered.  A failed type assertion without the \<open>ok\<close> result panics.
\<close>

section \<open>Data\<close>

datatype JSON =
    JNull
  | JBool bool
  | JNum rat
  | JStr string
  | JArr "JSON list"
  | JObj "(string \<times> JSON) list"

record handDesc =
  cardsOfColor :: "(Color \<times> Card list) list"
  drawUptoTotal :: int

record serializedJSON =
  handDescOfPlayer :: "(string \<times> handDesc) list"
  discardedPileSize :: int
  playerToDraw :: string
  presetDiscardPileTop :: Deck

datatype HandReaderError =
    PlayerDescError string HandReaderError
  | ExpectedInteger
  | ErrUnknownKey string
  | UnknownColorKey string
  | UnknownSpecial string
  | NotANumberOrString
  | NotAnObject
  | NotANumberList string
  | CardIndexError nat HandReaderError
  | DrawUptoError
  | ErrUnexpectedJSONType nat
  | InvalidPresetNumber nat
  | ExpectedTuple nat
  | ErrCouldNotRemoveCard Card
  | PresetCardSetup HandReaderError
  | AddPlayerError TableError
  | ConfigFileError string

text \<open>\<open>int(f)\<close> of a \<open>float64\<close>: towards zero.\<close>

definition truncate :: "rat \<Rightarrow> int" where
  "truncate r = (if r < 0 then - \<lfloor>- r\<rfloor> else \<lfloor>r\<rfloor>)"

section \<open>Reading the description\<close>

definition colorFromKey :: "string \<Rightarrow> HandReaderError + Color" where
  "colorFromKey colorKey =
     (let k = to_lower colorKey in
      if k = ''red'' then Inr ColorRed
      else if k = ''blue'' then Inr ColorBlue
      else if k = ''green'' then Inr ColorGreen
      else if k = ''yellow'' then Inr ColorYellow
      else if k = ''wild'' then Inr ColorWild
      else Inl (UnknownColorKey colorKey))"

definition numberFromSpecial :: "string \<Rightarrow> HandReaderError + Number" where
  "numberFromSpecial special =
     (let k = to_lower special in
      if k = ''skip'' then Inr NumberSkip
      else if k = ''reverse'' then Inr NumberReverse
      else if k = ''draw_2'' then Inr NumberDrawTwo
      else if k = ''wild'' then Inr NumberWild
      else if k = ''wild_draw_4'' then Inr NumberWildDrawFour
      else Inl (UnknownSpecial special))"

fun tryCastNumber :: "JSON \<Rightarrow> HandReaderError + Number" where
  "tryCastNumber (JNum number) =
     (if number \<noteq> of_int \<lfloor>number\<rfloor> then Inl ExpectedInteger else Inr (truncate number))"
| "tryCastNumber (JStr specialString) = numberFromSpecial specialString"
| "tryCastNumber _ = Inl NotANumberOrString"

fun castDrawUptoLoop :: "(string \<times> JSON) list \<Rightarrow> int \<Rightarrow> HandReaderError + int" where
  "castDrawUptoLoop [] tot = Inr tot"
| "castDrawUptoLoop ((key, value) # es) tot =
     (if key = ''total'' then
        (case value of JNum n \<Rightarrow> castDrawUptoLoop es (truncate n) | _ \<Rightarrow> Inl DrawUptoError)
      else castDrawUptoLoop es tot)"

definition castDrawUpto :: "JSON \<Rightarrow> HandReaderError + int" where
  "castDrawUpto v = (case v of JObj object \<Rightarrow> castDrawUptoLoop object 0 | _ \<Rightarrow> Inl DrawUptoError)"

fun castNumbers :: "nat \<Rightarrow> Color \<Rightarrow> JSON list \<Rightarrow> Card list \<Rightarrow> HandReaderError + Card list" where
  "castNumbers i color [] cards = Inr cards"
| "castNumbers i color (numberIF # ns) cards =
     (case tryCastNumber numberIF of
        Inl err \<Rightarrow> Inl (CardIndexError i err)
      | Inr number \<Rightarrow> castNumbers (Suc i) color ns (cards @ [mkCard number color]))"

text \<open>The description before its entries are read: the four colours with no cards, as \<open>make\<close>
  leaves them.\<close>

definition emptyHandDesc :: handDesc where
  "emptyHandDesc =
     \<lparr>cardsOfColor = [(ColorRed, []), (ColorBlue, []), (ColorGreen, []), (ColorYellow, [])], drawUptoTotal = 0\<rparr>"

fun castHandDescLoop :: "(string \<times> JSON) list \<Rightarrow> handDesc \<Rightarrow> HandReaderError + handDesc" where
  "castHandDescLoop [] hdesc = Inr hdesc"
| "castHandDescLoop ((key, valueIF) # es) hdesc =
     (if key = ''draw_upto'' then
        (case castDrawUpto valueIF of
           Inl err \<Rightarrow> Inl err
         | Inr tot \<Rightarrow> castHandDescLoop es (hdesc\<lparr>drawUptoTotal := tot\<rparr>))
      else case colorFromKey key of
        Inl err \<Rightarrow> Inl err
      | Inr color \<Rightarrow>
          (case valueIF of
             JArr numberList \<Rightarrow>
               (let old = (case map_of (cardsOfColor hdesc) color of None \<Rightarrow> [] | Some cs \<Rightarrow> cs) in
                case castNumbers 0 color numberList old of
                  Inl err \<Rightarrow> Inl err
                | Inr cards \<Rightarrow>
                    castHandDescLoop es
                      (if numberList = [] then hdesc else hdesc\<lparr>cardsOfColor := AList.update color cards (cardsOfColor hdesc)\<rparr>))
           | _ \<Rightarrow> Inl (NotANumberList key)))"

definition castHandDescMap :: "JSON \<Rightarrow> HandReaderError + handDesc" where
  "castHandDescMap handDescIF =
     (case handDescIF of JObj handDescMap \<Rightarrow> castHandDescLoop handDescMap emptyHandDesc | _ \<Rightarrow> Inl NotAnObject)"

definition presetWild :: "nat \<Rightarrow> JSON \<Rightarrow> HandReaderError + Card" where
  "presetWild i v =
     (case v of
        JStr name \<Rightarrow>
          (if name = ''wild'' then Inr (mkCard NumberWild ColorWild)
           else if name = ''wild_draw_4'' then Inr (mkCard NumberWildDrawFour ColorWild)
           else Inl (ErrUnexpectedJSONType i))
      | _ \<Rightarrow> Inl (ErrUnexpectedJSONType i))"

definition presetColor :: "nat \<Rightarrow> JSON \<Rightarrow> HandReaderError + Color" where
  "presetColor i v =
     (case v of
        JStr name \<Rightarrow>
          (if name = ''red'' then Inr ColorRed
           else if name = ''blue'' then Inr ColorBlue
           else if name = ''yellow'' then Inr ColorYellow
           else if name = ''green'' then Inr ColorGreen
           else Inl (ErrUnexpectedJSONType i))
      | _ \<Rightarrow> Inl (ErrUnexpectedJSONType i))"

definition presetNumber :: "nat \<Rightarrow> JSON \<Rightarrow> HandReaderError + Number" where
  "presetNumber i v =
     (case v of
        JNum number \<Rightarrow> (if 0 \<le> number \<and> number \<le> 9 then Inr (truncate number) else Inl (InvalidPresetNumber i))
      | JStr name \<Rightarrow>
          (if name = ''skip'' then Inr NumberSkip
           else if name = ''reverse'' then Inr NumberReverse
           else if name = ''draw_2'' then Inr NumberDrawTwo
           else Inl (InvalidPresetNumber i))
      | _ \<Rightarrow> Inl (ErrUnexpectedJSONType i))"

definition presetCard :: "nat \<Rightarrow> JSON \<Rightarrow> HandReaderError + Card" where
  "presetCard i cardDesc =
     (case cardDesc of
        JArr [v] \<Rightarrow> presetWild i v
      | JArr [c, n] \<Rightarrow>
          (case presetColor i c of
             Inl err \<Rightarrow> Inl err
           | Inr color \<Rightarrow> (case presetNumber i n of Inl err \<Rightarrow> Inl err | Inr number \<Rightarrow> Inr (mkCard number color)))
      | JArr _ \<Rightarrow> Inl (ExpectedTuple i)
      | _ \<Rightarrow> Inl (ErrUnexpectedJSONType i))"

fun presetLoop :: "nat \<Rightarrow> JSON list \<Rightarrow> Deck \<Rightarrow> HandReaderError + Deck" where
  "presetLoop i [] pile = Inr pile"
| "presetLoop i (d # ds) pile =
     (case presetCard i d of Inl err \<Rightarrow> Inl err | Inr c \<Rightarrow> presetLoop (Suc i) ds (Push pile [c]))"

text \<open>The loop that swaps the ends inwards reverses the pile.\<close>

function reverseLoop :: "nat \<Rightarrow> int \<Rightarrow> 'a list \<Rightarrow> 'a list" where
  "reverseLoop i j xs = (if int i < j then reverseLoop (Suc i) (j - 1) (swapAt xs i (nat j)) else xs)"
  by pat_completeness auto
termination
  by (relation "measure (\<lambda>(i, j, _). nat (j - int i))") auto

definition parsePresetDiscardPileTop :: "JSON \<Rightarrow> HandReaderError + Deck" where
  "parsePresetDiscardPileTop value =
     (case value of
        JArr array \<Rightarrow>
          (case presetLoop 0 array [] of
             Inl err \<Rightarrow> Inl err
           | Inr pile \<Rightarrow> Inr (reverseLoop 0 (int (length pile) - 1) pile))
      | _ \<Rightarrow> Inl (ErrUnexpectedJSONType 0))"

text \<open>The loop of \<open>LoadConfig\<close> over the top-level entries.\<close>

definition emptyConfig :: serializedJSON where
  "emptyConfig = \<lparr>handDescOfPlayer = [], discardedPileSize = 0, playerToDraw = [], presetDiscardPileTop = []\<rparr>"

fun loadLoop :: "(string \<times> JSON) list \<Rightarrow> serializedJSON \<Rightarrow> (HandReaderError + serializedJSON) option" where
  "loadLoop [] cfg = Some (Inr cfg)"
| "loadLoop ((key, value) # es) cfg =
     (if take 7 key = ''player.'' then
        (case castHandDescMap value of
           Inl err \<Rightarrow> Some (Inl (PlayerDescError (drop 7 key) err))
         | Inr desc \<Rightarrow> loadLoop es (cfg\<lparr>handDescOfPlayer := AList.update (drop 7 key) desc (handDescOfPlayer cfg)\<rparr>))
      else if key = ''discarded_pile_size'' then
        (case value of
           JNum number \<Rightarrow> loadLoop es (cfg\<lparr>discardedPileSize := truncate number\<rparr>)
         | _ \<Rightarrow> Some (Inl ExpectedInteger))
      else if key = ''shuffle_seed'' then
        (case value of JNum _ \<Rightarrow> loadLoop es cfg | _ \<Rightarrow> None)
      else if key = ''player_of_next_turn'' then
        (case value of JStr s \<Rightarrow> loadLoop es (cfg\<lparr>playerToDraw := trim_space s\<rparr>) | _ \<Rightarrow> None)
      else if key = ''preset_discard_pile_top'' then
        (case parsePresetDiscardPileTop value of
           Inl err \<Rightarrow> Some (Inl err)
         | Inr pile \<Rightarrow> loadLoop es (cfg\<lparr>presetDiscardPileTop := pile\<rparr>))
      else Some (Inl (ErrUnknownKey key)))"

section \<open>Building the table\<close>

type_synonym counts = "(32 word \<times> int) list"

definition getCount :: "counts \<Rightarrow> 32 word \<Rightarrow> int" where
  "getCount al e = map_get 0 (map_of al) e"

fun countCards :: "Deck \<Rightarrow> counts \<Rightarrow> counts" where
  "countCards [] al = al"
| "countCards (c # cs) al =
     countCards cs (AList.update (EncodeUint32 c) (getCount al (EncodeUint32 c) + 1) al)"

fun removeCardsFromDeck :: "Card list \<Rightarrow> counts \<Rightarrow> HandReaderError option \<times> counts" where
  "removeCardsFromDeck [] al = (None, al)"
| "removeCardsFromDeck (c # cs) al =
     (let enc = EncodeUint32 c; n = getCount al enc in
      if n = 0 then (Some (ErrCouldNotRemoveCard c), al)
      else removeCardsFromDeck cs (AList.update enc (n - 1) al))"

fun giveColors :: "string \<Rightarrow> (Color \<times> Card list) list \<Rightarrow> counts \<Rightarrow> Table \<Rightarrow> HandReaderError option \<times> counts \<times> Table" where
  "giveColors p [] al t = (None, al, t)"
| "giveColors p ((_, cards) # es) al t =
     (case removeCardsFromDeck cards al of
        (Some err, al) \<Rightarrow> (Some err, al, t)
      | (None, al) \<Rightarrow>
          giveColors p es al (t\<lparr>HandOfPlayer := (HandOfPlayer t)(p \<mapsto> Push (handOf t p) cards)\<rparr>))"

fun giveHands ::
  "(string \<Rightarrow> (Color \<times> Card list) swaps) \<Rightarrow> (string \<times> handDesc) list \<Rightarrow> counts \<Rightarrow> Table \<Rightarrow> HandReaderError option \<times> counts \<times> Table" where
  "giveHands ordC [] al t = (None, al, t)"
| "giveHands ordC ((playerName, desc) # es) al t =
     (case AddPlayer playerName t of
        (Some err, t) \<Rightarrow> (Some (AddPlayerError err), al, t)
      | (None, t) \<Rightarrow>
          (case giveColors playerName (goSort (ordC playerName) (cardsOfColor desc)) al t of
             (Some err, al, t) \<Rightarrow> (Some err, al, t)
           | (None, al, t) \<Rightarrow> giveHands ordC es al t))"

fun remainingDeck :: "counts \<Rightarrow> Deck \<Rightarrow> Deck option" where
  "remainingDeck [] d = Some d"
| "remainingDeck ((e, n) # al) d =
     (if n \<le> 0 then remainingDeck al d
      else do { c \<leftarrow> MustDecodeCardFromUint32 e; remainingDeck al (d @ replicate (nat n) c) })"

fun discardLoop :: "nat \<Rightarrow> Deck \<Rightarrow> Deck \<Rightarrow> (Deck \<times> Deck) option" where
  "discardLoop 0 pile d = Some (pile, d)"
| "discardLoop (Suc k) pile d = do {
     c \<leftarrow> MustTop d;
     d \<leftarrow> MustPop d;
     let pile = Push pile [c];
     d \<leftarrow> MustPop d;
     discardLoop k pile d
   }"

text \<open>The end of \<open>makeTable\<close>, after the draw deck has been rebuilt.\<close>

definition finishTable :: "serializedJSON \<Rightarrow> Table \<Rightarrow> Table option" where
  "finishTable cfg t = do {
     let k = discardedPileSize cfg - Len (DiscardedPile t);
     t \<leftarrow> (if k > 0 then do {
              (pile, d) \<leftarrow> discardLoop (nat k) NewEmptyDeck (DrawDeck t);
              Some (t\<lparr>DrawDeck := d, DiscardedPile := pile @ DiscardedPile t\<rparr>)
            } else Some t);
     c \<leftarrow> MustTop (DiscardedPile t);
     Some (t\<lparr>RequiredColorOfCurrentTurn := Color c, RequiredNumberOfCurrentTurn := Number c, IsShuffled := True,
             PlayerOfNextTurn := playerToDraw cfg, PlayerOfLastTurn := playerToDraw cfg, TableState := StartOfTurn\<rparr>)
   }"

definition makeTable ::
  "(string \<times> handDesc) swaps \<Rightarrow> (string \<Rightarrow> (Color \<times> Card list) swaps) \<Rightarrow> (32 word \<times> int) swaps \<Rightarrow> serializedJSON \<Rightarrow> Table \<Rightarrow> (HandReaderError option \<times> Table) option" where
  "makeTable ordP ordC ordE cfg t =
     (let al = countCards (DrawDeck t) [] in
      case removeCardsFromDeck (presetDiscardPileTop cfg) al of
        (Some err, al) \<Rightarrow> Some (Some (PresetCardSetup err), t)
      | (None, al) \<Rightarrow>
          (let t = t\<lparr>DiscardedPile := Push (DiscardedPile t) (presetDiscardPileTop cfg)\<rparr> in
           case giveHands ordC (goSort ordP (handDescOfPlayer cfg)) al t of
             (Some err, al, t) \<Rightarrow> Some (Some err, t)
           | (None, al, t) \<Rightarrow> do {
               newDrawDeck \<leftarrow> remainingDeck (goSort ordE al) NewEmptyDeck;
               t \<leftarrow> finishTable cfg (t\<lparr>DrawDeck := newDrawDeck\<rparr>);
               Some (None, t)
             }))"

definition LoadConfig ::
  "(string \<times> handDesc) swaps \<Rightarrow> (string \<Rightarrow> (Color \<times> Card list) swaps) \<Rightarrow> (32 word \<times> int) swaps \<Rightarrow> (string \<times> JSON) list \<Rightarrow> Table \<Rightarrow> (HandReaderError option \<times> Table) option" where
  "LoadConfig ordP ordC ordE j t =
     (case loadLoop j emptyConfig of
        None \<Rightarrow> None
      | Some (Inl err) \<Rightarrow> Some (Some err, t)
      | Some (Inr cfg) \<Rightarrow> makeTable ordP ordC ordE cfg t)"

text \<open>Opening, reading and decoding the file is the parameter \<open>readFile\<close>: an error text or the decoded
  object.\<close>

definition LoadConfigFromFile ::
  "(string \<Rightarrow> string + (string \<times> JSON) list) \<Rightarrow> (string \<times> handDesc) swaps \<Rightarrow> (string \<Rightarrow> (Color \<times> Card list) swaps) \<Rightarrow>
   (32 word \<times> int) swaps \<Rightarrow> string \<Rightarrow> Table \<Rightarrow> (HandReaderError option \<times> Table) option" where
  "LoadConfigFromFile readFile ordP ordC ordE filepath t =
     (case readFile filepath of
        Inl err \<Rightarrow> Some (Some (ConfigFileError err), t)
      | Inr j \<Rightarrow> LoadConfig ordP ordC ordE j t)"

section \<open>Lemmas\<close>

text \<open>The counts as a multiset of cards.\<close>

definition decodeCard :: "32 word \<Rightarrow> Card" where
  "decodeCard e = (case DecodeCardFromUint32 e of Inr c \<Rightarrow> c | Inl _ \<Rightarrow> zeroCard)"

definition okCounts :: "counts \<Rightarrow> bool" where
  "okCounts al \<longleftrightarrow> distinct (map fst al) \<and> (\<forall>(e, n) \<in> set al. 0 \<le> n \<and> (\<exists>c. card_in_range c \<and> e = EncodeUint32 c))"

definition cardsOf :: "counts \<Rightarrow> Card multiset" where
  "cardsOf al = sum_list (map (\<lambda>(e, n). replicate_mset (nat n) (decodeCard e)) al)"

lemma decodeCard_encode: "card_in_range c \<Longrightarrow> decodeCard (EncodeUint32 c) = c"
  by (simp add: decodeCard_def decode_encode)

lemma cardsOf_simps [simp]: "cardsOf [] = {#}"
  "cardsOf ((e, n) # al) = replicate_mset (nat n) (decodeCard e) + cardsOf al"
  by (simp_all add: cardsOf_def)

lemma getCount_Cons: "getCount ((e, n) # al) x = (if e = x then n else getCount al x)"
  by (simp add: getCount_def map_get_def)

lemma getCount_absent: "e \<notin> fst ` set al \<Longrightarrow> getCount al e = 0"
  by (simp add: getCount_def map_get_def map_of_eq_None_iff [THEN iffD2])

lemma getCount_nonneg: "okCounts al \<Longrightarrow> 0 \<le> getCount al e"
  by (auto simp: getCount_def map_get_def okCounts_def split: option.split dest!: map_of_SomeD)

lemma cardsOf_update:
  assumes "distinct (map fst al)"
  shows "cardsOf (AList.update e v al) + replicate_mset (nat (getCount al e)) (decodeCard e) =
    cardsOf al + replicate_mset (nat v) (decodeCard e)"
  using assms
proof (induction al)
  case Nil
  show ?case by (simp add: getCount_absent)
next
  case (Cons a al)
  obtain x n where a: "a = (x, n)" by fastforce
  show ?case
  proof (cases "x = e")
    case True
    then show ?thesis by (simp add: a getCount_Cons ac_simps)
  next
    case False
    with Cons show ?thesis by (simp add: a getCount_Cons add.assoc)
  qed
qed

lemma okCounts_update: "okCounts al \<Longrightarrow> card_in_range c \<Longrightarrow> 0 \<le> v \<Longrightarrow> okCounts (AList.update (EncodeUint32 c) v al)"
proof -
  assume a: "okCounts al" "card_in_range c" "0 \<le> v"
  have "set (AList.update e v al) \<subseteq> insert (e, v) (set al)" for e
    by (induction al) auto
  with a show ?thesis unfolding okCounts_def by (auto simp: distinct_update split: prod.splits) blast+
qed

lemma countCards_ok:
  "okCounts al \<Longrightarrow> \<forall>c \<in> set d. card_in_range c \<Longrightarrow> okCounts (countCards d al) \<and> cardsOf (countCards d al) = cardsOf al + mset d"
proof (induction d arbitrary: al)
  case (Cons c d)
  let ?e = "EncodeUint32 c"
  let ?al = "AList.update ?e (getCount al ?e + 1) al"
  have c: "card_in_range c" using Cons.prems(2) by simp
  have g: "0 \<le> getCount al ?e" using Cons.prems(1) by (rule getCount_nonneg)
  have ok: "okCounts ?al" using Cons.prems(1) c g by (intro okCounts_update) simp_all
  have "cardsOf ?al + replicate_mset (nat (getCount al ?e)) c = cardsOf al + replicate_mset (nat (getCount al ?e + 1)) c"
    using cardsOf_update [of al ?e "getCount al ?e + 1"] Cons.prems(1) decodeCard_encode [OF c] by (simp add: okCounts_def)
  also have "\<dots> = cardsOf al + {#c#} + replicate_mset (nat (getCount al ?e)) c" using g by (simp add: nat_add_distrib)
  finally have "cardsOf ?al = cardsOf al + {#c#}" by simp
  with Cons.IH [OF ok] Cons.prems(2) show ?case by simp
qed simp

lemma removeCards_ok:
  "removeCardsFromDeck cs al = (None, al') \<Longrightarrow> okCounts al \<Longrightarrow> \<forall>c \<in> set cs. card_in_range c \<Longrightarrow>
     okCounts al' \<and> cardsOf al = cardsOf al' + mset cs"
proof (induction cs arbitrary: al)
  case (Cons c cs)
  let ?e = "EncodeUint32 c"
  let ?al = "AList.update ?e (getCount al ?e - 1) al"
  have c: "card_in_range c" using Cons.prems(3) by simp
  have g: "0 < getCount al ?e" using Cons.prems(1) getCount_nonneg [OF Cons.prems(2), of ?e] by (auto simp: Let_def split: if_splits)
  have r: "removeCardsFromDeck cs ?al = (None, al')" using Cons.prems(1) g by (simp add: Let_def)
  have ok: "okCounts ?al" using Cons.prems(2) c g by (intro okCounts_update) simp_all
  have "nat (getCount al ?e) = Suc (nat (getCount al ?e - 1))" using g by linarith
  then have "cardsOf ?al + {#c#} + replicate_mset (nat (getCount al ?e - 1)) c = cardsOf al + replicate_mset (nat (getCount al ?e - 1)) c"
    using cardsOf_update [of al ?e "getCount al ?e - 1"] Cons.prems(2) decodeCard_encode [OF c] by (simp add: okCounts_def)
  then have "cardsOf al = cardsOf ?al + {#c#}" by simp
  with Cons.IH [OF r ok] Cons.prems(3) show ?case by simp
qed simp

lemma counts_perm: "okCounts (goSort ord al) = okCounts al" "cardsOf (goSort ord al) = cardsOf al"
proof -
  have m: "mset (map f (goSort ord al)) = mset (map f al)" for f :: "_ \<Rightarrow> 'x" by (simp only: mset_map mset_goSort)
  then have "distinct (map fst (goSort ord al)) = distinct (map fst al)" by (intro mset_eq_imp_distinct_iff)
  then show "okCounts (goSort ord al) = okCounts al" by (simp add: okCounts_def)
  have "sum_mset (mset (map f (goSort ord al))) = sum_mset (mset (map f al))" for f :: "_ \<Rightarrow> Card multiset" by (simp only: m)
  then show "cardsOf (goSort ord al) = cardsOf al" unfolding cardsOf_def by (simp only: sum_mset_sum_list)
qed

lemma remainingDeck_ok: "okCounts al \<Longrightarrow> \<exists>d'. remainingDeck al d = Some d' \<and> mset d' = mset d + cardsOf al"
proof (induction al arbitrary: d)
  case (Cons a al)
  obtain e n where a: "a = (e, n)" by fastforce
  have ok: "okCounts al" using Cons.prems by (auto simp: okCounts_def)
  from Cons.prems a obtain c where c: "card_in_range c" "e = EncodeUint32 c" by (auto simp: okCounts_def)
  have dc: "MustDecodeCardFromUint32 e = Some c" using c by (simp add: MustDecodeCardFromUint32_def decode_encode)
  have "decodeCard e = c" using c decodeCard_encode by simp
  then show ?case using Cons.IH [OF ok, of d] Cons.IH [OF ok, of "d @ replicate (nat n) c"] dc by (auto simp: a ac_simps)
qed simp

text \<open>The cards in play while the table is built: those still counted, the pile and the hands.\<close>

definition potCards :: "counts \<Rightarrow> Table \<Rightarrow> Card multiset" where
  "potCards al t = cardsOf al + mset (DiscardedPile t) + sum_list (map (\<lambda>p. mset (handOf t p)) (PlayerNames t))"

definition sameRest :: "Table \<Rightarrow> Table \<Rightarrow> bool" where
  "sameRest t t' \<longleftrightarrow> DrawDeck t' = DrawDeck t \<and> DiscardedPile t' = DiscardedPile t"

lemma wf_table_hand: "wf_table t \<Longrightarrow> p \<in> set (PlayerNames t) \<Longrightarrow> wf_table (t\<lparr>HandOfPlayer := (HandOfPlayer t)(p \<mapsto> h)\<rparr>)"
  unfolding wf_table_def wf_seating_def by auto

lemma giveColors_ok:
  "giveColors p es al t = (None, al', t') \<Longrightarrow> okCounts al \<Longrightarrow> wf_table t \<Longrightarrow> p \<in> set (PlayerNames t) \<Longrightarrow>
   \<forall>(k, cs) \<in> set es. \<forall>c \<in> set cs. card_in_range c \<Longrightarrow>
   okCounts al' \<and> wf_table t' \<and> PlayerNames t' = PlayerNames t \<and> sameRest t t' \<and> potCards al' t' = potCards al t"
proof (induction es arbitrary: al t)
  case (Cons e es)
  obtain k cs where e: "e = (k, cs)" by fastforce
  obtain al1 where r: "removeCardsFromDeck cs al = (None, al1)" "giveColors p es al1 (t\<lparr>HandOfPlayer := (HandOfPlayer t)(p \<mapsto> Push (handOf t p) cs)\<rparr>) = (None, al', t')"
    using Cons.prems(1) by (auto simp: e split: prod.splits option.splits)
  let ?t = "t\<lparr>HandOfPlayer := (HandOfPlayer t)(p \<mapsto> Push (handOf t p) cs)\<rparr>"
  have rm: "okCounts al1" "cardsOf al = cardsOf al1 + mset cs" using removeCards_ok [OF r(1) Cons.prems(2)] Cons.prems(5) by (auto simp: e)
  have w: "wf_table ?t" using Cons.prems(3,4) by (rule wf_table_hand)
  from Cons.IH [OF r(2) rm(1) w] Cons.prems(4,5)
  have IH: "okCounts al' \<and> wf_table t' \<and> PlayerNames t' = PlayerNames t \<and> sameRest t t' \<and> potCards al' t' = potCards al1 ?t"
    by (simp add: sameRest_def)
  let ?s = "\<lambda>m. sum_list (map (\<lambda>q. mset (map_get [] m q)) (PlayerNames t))"
  have "?s ((HandOfPlayer t)(p \<mapsto> Push (handOf t p) cs)) + mset (handOf t p) = ?s (HandOfPlayer t) + mset (Push (handOf t p) cs)"
    by (rule hands_update [OF wf_tableD(2) [OF Cons.prems(3)] Cons.prems(4)])
  then have "?s ((HandOfPlayer t)(p \<mapsto> Push (handOf t p) cs)) = ?s (HandOfPlayer t) + mset cs"
    by (simp add: Push_def ac_simps)
  then have "potCards al1 ?t = potCards al t" using rm(2) by (simp add: potCards_def ac_simps)
  with IH show ?case by simp
qed (simp add: sameRest_def)

lemma potCards_AddPlayer:
  assumes "wf_table t" "AddPlayer p t = (None, t')"
  shows "potCards al t' = potCards al t \<and> wf_table t' \<and> p \<in> set (PlayerNames t') \<and> sameRest t t'"
proof -
  have f: "p \<notin> set (PlayerNames t)" using assms(2) by (auto simp: AddPlayer_taken)
  have t': "t' = snd (AddPlayer p t)" using assms(2) by simp
  have "tableCards t' = tableCards t" unfolding t' using assms(1) by (rule tableCards_AddPlayer)
  moreover have r: "DrawDeck t' = DrawDeck t" "DiscardedPile t' = DiscardedPile t" "p \<in> set (PlayerNames t')"
    unfolding t' using f by (simp_all add: AddPlayer_fresh)
  ultimately have "sum_list (map (\<lambda>p. mset (handOf t' p)) (PlayerNames t')) = sum_list (map (\<lambda>p. mset (handOf t p)) (PlayerNames t))"
    by (simp add: tableCards_def)
  with r AddPlayer_wf [OF assms(1), of p] show ?thesis by (simp add: potCards_def sameRest_def t')
qed

definition describedOk :: "(string \<times> handDesc) list \<Rightarrow> bool" where
  "describedOk es \<longleftrightarrow> (\<forall>(p, desc) \<in> set es. \<forall>(k, cs) \<in> set (cardsOfColor desc). \<forall>c \<in> set cs. card_in_range c)"

lemma giveHands_ok:
  "giveHands ordC es al t = (None, al', t') \<Longrightarrow> okCounts al \<Longrightarrow> wf_table t \<Longrightarrow> describedOk es \<Longrightarrow>
   okCounts al' \<and> wf_table t' \<and> sameRest t t' \<and> potCards al' t' = potCards al t"
proof (induction es arbitrary: al t)
  case (Cons e es)
  obtain p desc where e: "e = (p, desc)" by fastforce
  obtain t1 al2 t2 where r: "AddPlayer p t = (None, t1)" "giveColors p (goSort (ordC p) (cardsOfColor desc)) al t1 = (None, al2, t2)"
    "giveHands ordC es al2 t2 = (None, al', t')"
    using Cons.prems(1) by (auto simp: e split: prod.splits option.splits)
  note a = potCards_AddPlayer [OF Cons.prems(3) r(1), of al]
  have d: "describedOk es" "\<forall>(k, cs) \<in> set (goSort (ordC p) (cardsOfColor desc)). \<forall>c \<in> set cs. card_in_range c"
    using Cons.prems(4) by (auto simp: describedOk_def e)
  have g: "okCounts al2 \<and> wf_table t2 \<and> PlayerNames t2 = PlayerNames t1 \<and> sameRest t1 t2 \<and> potCards al2 t2 = potCards al t1"
    using a by (intro giveColors_ok [OF r(2) Cons.prems(2) _ _ d(2)]) simp_all
  with Cons.IH [OF r(3) _ _ d(1)] a show ?case by (simp add: sameRest_def)
qed (simp add: sameRest_def)

lemma discardLoop_spec:
  "discardLoop k pile d = Some (pile', d') \<Longrightarrow>
     2 * k \<le> length d \<and> d' = take (length d - 2 * k) d \<and> length pile' = length pile + k \<and> mset pile' + mset d' \<subseteq># mset pile + mset d"
proof (induction k arbitrary: pile d)
  case (Suc k)
  obtain ds b a where d: "d = ds @ [b, a]"
  proof (cases d rule: rev_cases)
    case (snoc xs x)
    with Suc.prems show ?thesis by (cases xs rule: rev_cases) (auto simp: deck_eqs intro: that)
  qed (use Suc.prems in \<open>simp add: deck_eqs\<close>)
  have "butlast d = ds @ [b]" "last d = a" "butlast (butlast d) = ds" by (simp_all add: d butlast_append)
  with Suc.prems have r: "discardLoop k (pile @ [a]) ds = Some (pile', d')" by (simp add: deck_eqs d)
  from Suc.IH [OF r] have IH: "2 * k \<le> length ds" "d' = take (length ds - 2 * k) ds" "length pile' = Suc (length pile + k)"
    "mset pile' + mset d' \<subseteq># add_mset a (mset pile + mset ds)" by auto
  have "add_mset a (mset pile + mset ds) \<subseteq># mset pile + mset d" by (simp add: d)
  with IH show ?case by (simp add: d subset_mset.order_trans)
qed simp

lemma finishTable_spec:
  assumes "finishTable cfg t = Some t'"
  defines "k \<equiv> nat (discardedPileSize cfg - Len (DiscardedPile t))"
  shows "HandOfPlayer t' = HandOfPlayer t \<and> PlayerNames t' = PlayerNames t \<and> IndexOfPlayer t' = IndexOfPlayer t \<and> Direction t' = Direction t \<and>
    length (DrawDeck t) + length (DiscardedPile t) = length (DrawDeck t') + length (DiscardedPile t') + k \<and>
    mset (DrawDeck t') + mset (DiscardedPile t') \<subseteq># mset (DrawDeck t) + mset (DiscardedPile t)"
proof (cases "discardedPileSize cfg - Len (DiscardedPile t) > 0")
  case True
  then obtain pile d where l: "discardLoop k [] (DrawDeck t) = Some (pile, d)" "DrawDeck t' = d" "DiscardedPile t' = pile @ DiscardedPile t"
    "HandOfPlayer t' = HandOfPlayer t" "PlayerNames t' = PlayerNames t" "IndexOfPlayer t' = IndexOfPlayer t" "Direction t' = Direction t"
    using assms(1) by (auto simp: finishTable_def k_def option_bind_simps NewEmptyDeck_def Let_def)
  from discardLoop_spec [OF l(1)] have s: "2 * k \<le> length (DrawDeck t)" "d = take (length (DrawDeck t) - 2 * k) (DrawDeck t)"
    "length pile = k" "mset pile + mset d \<subseteq># mset (DrawDeck t)" by auto
  have "mset (DrawDeck t') + mset (DiscardedPile t') = (mset pile + mset d) + mset (DiscardedPile t)" by (simp add: l ac_simps)
  then have "mset (DrawDeck t') + mset (DiscardedPile t') \<subseteq># mset (DrawDeck t) + mset (DiscardedPile t)"
    using s(4) by (simp add: subset_mset.add_right_mono)
  with l s(1-3) show ?thesis by simp
next
  case False
  then show ?thesis using assms by (auto simp: finishTable_def option_bind_simps Let_def)
qed

text \<open>The swapping loop.\<close>

declare reverseLoop.simps [simp del]

lemma length_reverseLoop [simp]: "length (reverseLoop i j xs) = length xs"
proof (induction i j xs rule: reverseLoop.induct)
  case (1 i j xs)
  then show ?case by (cases "int i < j") (simp_all add: reverseLoop.simps [of i j xs])
qed

lemma reverseLoop_nth:
  "i + m + 1 = length xs \<Longrightarrow> k < length xs \<Longrightarrow>
   reverseLoop i (int m) xs ! k = (if i \<le> k \<and> k \<le> m then xs ! (i + m - k) else xs ! k)"
proof (induction m arbitrary: i xs rule: less_induct)
  case (less m)
  show ?case
  proof (cases "i < m")
    case True
    let ?ys = "swapAt xs i m"
    have b: "i < length xs" "m < length xs" using True less.prems(1) by simp_all
    have nth: "?ys ! l = (if l = m then xs ! i else if l = i then xs ! m else xs ! l)" if "l < length xs" for l
      using b that unfolding swapAt_def by (rule nth_swap_list)
    have step: "reverseLoop i (int m) xs = reverseLoop (Suc i) (int (m - 1)) ?ys"
      using True by (subst reverseLoop.simps) (simp add: of_nat_diff)
    have "reverseLoop (Suc i) (int (m - 1)) ?ys ! k = (if Suc i \<le> k \<and> k \<le> m - 1 then ?ys ! (Suc i + (m - 1) - k) else ?ys ! k)"
      using True less.prems by (intro less.IH) simp_all
    then have e: "reverseLoop i (int m) xs ! k = (if Suc i \<le> k \<and> k \<le> m - 1 then ?ys ! (i + m - k) else ?ys ! k)"
      using True step by simp
    consider (lo) "k = i" | (hi) "k = m" | (mid) "Suc i \<le> k" "k \<le> m - 1" | (out) "k < i \<or> m < k" using True by linarith
    then show ?thesis
    proof cases
      case mid
      then have "k \<le> m" "i + m - k \<noteq> i" "i + m - k \<noteq> m" "i + m - k < length xs" using True less.prems(1) by simp_all
      with mid e nth [of "i + m - k"] show ?thesis by simp
    qed (use e nth [of k] less.prems(2) True in auto)
  next
    case False
    have "k = i + m - k" if "i \<le> k" "k \<le> m" using that False by simp
    with False show ?thesis by (subst reverseLoop.simps) auto
  qed
qed

lemma reverseLoop_rev: "reverseLoop 0 (int (length xs) - 1) xs = rev xs"
proof (cases "xs = []")
  case False
  then have "reverseLoop 0 (int (length xs - 1)) xs ! k = rev xs ! k" if "k < length xs" for k
    using reverseLoop_nth [of 0 "length xs - 1" xs k] that less_Suc_eq_le [of k "length xs - 1"] by (simp add: rev_nth)
  then have "reverseLoop 0 (int (length xs - 1)) xs = rev xs" by (intro nth_equalityI) simp_all
  with False show ?thesis by (simp add: of_nat_diff Suc_le_eq)
qed (simp add: reverseLoop.simps)

section \<open>Writing a pile\<close>

definition cardJSON :: "Card \<Rightarrow> JSON" where
  "cardJSON c =
     (if Number c = NumberWild then JArr [JStr ''wild'']
      else if Number c = NumberWildDrawFour then JArr [JStr ''wild_draw_4'']
      else JArr [JStr (ColorString (Color c)),
        (if Number c = NumberSkip then JStr ''skip''
         else if Number c = NumberReverse then JStr ''reverse''
         else if Number c = NumberDrawTwo then JStr ''draw_2''
         else JNum (of_int (Number c)))])"

lemma truncate_of_int [simp]: "truncate (of_int n) = n"
  by (simp add: truncate_def)

lemma presetCard_cardJSON:
  assumes "valid_card c"
  shows "presetCard i (cardJSON c) = Inr c"
proof (cases "IsWild c")
  case True
  with assms show ?thesis by (cases c) (auto simp: valid_card_def IsWild_def cardJSON_def presetCard_def presetWild_def)
next
  case False
  with assms have v: "valid_color (Color c)" "0 \<le> Number c" "Number c \<le> 12" by (auto simp: valid_card_def)
  have k: "presetColor i (JStr (ColorString (Color c))) = Inr (Color c)"
    using color_enum [OF v(1)] by (auto simp: presetColor_def ColorString_def)
  have "Number c \<le> 9 \<or> Number c = 10 \<or> Number c = 11 \<or> Number c = 12" using v(3) by linarith
  with v(2) False k show ?thesis
    by (cases c) (auto simp: cardJSON_def presetCard_def presetNumber_def IsWild_def)
qed

lemma presetLoop_cards: "\<forall>c \<in> set cs. valid_card c \<Longrightarrow> presetLoop i (map cardJSON cs) pile = Inr (pile @ cs)"
  by (induction cs arbitrary: i pile) (simp_all add: presetCard_cardJSON Push_def)

section \<open>Properties\<close>

text \<open>The preset pile round-trips: writing a pile of valid cards as the array the configuration
  uses, top card first, and reading it gives the pile back.\<close>

theorem preset_pile_roundtrip:
  assumes "\<forall>c \<in> set d. valid_card c"
  shows "parsePresetDiscardPileTop (JArr (map cardJSON (rev d))) = Inr d"
proof -
  have "presetLoop 0 (map cardJSON (rev d)) [] = Inr (rev d)" using presetLoop_cards [of "rev d" 0 "[]"] assms by simp
  then show ?thesis using reverseLoop_rev [of "rev d"] by (simp add: parsePresetDiscardPileTop_def)
qed

theorem preset_pile_roundtrip_witness:
  "parsePresetDiscardPileTop (JArr [JArr [JStr ''wild_draw_4''], JArr [JStr ''red'', JNum 9]]) = Inr [mkCard 9 1, mkCard 14 0]"
proof -
  have v: "\<forall>c \<in> set [mkCard 9 1, mkCard 14 0]. valid_card c" by (simp add: valid_card_def valid_color_def IsWild_def)
  from preset_pile_roundtrip [OF v] show ?thesis by (simp add: cardJSON_def ColorString_def)
qed

text \<open>C31. The cards of a configured table: when the configuration describes cards of the game, a
  table built without error is seated consistently and holds only cards of the deck it was built from,
  but one card is missing for every card that is moved to fill up the pile; it conserves the cards
  exactly when the preset pile is at least as long as the size asked for.\<close>

theorem makeTable_card_balance:
  assumes "makeTable ordP ordC ordE cfg t = Some (None, t')" "wf_table t" "\<forall>c \<in> set (DrawDeck t). card_in_range c"
    and "\<forall>c \<in> set (presetDiscardPileTop cfg). card_in_range c" "describedOk (handDescOfPlayer cfg)"
  shows "wf_table t' \<and> tableCards t' \<subseteq># tableCards t \<and>
    size (tableCards t) = size (tableCards t')
      + nat (discardedPileSize cfg - int (length (DiscardedPile t) + length (presetDiscardPileTop cfg)))"
proof -
  let ?pre = "presetDiscardPileTop cfg"
  let ?t = "t\<lparr>DiscardedPile := DiscardedPile t @ ?pre\<rparr>"
  obtain al al' t1 d where r: "removeCardsFromDeck ?pre (countCards (DrawDeck t) []) = (None, al)"
    "giveHands ordC (goSort ordP (handDescOfPlayer cfg)) al ?t = (None, al', t1)"
    "remainingDeck (goSort ordE al') [] = Some d" "finishTable cfg (t1\<lparr>DrawDeck := d\<rparr>) = Some t'"
    using assms(1) by (auto simp: makeTable_def Let_def Push_def NewEmptyDeck_def option_bind_simps split: prod.splits option.splits)
  have c: "okCounts (countCards (DrawDeck t) [])" "cardsOf (countCards (DrawDeck t) []) = mset (DrawDeck t)"
    using countCards_ok [of "[]" "DrawDeck t"] assms(3) by (auto simp: okCounts_def)
  have a: "okCounts al" "mset (DrawDeck t) = cardsOf al + mset ?pre" using removeCards_ok [OF r(1) c(1) assms(4)] c(2) by simp_all
  have w: "wf_table ?t" using assms(2) by (simp add: wf_table_def wf_seating_def)
  have "describedOk (goSort ordP (handDescOfPlayer cfg))" using assms(5) by (simp add: describedOk_def)
  from giveHands_ok [OF r(2) a(1) w this]
  have g: "okCounts al'" "wf_table t1" "DiscardedPile t1 = DiscardedPile t @ ?pre" "potCards al' t1 = potCards al ?t"
    by (simp_all add: sameRest_def)
  have d: "mset d = cardsOf al'" using remainingDeck_ok [of "goSort ordE al'" "[]"] g(1) r(3) by (auto simp: counts_perm)
  let ?s = "\<lambda>u. sum_list (map (\<lambda>p. mset (handOf u p)) (PlayerNames u))"
  note f = finishTable_spec [OF r(4)]
  have s: "?s t' = ?s t1" using f by simp
  have all: "mset d + mset (DiscardedPile t1) + ?s t1 = tableCards t"
    using g(4) a(2) d by (simp add: potCards_def tableCards_def ac_simps)
  have sz: "size (tableCards t) = length d + length (DiscardedPile t1) + size (?s t1)" unfolding all [symmetric] by simp
  have "size (tableCards t') = length (DrawDeck t') + length (DiscardedPile t') + size (?s t1)" by (simp add: tableCards_def s)
  moreover have "tableCards t' \<subseteq># tableCards t"
    using f unfolding all [symmetric] by (simp add: tableCards_def s)
  moreover have "wf_table t'" using f g(2) by (simp add: wf_table_def wf_seating_def)
  ultimately show ?thesis using f sz g(3) by (simp add: Len_def add.commute)
qed

theorem makeTable_card_balance_witness:
  "let t = (createNewTable (\<lambda>_. []))\<lparr>DrawDeck := [mkCard 1 1, mkCard 7 1, mkCard 2 2, mkCard 3 3, mkCard 4 4, mkCard 5 1, mkCard 6 2]\<rparr>;
       cfg = \<lparr>handDescOfPlayer = [(''al'', emptyHandDesc\<lparr>cardsOfColor := [(1, [mkCard 1 1])]\<rparr>)],
              discardedPileSize = 3, playerToDraw = ''al'', presetDiscardPileTop = [mkCard 7 1]\<rparr>
   in \<exists>t'. makeTable (\<lambda>_. []) (\<lambda>_ _. []) (\<lambda>_. []) cfg t = Some (None, t') \<and> size (tableCards t) = size (tableCards t') + 2"
proof -
  let ?t = "(createNewTable (\<lambda>_. []))\<lparr>DrawDeck := [mkCard 1 1, mkCard 7 1, mkCard 2 2, mkCard 3 3, mkCard 4 4, mkCard 5 1, mkCard 6 2]\<rparr>"
  let ?cfg = "\<lparr>handDescOfPlayer = [(''al'', emptyHandDesc\<lparr>cardsOfColor := [(1, [mkCard 1 1])]\<rparr>)],
      discardedPileSize = 3, playerToDraw = ''al'', presetDiscardPileTop = [mkCard 7 1]\<rparr>"
  have "map_option fst (makeTable (\<lambda>_. []) (\<lambda>_ _. []) (\<lambda>_. []) ?cfg ?t) = Some None" by code_simp
  then obtain t' where t': "makeTable (\<lambda>_. []) (\<lambda>_ _. []) (\<lambda>_. []) ?cfg ?t = Some (None, t')" by auto
  have w: "wf_table ?t" using wf_createNewTable [of "\<lambda>_. []"] by (simp add: wf_table_def wf_seating_def)
  have h: "\<forall>c \<in> set (DrawDeck ?t). card_in_range c" "\<forall>c \<in> set (presetDiscardPileTop ?cfg). card_in_range c" "describedOk (handDescOfPlayer ?cfg)"
    by (auto simp: card_in_range_def describedOk_def emptyHandDesc_def)
  have "DiscardedPile ?t = []" by (simp add: createNewTable_def NewEmptyDeck_def)
  with makeTable_card_balance [OF t' w h] t' show ?thesis unfolding Let_def by auto
qed

end
