(* ===== verification/Messages.thy ===== *)
theory Messages
  imports Eval
begin

text \<open>
  The messages between the admin and its clients (\<open>internal/messages/messages.go\<close>) and the host
  addresses they carry (\<open>internal/utils/http_utils.go\<close>).  A message body that arrives is modelled
  after decoding: \<open>DecryptAndDecodeJSON\<close> gives an error or the decoded value, and handlers take that
  result as an argument.
\<close>

section \<open>Addresses\<close>

record HostPortProtocol =
  IP :: string
  Port :: int
  Protocol :: string

definition trimPrefix :: "string \<Rightarrow> string \<Rightarrow> string" where
  "trimPrefix s p = (if take (length p) s = p then drop (length p) s else s)"

definition trimProtocolPrefix :: "string \<Rightarrow> string" where
  "trimProtocolPrefix addr =
     (let addr = trimPrefix addr ''udp://'';
          addr = trimPrefix addr ''tcp://'';
          addr = trimPrefix addr ''https://''
      in trimPrefix addr ''http://'')"

definition SetHostPort :: "string \<Rightarrow> int \<Rightarrow> HostPortProtocol \<Rightarrow> HostPortProtocol" where
  "SetHostPort ip port h = h\<lparr>IP := trimProtocolPrefix ip, Port := port\<rparr>"

definition BindString :: "HostPortProtocol \<Rightarrow> string" where
  "BindString h = (if Port h \<noteq> 0 then IP h @ '':'' @ show_int (Port h) else IP h)"

definition HTTPAddressString :: "HostPortProtocol \<Rightarrow> string" where
  "HTTPAddressString h =
     (if Port h \<noteq> 0 then ''http://'' @ IP h @ '':'' @ show_int (Port h) else ''http://'' @ IP h)"

section \<open>Requests\<close>

record AddNewPlayersMessage =
  newPlayerNames :: "string list"
  ClientListenAddrs :: "HostPortProtocol list"

definition AddNewPlayer :: "string \<Rightarrow> string \<Rightarrow> int \<Rightarrow> string \<Rightarrow> AddNewPlayersMessage \<Rightarrow> AddNewPlayersMessage" where
  "AddNewPlayer playerName clientHost clientPort protocol msg =
     msg\<lparr>newPlayerNames := newPlayerNames msg @ [playerName],
         ClientListenAddrs := ClientListenAddrs msg @ [\<lparr>IP = clientHost, Port = clientPort, Protocol = protocol\<rparr>]\<rparr>"

record AckNewPlayerAddedMessage =
  newAckerPlayer :: string
  NewPlayer :: string

record AckSyncedPlayerDecisionsMesasge =
  AckerPlayer :: string
  DecisionCounter :: int

record SetReadyMessage =
  readyShufflerName :: string
  ShufflerIsFirstPlayer :: bool

record PlayerDecisionsRequest =
  Decisions :: "PlayerDecision list"
  DecidingPlayer :: string
  DecisionEventCounter :: int

section \<open>Events\<close>

datatype ServerEvent =
    PlayerJoinedEvent string
  | ExistingPlayersListEvent "string list"
  | ServedCardsEvent Table
  | ChosenPlayerEvent string int
  | PlayerDecisionsSyncEvent PlayerDecisionsRequest

fun EventType :: "ServerEvent \<Rightarrow> string" where
  "EventType (PlayerJoinedEvent _) = ''player_joined''"
| "EventType (ExistingPlayersListEvent _) = ''existing_players_list''"
| "EventType (ServedCardsEvent _) = ''served_cards''"
| "EventType (ChosenPlayerEvent _ _) = ''chosen_player''"
| "EventType (PlayerDecisionsSyncEvent _) = ''player_decisions_sync''"

section \<open>Error payloads\<close>

text \<open>A Go error: its text and the error it wraps.\<close>

datatype GoError = GoError string "GoError option"

fun errorText :: "GoError \<Rightarrow> string" where
  "errorText (GoError s _) = s"

fun Unwrap :: "GoError \<Rightarrow> GoError option" where
  "Unwrap (GoError _ e) = e"

fun wrapped :: "GoError \<Rightarrow> string list" where
  "wrapped (GoError s None) = [s]"
| "wrapped (GoError s (Some e)) = s # wrapped e"

text \<open>\<open>UnwrappedErrorPayload.Add\<close>: the text of the error and of everything it wraps.\<close>

definition PayloadAdd :: "GoError \<Rightarrow> string list \<Rightarrow> string list" where
  "PayloadAdd err errs = errs @ wrapped err"

lemma wrapped_Cons: "wrapped e = errorText e # (case Unwrap e of None \<Rightarrow> [] | Some e' \<Rightarrow> wrapped e')"
  by (cases e rule: wrapped.cases) simp_all

end
