(* ===== verification/Admin.thy ===== *)
theory Admin
  imports Rules Acks HandReader Messages
begin

text \<open>
  The admin server (\<open>admin/admin.go\<close>, \<open>admin/admin_config.go\<close>).  Its state is the record \<open>Admin\<close>: the
  fields of the struct, and the goroutines that are under way.  A handler is one step that holds
  \<open>stateMutex\<close>; \<open>mutexHeld\<close> says that a handler or the controller returned or blocked without
  releasing it.  \<open>sseControllerEvents\<close> are the goroutines that wait to send a command to the
  controller, \<open>joinTasks\<close> the goroutines of a join that have not run, \<open>written\<close> is what was written to the event streams, a response writer is named by a
  number.  The callbacks of a registration of acks run in goroutines of their own: \<open>syncOf\<close> says
  which decision sync a registration belongs to, \<open>remainingAcks\<close> are the counters of the syncs,
  \<open>callbacksDue\<close> the callbacks that are about to run, \<open>syncsDone\<close> the callbacks that took the last
  ack of their sync and go on to take the mutex, \<open>turnsDue\<close> the goroutines in \<open>runNewTurn\<close>.

  Parameters: the results of decoding a request, of resolving an address and of writing to a stream;
  the orders of map iteration; the random source.  \<open>None\<close> is a panic that ends the process or, in
  \<open>handleSetReady\<close>, the request.
\<close>

section \<open>State\<close>

datatype AdminState =
    AddingPlayers
  | ReadyToServeCards
  | CardsServed
  | PlayerChosenForTurn
  | WaitingForPlayerDecision
  | WaitingForChallengePlayerDecision
  | SyncingPlayerDecision
  | DoneSyncingPlayerDecision
  | AdminHaveWinner

fun AdminStateString :: "AdminState \<Rightarrow> string" where
  "AdminStateString AddingPlayers = ''adding_players''"
| "AdminStateString ReadyToServeCards = ''ready_to_serve_cards''"
| "AdminStateString CardsServed = ''cards_served''"
| "AdminStateString PlayerChosenForTurn = ''player_chosen''"
| "AdminStateString WaitingForPlayerDecision = ''waiting_for_player_decision''"
| "AdminStateString WaitingForChallengePlayerDecision = ''waiting_for_challenge''"
| "AdminStateString SyncingPlayerDecision = ''syncing_player_decision''"
| "AdminStateString DoneSyncingPlayerDecision = ''done_syncing_player_decision''"
| "AdminStateString AdminHaveWinner = ''have_winner''"

record AdminUserConfig =
  ConfigType :: string
  ListenPort :: int
  ListenIP :: string
  ConfigRunREPL :: bool
  ReadyPlayerName :: string
  PauseMsecsBeforeNewTurn :: int
  AESKeyString :: string
  EncryptMessages :: bool
  DebugStartingHandConfigFile :: string
  DebugStartingHandConfig :: "(string \<times> JSON) list option"
  DebugSignalNewTurnViaPrompt :: bool

datatype sseEvent =
    sseCommandSyncPlayerJoinedEventToAll string nat
  | sseCommandSendServedCardsEventToAll Table
  | sseCommandSendChosenPlayerEventToAll
  | sseCommandSyncPlayerDecisionEvent PlayerDecisionsRequest

text \<open>The two goroutines that the controller starts for a join and waits for.\<close>

datatype joinTask = JoinBroadcast string | JoinRegister string

record Admin =
  table :: Table
  mutexHeld :: bool
  state :: AdminState
  userConfig :: AdminUserConfig
  sseWriterForPlayer :: "string \<rightharpoonup> nat"
  shuffler :: string
  readyPlayerName :: string
  decisionEventsCompleted :: int
  expectedAcksList :: acksState
  acksLoopRuns :: bool
  rl :: "string option"
  sseControllerEvents :: "sseEvent list"
  joinTasks :: "joinTask list"
  written :: "(nat \<times> ServerEvent) list"
  nextChan :: nat
  syncOf :: "nat \<rightharpoonup> nat"
  remainingAcks :: "nat \<Rightarrow> int"
  callbacksDue :: "nat list"
  syncsDone :: nat
  turnsDue :: nat

text \<open>What a handler answers: a status and the lines of the body, a stream that stays open, a panic
  that the HTTP server recovers, or no answer.\<close>

datatype Response = Responded nat "string list" | Streaming nat | Panicked | Blocked

abbreviation "StatusOK \<equiv> (200 :: nat)"
abbreviation "StatusSeeOther \<equiv> (303 :: nat)"
abbreviation "StatusBadRequest \<equiv> (400 :: nat)"
abbreviation "StatusForbidden \<equiv> (403 :: nat)"
abbreviation "StatusUnprocessableEntity \<equiv> (422 :: nat)"
abbreviation "StatusInternalServerError \<equiv> (500 :: nat)"

section \<open>Acks\<close>

definition makeAckIdConnectedPlayer :: "string \<Rightarrow> string \<Rightarrow> string" where
  "makeAckIdConnectedPlayer ackerPlayer connectedPlayer = ackerPlayer @ ''_connected_to_'' @ connectedPlayer"

definition makeAckIdOfDecisionSyncPlayer :: "string \<Rightarrow> int \<Rightarrow> string" where
  "makeAckIdOfDecisionSyncPlayer ackerPlayer decisionCounter = ackerPlayer @ ''_synced_'' @ show_int decisionCounter"

definition makeAckIdWaitingForPlayerDecision :: "string \<Rightarrow> int \<Rightarrow> string" where
  "makeAckIdWaitingForPlayerDecision ackerPlayer decisionCounter =
     ''waiting_for_decision.'' @ ackerPlayer @ ''.'' @ show_int decisionCounter"

definition connectedAck :: "string \<Rightarrow> string \<Rightarrow> expectedAck" where
  "connectedAck ackerPlayer connectedPlayer =
     \<lparr>ackId = makeAckIdConnectedPlayer ackerPlayer connectedPlayer, ackerPlayerName = ackerPlayer\<rparr>"

definition syncAck :: "string \<Rightarrow> int \<Rightarrow> expectedAck" where
  "syncAck ackerPlayer n = \<lparr>ackId = makeAckIdOfDecisionSyncPlayer ackerPlayer n, ackerPlayerName = ackerPlayer\<rparr>"

definition decisionAck :: "string \<Rightarrow> int \<Rightarrow> expectedAck" where
  "decisionAck ackerPlayer n = \<lparr>ackId = makeAckIdWaitingForPlayerDecision ackerPlayer n, ackerPlayerName = ackerPlayer\<rparr>"

text \<open>A registration, for a decision sync or without effects; it blocks on the mutex of the list when
  the loop that matches the acks is stuck.\<close>

definition registerAck :: "nat option \<Rightarrow> expectedAck \<Rightarrow> Admin \<Rightarrow> Admin" where
  "registerAck sync ack a =
     (if stuck (expectedAcksList a) then a\<lparr>mutexHeld := True\<rparr>
      else a\<lparr>expectedAcksList := addPending ack (nextChan a) (expectedAcksList a),
             syncOf := (syncOf a)(nextChan a := sync), nextChan := Suc (nextChan a)\<rparr>)"

text \<open>The loop takes an ack; when it reaches a registration of a decision sync, the callback is due.\<close>

definition receiveAck :: "expectedAck \<Rightarrow> Admin \<Rightarrow> Admin" where
  "receiveAck ack a =
     (let es = waitForAcks ack (expectedAcksList a);
          new = map callbackChan (drop (length (fired (expectedAcksList a))) (fired es))
      in a\<lparr>expectedAcksList := es, callbacksDue := callbacksDue a @ filter (\<lambda>c. syncOf a c \<noteq> None) new\<rparr>)"

text \<open>The send on \<open>chNewAckReceived\<close>, which blocks when no loop receives.\<close>

definition sendAck :: "expectedAck \<Rightarrow> Admin \<Rightarrow> Admin option" where
  "sendAck ack a =
     (if acksLoopRuns a \<and> \<not> stuck (expectedAcksList a) then Some (receiveAck ack a) else None)"

section \<open>State and prompt\<close>

fun promptText :: "AdminState \<Rightarrow> Table \<Rightarrow> string" where
  "promptText AddingPlayers t = ''[adding_players]> ''"
| "promptText ReadyToServeCards t = ''[ready_to_serve_cards]> ''"
| "promptText CardsServed t = ''[cards_served]> ''"
| "promptText PlayerChosenForTurn t = ''[player_chosen_for_turn:'' @ PlayerOfNextTurn t @ '']> ''"
| "promptText WaitingForPlayerDecision t = ''[waiting_for_player_decision:'' @ PlayerOfNextTurn t @ '']> ''"
| "promptText WaitingForChallengePlayerDecision t = ''[waiting_for_challenge_decision:'' @ PlayerOfNextTurn t @ '']> ''"
| "promptText SyncingPlayerDecision t = ''[syncing_player_decision:'' @ PlayerOfNextTurn t @ '']> ''"
| "promptText DoneSyncingPlayerDecision t =
     ''[done_syncing_player_decision:(decider:'' @ PlayerOfLastTurn t @ '', next:'' @ PlayerOfNextTurn t @ '')]> ''"
| "promptText AdminHaveWinner t = ''[have_winner:'' @ WinnerPlayerName t @ '']> ''"

definition updatePromptWithStateInfo :: "Admin \<Rightarrow> Admin" where
  "updatePromptWithStateInfo a =
     (case rl a of None \<Rightarrow> a | Some _ \<Rightarrow> a\<lparr>rl := Some (promptText (state a) (table a))\<rparr>)"

definition setState :: "AdminState \<Rightarrow> Admin \<Rightarrow> Admin" where
  "setState s a = updatePromptWithStateInfo (a\<lparr>state := s\<rparr>)"

section \<open>Sending events\<close>

text \<open>\<open>ok w\<close> says whether a write to the stream \<open>w\<close> succeeds; \<open>ks\<close> is the order of the map.\<close>

fun sendMessageToAllPlayersWithSSE ::
  "(nat \<Rightarrow> bool) \<Rightarrow> string list \<Rightarrow> string \<Rightarrow> ServerEvent \<Rightarrow> Admin \<Rightarrow> bool \<times> Admin" where
  "sendMessageToAllPlayersWithSSE ok [] excludePlayer ev a = (True, a)"
| "sendMessageToAllPlayersWithSSE ok (playerName # ks) excludePlayer ev a =
     (let w = map_get 0 (sseWriterForPlayer a) playerName in
      if playerName = excludePlayer then sendMessageToAllPlayersWithSSE ok ks excludePlayer ev a
      else if \<not> ok w then (False, a)
      else sendMessageToAllPlayersWithSSE ok ks excludePlayer ev (a\<lparr>written := written a @ [(w, ev)]\<rparr>))"

definition sendMessageToSinglePlayerWithSSE :: "(nat \<Rightarrow> bool) \<Rightarrow> string \<Rightarrow> ServerEvent \<Rightarrow> Admin \<Rightarrow> bool \<times> Admin" where
  "sendMessageToSinglePlayerWithSSE ok playerName ev a =
     (case sseWriterForPlayer a playerName of
        None \<Rightarrow> (False, a)
      | Some w \<Rightarrow> if ok w then (True, a\<lparr>written := written a @ [(w, ev)]\<rparr>) else (False, a))"

section \<open>Handlers\<close>

text \<open>A refused request writes its text before the status, which fixes the status at 200.  Every
  return before the registration of the stream keeps the mutex.\<close>

definition handleAddNewPlayerAndCreateSSE :: "string + AddNewPlayersMessage \<Rightarrow> nat \<Rightarrow> Admin \<Rightarrow> Response \<times> Admin" where
  "handleAddNewPlayerAndCreateSSE body w a =
     (if mutexHeld a then (Blocked, a)
      else
        let held = a\<lparr>mutexHeld := True\<rparr> in
        if state a \<noteq> AddingPlayers
        then (Responded StatusOK [''Not accepting new players, currently in state: '' @ AdminStateString (state a)], held)
        else case body of
          Inl err \<Rightarrow> (Responded StatusBadRequest [err], held)
        | Inr requestMessage \<Rightarrow>
            (case newPlayerNames requestMessage of
               [] \<Rightarrow> (Panicked, held)
             | joinerPlayerName # _ \<Rightarrow>
                 let streamTo = (\<lambda>t. a\<lparr>table := t, sseControllerEvents := sseControllerEvents a @
                       [sseCommandSyncPlayerJoinedEventToAll joinerPlayerName w]\<rparr>) in
                 if IsShuffled (table a)
                 then (Streaming (if HandOfPlayer (table a) joinerPlayerName = None then StatusUnprocessableEntity else StatusOK),
                       streamTo (table a))
                 else case AddPlayer joinerPlayerName (table a) of
                   (Some err, t) \<Rightarrow>
                     if err = ErrPlayerAlreadyExists then (Responded StatusOK [], held\<lparr>table := t\<rparr>)
                     else (Responded StatusUnprocessableEntity
                             [''cannot add new player: existing player has same name as to-be-added player''],
                           held\<lparr>table := t\<rparr>)
                 | (None, t) \<Rightarrow> (Streaming StatusOK, streamTo t)))"

definition handleAckNewPlayerAdded :: "GoError + AckNewPlayerAddedMessage \<Rightarrow> Admin \<Rightarrow> Response \<times> Admin" where
  "handleAckNewPlayerAdded body a =
     (case body of
        Inl err \<Rightarrow> (Responded StatusBadRequest (PayloadAdd err []), a)
      | Inr m \<Rightarrow>
          (case sendAck (connectedAck (newAckerPlayer m) (NewPlayer m)) a of
             None \<Rightarrow> (Blocked, a)
           | Some a \<Rightarrow> (Responded StatusOK [], a)))"

definition handleAckPlayerDecisionSynced :: "GoError + AckSyncedPlayerDecisionsMesasge \<Rightarrow> Admin \<Rightarrow> Response \<times> Admin" where
  "handleAckPlayerDecisionSynced body a =
     (case body of
        Inl err \<Rightarrow> (Responded StatusBadRequest (PayloadAdd err []), a)
      | Inr m \<Rightarrow>
          (case sendAck (syncAck (AckerPlayer m) (DecisionCounter m)) a of
             None \<Rightarrow> (Blocked, a)
           | Some a \<Rightarrow> (Responded StatusOK [], a)))"

definition errorInvalidAdminState :: GoError where
  "errorInvalidAdminState = GoError ''invalid admin state'' None"

definition errorWaitingForAcks :: GoError where
  "errorWaitingForAcks = GoError ''waiting for acks'' None"

text \<open>Dealing, unless a configuration already dealt.\<close>

definition serveCards :: "(nat \<Rightarrow> nat) \<Rightarrow> string list \<Rightarrow> SetReadyMessage \<Rightarrow> Table \<Rightarrow> Table option" where
  "serveCards rnd ks setReadyMessage t = do {
     let t = t\<lparr>ShufflerName := readyShufflerName setReadyMessage\<rparr>;
     t \<leftarrow> (if \<not> IsShuffled t then ShuffleDeckAndDistribute rnd ks 8 t else Some t);
     Some (if ShufflerIsFirstPlayer setReadyMessage then t\<lparr>PlayerOfNextTurn := ShufflerName t\<rparr> else t)
   }"

text \<open>A deal that panics unlocks the mutex and is recovered by the HTTP server: the state is changed, the
  table is what the panic left, and no command is queued.\<close>

definition servedLeft :: "Deck \<Rightarrow> (nat \<Rightarrow> nat) \<Rightarrow> string list \<Rightarrow> SetReadyMessage \<Rightarrow> Table \<Rightarrow> Table" where
  "servedLeft spare rnd ks setReadyMessage t =
     ShuffleLeft spare rnd ks 8 (t\<lparr>ShufflerName := readyShufflerName setReadyMessage\<rparr>)"

definition handleSetReady ::
  "Deck \<Rightarrow> (nat \<Rightarrow> nat) \<Rightarrow> string list \<Rightarrow> bool \<Rightarrow> GoError + SetReadyMessage \<Rightarrow> Admin \<Rightarrow> Response \<times> Admin" where
  "handleSetReady spare rnd ks addrOk body a =
     (if mutexHeld a then (Blocked, a)
      else if \<not> addrOk then (Responded StatusInternalServerError [], a)
      else if state a \<noteq> AddingPlayers
      then (Responded StatusForbidden
             (PayloadAdd (GoError (''handleSetReady: Failed due to '' @ errorText errorInvalidAdminState)
                (Some errorInvalidAdminState)) []), a)
      else if stuck (expectedAcksList a) then (Blocked, a\<lparr>mutexHeld := True\<rparr>)
      else
        let numExpectingAcks = length (pendingAcks (expectedAcksList a)) in
        if numExpectingAcks \<noteq> 0
        then (Responded StatusSeeOther
               (PayloadAdd (GoError (''handleSetReady: '' @ errorText errorWaitingForAcks @ '', numExpectingAcks: ''
                  @ show_nat numExpectingAcks) (Some errorWaitingForAcks)) []), a)
        else case body of
          Inl err \<Rightarrow> (Responded StatusBadRequest (PayloadAdd err []), a)
        | Inr setReadyMessage \<Rightarrow>
            (let a = setState ReadyToServeCards a in
             case serveCards rnd ks setReadyMessage (table a) of
               None \<Rightarrow> (Panicked, a\<lparr>table := servedLeft spare rnd ks setReadyMessage (table a)\<rparr>)
             | Some t \<Rightarrow> (Responded StatusOK [], a\<lparr>table := t,
                 sseControllerEvents := sseControllerEvents a @ [sseCommandSendServedCardsEventToAll t]\<rparr>)))"

definition handlePlayerDecisionsEvent :: "string + PlayerDecisionsRequest \<Rightarrow> Admin \<Rightarrow> Response \<times> Admin" where
  "handlePlayerDecisionsEvent body a =
     (if mutexHeld a then (Blocked, a)
      else if state a = WaitingForPlayerDecision
      then (case body of
              Inl err \<Rightarrow> (Responded StatusBadRequest [], a)
            | Inr event \<Rightarrow>
                (case sendAck (decisionAck (DecidingPlayer event) (DecisionEventCounter event)) a of
                   None \<Rightarrow> (Blocked, a\<lparr>mutexHeld := True\<rparr>)
                 | Some a \<Rightarrow> (Responded StatusOK [],
                     a\<lparr>sseControllerEvents := sseControllerEvents a @ [sseCommandSyncPlayerDecisionEvent event]\<rparr>)))
      else (Responded StatusSeeOther
              (PayloadAdd (GoError (errorText errorInvalidAdminState @ '': '' @ AdminStateString (state a))
                 (Some errorInvalidAdminState)) []), a))"

section \<open>Turns\<close>

text \<open>The goroutine after its pause; it waits for the mutex.\<close>

definition runNewTurn :: "Admin \<Rightarrow> Admin option" where
  "runNewTurn a =
     (let a = a\<lparr>turnsDue := turnsDue a - 1\<rparr> in
      if DebugSignalNewTurnViaPrompt (userConfig a) then Some a
      else if TableState (table a) = HaveWinner then Some (setState AdminHaveWinner a)
      else if state a \<noteq> DoneSyncingPlayerDecision then None
      else
        let a = setState PlayerChosenForTurn a in
        Some (a\<lparr>sseControllerEvents := sseControllerEvents a @ [sseCommandSendChosenPlayerEventToAll]\<rparr>))"

text \<open>The callback of a decision sync: it counts down, and the one that reaches zero goes on.\<close>

definition onSyncAck :: "nat \<Rightarrow> Admin \<Rightarrow> Admin" where
  "onSyncAck c a =
     (let g = map_get 0 (syncOf a) c; r = remainingAcks a g - 1;
          a = a\<lparr>remainingAcks := (remainingAcks a)(g := r), callbacksDue := remove1 c (callbacksDue a)\<rparr>
      in if r = 0 then a\<lparr>syncsDone := Suc (syncsDone a)\<rparr> else a)"

definition finishSync :: "Admin \<Rightarrow> Admin" where
  "finishSync a =
     (let a = setState DoneSyncingPlayerDecision (a\<lparr>syncsDone := syncsDone a - 1\<rparr>)
      in a\<lparr>decisionEventsCompleted := decisionEventsCompleted a + 1, turnsDue := Suc (turnsDue a)\<rparr>)"

section \<open>The controller\<close>

text \<open>Handlers of acks do not take the mutex, so acks can arrive while the controller works: \<open>early\<close>
  are the acks that arrive between the messages and the registrations.\<close>

definition receiveEarly :: "expectedAck list \<Rightarrow> Admin \<Rightarrow> Admin" where
  "receiveEarly early a = fold (\<lambda>ack a. case sendAck ack a of None \<Rightarrow> a | Some a \<Rightarrow> a) early a"

fun joinAcks :: "string \<Rightarrow> string list \<Rightarrow> Admin \<Rightarrow> Admin" where
  "joinAcks newPlayer [] a = a"
| "joinAcks newPlayer (existingPlayer # ks) a =
     (if existingPlayer = newPlayer then joinAcks newPlayer ks a
      else joinAcks newPlayer ks
        (registerAck None (connectedAck existingPlayer newPlayer)
          (registerAck None (connectedAck newPlayer existingPlayer) a)))"

fun runJoinTask :: "(nat \<Rightarrow> bool) \<Rightarrow> string list \<Rightarrow> joinTask \<Rightarrow> Admin \<Rightarrow> Admin" where
  "runJoinTask ok ks (JoinBroadcast newPlayer) a =
     snd (sendMessageToAllPlayersWithSSE ok ks newPlayer (PlayerJoinedEvent newPlayer) a)"
| "runJoinTask ok ks (JoinRegister newPlayer) a =
     (let a = joinAcks newPlayer ks a in
      if mutexHeld a then a
      else snd (sendMessageToSinglePlayerWithSSE ok newPlayer
                  (ExistingPlayersListEvent (filter (\<lambda>p. p \<noteq> newPlayer) ks)) a))"

definition dispatchJoined :: "string \<Rightarrow> nat \<Rightarrow> Admin \<Rightarrow> Admin" where
  "dispatchJoined newPlayer w a =
     a\<lparr>sseWriterForPlayer := (sseWriterForPlayer a)(newPlayer \<mapsto> w),
       joinTasks := [JoinBroadcast newPlayer, JoinRegister newPlayer]\<rparr>"

fun syncAcks :: "nat \<Rightarrow> PlayerDecisionsRequest \<Rightarrow> string list \<Rightarrow> Admin \<Rightarrow> Admin" where
  "syncAcks g req [] a = a"
| "syncAcks g req (playerName # ks) a =
     (if playerName = DecidingPlayer req then syncAcks g req ks a
      else syncAcks g req ks (registerAck (Some g) (syncAck playerName (DecisionEventCounter req)) a))"

definition dispatchDecision ::
  "Card swaps \<Rightarrow> (nat \<Rightarrow> bool) \<Rightarrow> string list \<Rightarrow> expectedAck list \<Rightarrow> PlayerDecisionsRequest \<Rightarrow> Admin \<Rightarrow> Admin option" where
  "dispatchDecision srt ok ks early req a =
     (case EvalPlayerDecisionsNoTransferChan srt (DecidingPlayer req) (Decisions req) (table a) of
        None \<Rightarrow> None
      | Some (Some err, t) \<Rightarrow> Some (a\<lparr>table := t\<rparr>)
      | Some (None, t) \<Rightarrow>
          (let a = updatePromptWithStateInfo (setState SyncingPlayerDecision (a\<lparr>table := t\<rparr>)) in
           case sendMessageToAllPlayersWithSSE ok ks (DecidingPlayer req) (PlayerDecisionsSyncEvent req) a of
             (False, a) \<Rightarrow> Some a
           | (True, a) \<Rightarrow>
               (let a = receiveEarly early a;
                    g = nextChan a;
                    a = a\<lparr>remainingAcks := (remainingAcks a)(g := int (length ks) - 1)\<rparr>
                in Some (syncAcks g req ks a))))"

definition dispatchServedCards :: "(nat \<Rightarrow> bool) \<Rightarrow> string list \<Rightarrow> Admin \<Rightarrow> Admin" where
  "dispatchServedCards ok ks a =
     (let a = snd (sendMessageToAllPlayersWithSSE ok ks [] (ServedCardsEvent (table a)) a)
      in a\<lparr>sseControllerEvents := sseControllerEvents a @ [sseCommandSendChosenPlayerEventToAll]\<rparr>)"

definition dispatchChosenPlayer :: "(nat \<Rightarrow> bool) \<Rightarrow> string list \<Rightarrow> Admin \<Rightarrow> Admin" where
  "dispatchChosenPlayer ok ks a =
     (let n = decisionEventsCompleted a; p = PlayerOfNextTurn (table a) in
      case sendMessageToAllPlayersWithSSE ok ks [] (ChosenPlayerEvent p n) a of
        (False, a) \<Rightarrow> a
      | (True, a) \<Rightarrow> registerAck None (decisionAck p n) (setState WaitingForPlayerDecision a))"

fun dispatchEventWithSSE ::
  "Card swaps \<Rightarrow> (nat \<Rightarrow> bool) \<Rightarrow> string list \<Rightarrow> expectedAck list \<Rightarrow> sseEvent \<Rightarrow> Admin \<Rightarrow> Admin option" where
  "dispatchEventWithSSE srt ok ks early (sseCommandSyncPlayerJoinedEventToAll p w) a =
     Some (dispatchJoined p w a)"
| "dispatchEventWithSSE srt ok ks early (sseCommandSyncPlayerDecisionEvent req) a =
     dispatchDecision srt ok ks early req a"
| "dispatchEventWithSSE srt ok ks early (sseCommandSendServedCardsEventToAll _) a =
     Some (dispatchServedCards ok ks a)"
| "dispatchEventWithSSE srt ok ks early sseCommandSendChosenPlayerEventToAll a =
     Some (dispatchChosenPlayer ok ks a)"

section \<open>Start, restart and prompt\<close>

definition createStartingTable ::
  "(string \<Rightarrow> string + (string \<times> JSON) list) \<Rightarrow> Card swaps \<Rightarrow> (string \<times> handDesc) swaps \<Rightarrow>
   (string \<Rightarrow> (Color \<times> Card list) swaps) \<Rightarrow> (32 word \<times> int) swaps \<Rightarrow> AdminUserConfig \<Rightarrow> Table option" where
  "createStartingTable readFile srt ordP ordC ordE c =
     (let t = NewAdminTable srt;
          loaded = (\<lambda>r. case r of Some (None, t) \<Rightarrow> Some t | _ \<Rightarrow> None)
      in if DebugStartingHandConfigFile c \<noteq> []
         then loaded (LoadConfigFromFile readFile ordP ordC ordE (DebugStartingHandConfigFile c) t)
         else case DebugStartingHandConfig c of
           Some j \<Rightarrow> loaded (LoadConfig ordP ordC ordE j t)
         | None \<Rightarrow> Some t)"

definition NewAdmin :: "Table \<Rightarrow> string \<Rightarrow> AdminUserConfig \<Rightarrow> Admin" where
  "NewAdmin t readyName cfg =
     \<lparr>table = t, mutexHeld = False, state = AddingPlayers, userConfig = cfg, sseWriterForPlayer = Map.empty,
      shuffler = [], readyPlayerName = readyName, decisionEventsCompleted = 0,
      expectedAcksList = newExpectedAcksState, acksLoopRuns = False, rl = None, sseControllerEvents = [],
      joinTasks = [], written = [], nextChan = 0, syncOf = Map.empty, remainingAcks = (\<lambda>_. 0),
      callbacksDue = [], syncsDone = 0, turnsDue = 0\<rparr>"

text \<open>The part of \<open>RunServer\<close> that is not the server's own loop.\<close>

definition RunServer :: "Admin \<Rightarrow> Admin" where
  "RunServer a = a\<lparr>acksLoopRuns := True\<rparr>"

text \<open>\<open>Restart\<close> replaces the list of acks; the loop still receives on the channel of the old one.\<close>

definition Restart :: "Table \<Rightarrow> Admin \<Rightarrow> Admin" where
  "Restart t a =
     a\<lparr>table := t, shuffler := [], state := AddingPlayers,
       expectedAcksList := newExpectedAcksState, acksLoopRuns := False\<rparr>"

text \<open>A line of the prompt: it ends the prompt or the process, waits for a mutex for ever, or goes on with
  the lines it prints.  The command \<open>set_ready\<close> unlocks the mutex of the list twice when acks are pending,
  which ends the process; it takes that mutex with \<open>stateMutex\<close> held.\<close>

datatype ReplResult = ReplQuit | ReplCrash | ReplBlocked Admin | ReplNext "string list" Admin

definition setReady :: "Admin \<Rightarrow> ReplResult" where
  "setReady a =
     (if mutexHeld a then ReplBlocked a
      else if stuck (expectedAcksList a) then ReplBlocked (a\<lparr>mutexHeld := True\<rparr>)
      else if length (pendingAcks (expectedAcksList a)) \<noteq> 0 then ReplCrash
      else ReplNext [] a)"

text \<open>\<open>newTable\<close> is the table that a restart creates.\<close>

definition replLine :: "Card swaps \<Rightarrow> string list \<Rightarrow> string list \<Rightarrow> Table option \<Rightarrow> string \<Rightarrow> Admin \<Rightarrow> ReplResult" where
  "replLine srt ks ksHands newTable line a =
     (if line = ''q'' \<or> line = ''quit'' then ReplQuit
      else if line = ''restart'' \<or> line = ''re''
      then (if mutexHeld a then ReplBlocked a
            else case newTable of None \<Rightarrow> ReplCrash | Some t \<Rightarrow> ReplNext [''Admin restarted...''] (Restart t a))
      else if line = ''acks''
      then (if stuck (expectedAcksList a) then ReplBlocked a
            else ReplNext [''Expecting acks:'' @ newline @ ackIds (expectedAcksList a)] a)
      else if line = ''state'' then (if mutexHeld a then ReplBlocked a else ReplNext [AdminStateString (state a)] a)
      else if line = ''table_summary'' then (if mutexHeld a then ReplBlocked a else ReplNext [Summary ks (table a)] a)
      else if line = ''show_hands'' then ReplNext [PrintHands srt ksHands (table a)] a
      else if line = ''dump_drawdeck'' then ReplNext [PrintDrawDeck 15 (table a)] a
      else if line = ''set_ready'' \<or> line = ''sr'' then setReady a
      else ReplNext [] a)"

section \<open>Interleavings\<close>

text \<open>The requests, acks, timeouts and goroutines of a running admin, in any order.  No handler checks who
  sends a request; \<open>ready\<close> and \<open>decision\<close> say which requests to serve the cards and which decisions are
  made.  A panic in a handler is recovered; a panic in a goroutine ends the process, so it has no step.\<close>

inductive serverStep ::
  "(GoError + SetReadyMessage \<Rightarrow> Admin \<Rightarrow> bool) \<Rightarrow> (string + PlayerDecisionsRequest \<Rightarrow> Admin \<Rightarrow> bool) \<Rightarrow> Admin \<Rightarrow> Admin \<Rightarrow> bool"
  for ready decision where
  join: "serverStep ready decision a (snd (handleAddNewPlayerAndCreateSSE body w a))"
| ackAdded: "serverStep ready decision a (snd (handleAckNewPlayerAdded body a))"
| ackSynced: "serverStep ready decision a (snd (handleAckPlayerDecisionSynced body a))"
| setReady: "ready body a \<Longrightarrow> range_order ks (IndexOfPlayer (table a)) \<Longrightarrow>
    serverStep ready decision a (snd (handleSetReady spare rnd ks addrOk body a))"
| decisions: "decision dec a \<Longrightarrow> serverStep ready decision a (snd (handlePlayerDecisionsEvent dec a))"
| dispatch: "\<not> mutexHeld a \<Longrightarrow> joinTasks a = [] \<Longrightarrow> sseControllerEvents a = us @ e # vs \<Longrightarrow>
    range_order ks' (sseWriterForPlayer a) \<Longrightarrow>
    dispatchEventWithSSE srt ok ks' early e (a\<lparr>sseControllerEvents := us @ vs\<rparr>) = Some a' \<Longrightarrow> serverStep ready decision a a'"
| joinTask: "\<not> mutexHeld a \<Longrightarrow> joinTasks a = xs @ x # ys \<Longrightarrow> range_order ks' (sseWriterForPlayer a) \<Longrightarrow>
    serverStep ready decision a (runJoinTask ok ks' x (a\<lparr>joinTasks := xs @ ys\<rparr>))"
| timeout: "ch \<in> waiting (expectedAcksList a) \<Longrightarrow>
    serverStep ready decision a (a\<lparr>expectedAcksList := ackTimeout ch (expectedAcksList a)\<rparr>)"
| callback: "c \<in> set (callbacksDue a) \<Longrightarrow> serverStep ready decision a (onSyncAck c a)"
| finish: "\<not> mutexHeld a \<Longrightarrow> 0 < syncsDone a \<Longrightarrow> serverStep ready decision a (finishSync a)"
| newTurn: "\<not> mutexHeld a \<Longrightarrow> 0 < turnsDue a \<Longrightarrow> runNewTurn a = Some a' \<Longrightarrow> serverStep ready decision a a'"

text \<open>All requests.\<close>

abbreviation adminStep :: "Admin \<Rightarrow> Admin \<Rightarrow> bool" where
  "adminStep \<equiv> serverStep (\<lambda>_ _. True) (\<lambda>_ _. True)"

text \<open>The requests of an orderly game: the shuffler is seated, the cards suffice unless they are already
  dealt, a deciding player is seated, and a chosen colour is one of the four.\<close>

definition orderlyReady :: "GoError + SetReadyMessage \<Rightarrow> Admin \<Rightarrow> bool" where
  "orderlyReady body a \<longleftrightarrow> (case body of
     Inl _ \<Rightarrow> True
   | Inr m \<Rightarrow> readyShufflerName m \<in> set (PlayerNames (table a)) \<and>
       (IsShuffled (table a) \<or> 8 * PlayerCount (table a) < Len (DrawDeck (table a))))"

definition orderlyDecision :: "string + PlayerDecisionsRequest \<Rightarrow> Admin \<Rightarrow> bool" where
  "orderlyDecision body a \<longleftrightarrow> (case body of
     Inl _ \<Rightarrow> True
   | Inr req \<Rightarrow> DecidingPlayer req \<in> set (PlayerNames (table a)) \<and> (\<forall>d \<in> set (Decisions req). okDecision d))"

abbreviation orderlyStep :: "Admin \<Rightarrow> Admin \<Rightarrow> bool" where
  "orderlyStep \<equiv> serverStep orderlyReady orderlyDecision"

text \<open>The lines of the prompt, which runs in a goroutine of its own.\<close>

inductive promptStep :: "Admin \<Rightarrow> Admin \<Rightarrow> bool" where
  goesOn: "replLine srt ks ksHands newTable line a = ReplNext out a' \<Longrightarrow> promptStep a a'"
| blocks: "replLine srt ks ksHands newTable line a = ReplBlocked a' \<Longrightarrow> promptStep a a'"

section \<open>What the operations leave alone\<close>

lemma updatePrompt_sel [simp]:
  "table (updatePromptWithStateInfo a) = table a" "mutexHeld (updatePromptWithStateInfo a) = mutexHeld a"
  "state (updatePromptWithStateInfo a) = state a" "sseControllerEvents (updatePromptWithStateInfo a) = sseControllerEvents a"
  "expectedAcksList (updatePromptWithStateInfo a) = expectedAcksList a" "nextChan (updatePromptWithStateInfo a) = nextChan a"
  "syncOf (updatePromptWithStateInfo a) = syncOf a" "callbacksDue (updatePromptWithStateInfo a) = callbacksDue a"
  "syncsDone (updatePromptWithStateInfo a) = syncsDone a" "turnsDue (updatePromptWithStateInfo a) = turnsDue a"
  "joinTasks (updatePromptWithStateInfo a) = joinTasks a" "written (updatePromptWithStateInfo a) = written a"
  "decisionEventsCompleted (updatePromptWithStateInfo a) = decisionEventsCompleted a"
  "sseWriterForPlayer (updatePromptWithStateInfo a) = sseWriterForPlayer a" "acksLoopRuns (updatePromptWithStateInfo a) = acksLoopRuns a"
  "remainingAcks (updatePromptWithStateInfo a) = remainingAcks a" "userConfig (updatePromptWithStateInfo a) = userConfig a"
  by (simp_all add: updatePromptWithStateInfo_def split: option.split)

lemma setState_sel [simp]:
  "table (setState s a) = table a" "mutexHeld (setState s a) = mutexHeld a"
  "state (setState s a) = s" "sseControllerEvents (setState s a) = sseControllerEvents a"
  "expectedAcksList (setState s a) = expectedAcksList a" "nextChan (setState s a) = nextChan a"
  "syncOf (setState s a) = syncOf a" "callbacksDue (setState s a) = callbacksDue a"
  "syncsDone (setState s a) = syncsDone a" "turnsDue (setState s a) = turnsDue a"
  "joinTasks (setState s a) = joinTasks a" "written (setState s a) = written a"
  "decisionEventsCompleted (setState s a) = decisionEventsCompleted a"
  "sseWriterForPlayer (setState s a) = sseWriterForPlayer a" "acksLoopRuns (setState s a) = acksLoopRuns a"
  "remainingAcks (setState s a) = remainingAcks a" "userConfig (setState s a) = userConfig a"
  by (simp_all add: setState_def)

lemma send_sel [simp]:
  "table (snd (sendMessageToAllPlayersWithSSE ok ks x ev a)) = table a"
  "mutexHeld (snd (sendMessageToAllPlayersWithSSE ok ks x ev a)) = mutexHeld a"
  "state (snd (sendMessageToAllPlayersWithSSE ok ks x ev a)) = state a"
  "sseControllerEvents (snd (sendMessageToAllPlayersWithSSE ok ks x ev a)) = sseControllerEvents a"
  "expectedAcksList (snd (sendMessageToAllPlayersWithSSE ok ks x ev a)) = expectedAcksList a"
  "nextChan (snd (sendMessageToAllPlayersWithSSE ok ks x ev a)) = nextChan a"
  "syncOf (snd (sendMessageToAllPlayersWithSSE ok ks x ev a)) = syncOf a"
  "callbacksDue (snd (sendMessageToAllPlayersWithSSE ok ks x ev a)) = callbacksDue a"
  "syncsDone (snd (sendMessageToAllPlayersWithSSE ok ks x ev a)) = syncsDone a"
  "turnsDue (snd (sendMessageToAllPlayersWithSSE ok ks x ev a)) = turnsDue a"
  "decisionEventsCompleted (snd (sendMessageToAllPlayersWithSSE ok ks x ev a)) = decisionEventsCompleted a"
  "acksLoopRuns (snd (sendMessageToAllPlayersWithSSE ok ks x ev a)) = acksLoopRuns a"
  "remainingAcks (snd (sendMessageToAllPlayersWithSSE ok ks x ev a)) = remainingAcks a"
  "sseWriterForPlayer (snd (sendMessageToAllPlayersWithSSE ok ks x ev a)) = sseWriterForPlayer a"
  "userConfig (snd (sendMessageToAllPlayersWithSSE ok ks x ev a)) = userConfig a"
  by (induction ok ks x ev a rule: sendMessageToAllPlayersWithSSE.induct) (simp_all add: Let_def)

lemma sendSingle_sel [simp]:
  "table (snd (sendMessageToSinglePlayerWithSSE ok p ev a)) = table a"
  "state (snd (sendMessageToSinglePlayerWithSSE ok p ev a)) = state a"
  "sseControllerEvents (snd (sendMessageToSinglePlayerWithSSE ok p ev a)) = sseControllerEvents a"
  "expectedAcksList (snd (sendMessageToSinglePlayerWithSSE ok p ev a)) = expectedAcksList a"
  "nextChan (snd (sendMessageToSinglePlayerWithSSE ok p ev a)) = nextChan a"
  "syncOf (snd (sendMessageToSinglePlayerWithSSE ok p ev a)) = syncOf a"
  "callbacksDue (snd (sendMessageToSinglePlayerWithSSE ok p ev a)) = callbacksDue a"
  "syncsDone (snd (sendMessageToSinglePlayerWithSSE ok p ev a)) = syncsDone a"
  "turnsDue (snd (sendMessageToSinglePlayerWithSSE ok p ev a)) = turnsDue a"
  by (simp_all add: sendMessageToSinglePlayerWithSSE_def split: option.split)

text \<open>Registering and receiving acks moves neither the table nor the state machine.\<close>

definition sameGame :: "Admin \<Rightarrow> Admin \<Rightarrow> bool" where
  "sameGame a a' \<longleftrightarrow> table a' = table a \<and> state a' = state a \<and> sseControllerEvents a' = sseControllerEvents a \<and>
     syncsDone a' = syncsDone a \<and> turnsDue a' = turnsDue a"

lemma sameGame_refl [simp]: "sameGame a a"
  by (simp add: sameGame_def)

lemma sameGame_trans: "sameGame a b \<Longrightarrow> sameGame b c \<Longrightarrow> sameGame a c"
  by (simp add: sameGame_def)

lemma sameGame_registerAck: "sameGame a (registerAck g ack a)"
  by (simp add: registerAck_def sameGame_def)

lemma sameGame_receiveAck: "sameGame a (receiveAck ack a)"
  by (simp add: receiveAck_def sameGame_def Let_def)

lemma sameGame_sendAck: "sendAck ack a = Some a' \<Longrightarrow> sameGame a a'"
  by (auto simp: sendAck_def sameGame_receiveAck split: if_splits)

lemma sameGame_joinAcks: "sameGame a (joinAcks p ks a)"
  by (induction p ks a rule: joinAcks.induct) (simp, metis joinAcks.simps(2) sameGame_registerAck sameGame_trans)

lemma sameGame_syncAcks: "sameGame a (syncAcks g req ks a)"
  by (induction g req ks a rule: syncAcks.induct) (simp, metis syncAcks.simps(2) sameGame_registerAck sameGame_trans)

lemma sameGame_receiveEarly: "sameGame a (receiveEarly early a)"
proof (induction early arbitrary: a)
  case (Cons ack early)
  have "sameGame a (case sendAck ack a of None \<Rightarrow> a | Some a \<Rightarrow> a)"
    by (auto split: option.split intro: sameGame_sendAck)
  with Cons show ?case by (auto simp: receiveEarly_def intro: sameGame_trans)
qed (simp add: receiveEarly_def)

end
