(* ===== verification/AdminRuns.thy ===== *)
theory AdminRuns
  imports Admin
begin

text \<open>
  The admin server in every interleaving of requests, acks, timeouts and goroutines (\<open>adminStep\<close>,
  or \<open>orderlyStep\<close> where requests are those of an orderly game).  The first part shows that the server acts on its list of acks by the steps of that list
  (\<open>acksRefine\<close>); the second that the table stays one of a game with the cards it started with
  (\<open>adminInv\<close>); the third what happens once the mutex is lost, and that a decision whose acks
  arrive in time leads to the next turn.
\<close>

section \<open>The list of acks\<close>

text \<open>What the server does to its list of acks are steps of the list, with fresh channels.\<close>

definition freshChans :: "Admin \<Rightarrow> bool" where
  "freshChans a \<longleftrightarrow> usedChans (expectedAcksList a) \<subseteq> {..<nextChan a}"

definition acksRefine :: "Admin \<Rightarrow> Admin \<Rightarrow> bool" where
  "acksRefine a a' \<longleftrightarrow> (freshChans a \<longrightarrow> freshChans a' \<and> ackStep\<^sup>*\<^sup>* (expectedAcksList a) (expectedAcksList a'))"

lemma acksRefine_trans: "acksRefine a b \<Longrightarrow> acksRefine b c \<Longrightarrow> acksRefine a c"
  by (auto simp: acksRefine_def)

lemma acksRefine_same: "expectedAcksList a' = expectedAcksList a \<Longrightarrow> nextChan a' = nextChan a \<Longrightarrow> acksRefine a a'"
  by (simp add: acksRefine_def freshChans_def)

lemma usedChans_add: "usedChans (addPending ack ch es) \<subseteq> insert ch (usedChans es)"
  by (auto simp: addPending_def usedChans_def Let_def split: option.splits)

lemma usedChans_receive: "usedChans (waitForAcks ack es) \<subseteq> usedChans es"
proof (cases "deleteFirst (\<lambda>p. ackEqual (pendingFor p) ack) (pendingAcks es)")
  case (Some r)
  obtain p rest where r: "r = (p, rest)" by fastforce
  from Some r obtain us vs where "pendingAcks es = us @ p # vs" "rest = us @ vs" by (auto dest!: deleteFirst_Some)
  with Some r show ?thesis by (auto simp: waitForAcks_def usedChans_def Let_def)
qed (auto simp: waitForAcks_def usedChans_def)

lemma usedChans_timeout: "ch \<in> waiting es \<Longrightarrow> usedChans (ackTimeout ch es) \<subseteq> usedChans es"
  by (auto simp: ackTimeout_def usedChans_def)

lemma acksRefine_registerAck: "acksRefine a (registerAck g ack a)"
proof (cases "stuck (expectedAcksList a)")
  case False
  have f: "nextChan a \<notin> usedChans (expectedAcksList a)" if "freshChans a" using that by (auto simp: freshChans_def)
  have "ackStep (expectedAcksList a) (expectedAcksList (registerAck g ack a))" if "freshChans a"
    using False f [OF that] ackStep.add by (simp add: registerAck_def)
  moreover have "freshChans (registerAck g ack a)" if "freshChans a"
    using False that usedChans_add [of ack "nextChan a" "expectedAcksList a"]
    by (auto simp: registerAck_def freshChans_def less_Suc_eq)
  ultimately show ?thesis by (auto simp: acksRefine_def)
qed (simp add: registerAck_def acksRefine_same)

lemma acksRefine_sendAck:
  assumes "sendAck ack a = Some a'"
  shows "acksRefine a a'"
proof -
  let ?es = "expectedAcksList a"
  have "\<not> stuck ?es" "expectedAcksList a' = waitForAcks ack ?es" "nextChan a' = nextChan a"
    using assms by (auto simp: sendAck_def receiveAck_def Let_def split: if_splits)
  with ackStep.receive [of ?es ack] subset_trans [OF usedChans_receive [of ack ?es]]
  show ?thesis by (auto simp: acksRefine_def freshChans_def)
qed

lemma acksRefine_joinAcks: "acksRefine a (joinAcks p ks a)"
  by (induction p ks a rule: joinAcks.induct)
    (simp add: acksRefine_same, metis joinAcks.simps(2) acksRefine_registerAck acksRefine_trans)

lemma acksRefine_syncAcks: "acksRefine a (syncAcks g req ks a)"
  by (induction g req ks a rule: syncAcks.induct)
    (simp add: acksRefine_same, metis syncAcks.simps(2) acksRefine_registerAck acksRefine_trans)

lemma acksRefine_receiveEarly: "acksRefine a (receiveEarly early a)"
proof (induction early arbitrary: a)
  case (Cons ack early)
  have "acksRefine a (case sendAck ack a of None \<Rightarrow> a | Some a \<Rightarrow> a)"
    by (auto split: option.split intro: acksRefine_sendAck acksRefine_same)
  with Cons show ?case by (auto simp: receiveEarly_def intro: acksRefine_trans)
qed (simp add: receiveEarly_def acksRefine_same)

section \<open>The invariant\<close>

text \<open>A table an admin can start with: the usual one or one from a configuration.\<close>

definition startTable :: "Table \<Rightarrow> bool" where
  "startTable t \<longleftrightarrow> wf_table t \<and> (\<forall>c \<in># tableCards t. valid_card c) \<and>
     (if IsShuffled t then wf_game t else \<forall>p \<in> set (PlayerNames t). handOf t p = [])"

fun eventOk :: "AdminState \<Rightarrow> Table \<Rightarrow> sseEvent \<Rightarrow> bool" where
  "eventOk s t (sseCommandSyncPlayerJoinedEventToAll _ _) \<longleftrightarrow> True"
| "eventOk s t (sseCommandSendServedCardsEventToAll _) \<longleftrightarrow> s \<noteq> AddingPlayers"
| "eventOk s t sseCommandSendChosenPlayerEventToAll \<longleftrightarrow> s \<noteq> AddingPlayers"
| "eventOk s t (sseCommandSyncPlayerDecisionEvent req) \<longleftrightarrow> s \<noteq> AddingPlayers \<and>
     DecidingPlayer req \<in> set (PlayerNames t) \<and> (\<forall>d \<in> set (Decisions req). okDecision d)"

definition adminInv :: "Card multiset \<Rightarrow> Admin \<Rightarrow> bool" where
  "adminInv C a \<longleftrightarrow> tableCards (table a) = C \<and>
     (if state a = AddingPlayers then startTable (table a) else wf_game (table a)) \<and>
     (\<forall>e \<in> set (sseControllerEvents a). eventOk (state a) (table a) e) \<and>
     (state a = AddingPlayers \<longrightarrow>
        (\<forall>c. syncOf a c = None) \<and> callbacksDue a = [] \<and> syncsDone a = 0 \<and> turnsDue a = 0)"

definition quiet :: "Admin \<Rightarrow> bool" where
  "quiet a \<longleftrightarrow> (\<forall>c. syncOf a c = None) \<and> callbacksDue a = []"

lemma quiet_registerAck: "quiet a \<Longrightarrow> quiet (registerAck None ack a)"
  by (simp add: quiet_def registerAck_def)

lemma quiet_sendAck: "quiet a \<Longrightarrow> sendAck ack a = Some a' \<Longrightarrow> quiet a'"
  by (auto simp: quiet_def sendAck_def receiveAck_def Let_def split: if_splits)

lemma quiet_joinAcks: "quiet a \<Longrightarrow> quiet (joinAcks p ks a)"
  by (induction p ks a rule: joinAcks.induct) (simp_all add: quiet_registerAck)

lemma adminInv_sameGame:
  "adminInv C a \<Longrightarrow> sameGame a a' \<Longrightarrow> (quiet a \<Longrightarrow> quiet a') \<Longrightarrow> adminInv C a'"
  by (auto simp: adminInv_def sameGame_def quiet_def)

lemma adminInv_sendAck: "adminInv C a \<Longrightarrow> sendAck ack a = Some a' \<Longrightarrow> adminInv C a'"
  by (metis adminInv_sameGame sameGame_sendAck quiet_sendAck)

lemma eventOk_mono: "eventOk s t e \<Longrightarrow> set (PlayerNames t) \<subseteq> set (PlayerNames t') \<Longrightarrow> eventOk s t' e"
  by (cases e) auto

lemma adminInv_join:
  assumes "adminInv C a"
  shows "adminInv C (snd (handleAddNewPlayerAndCreateSSE body w a))"
proof (cases "\<exists>p ps m. body = Inr m \<and> newPlayerNames m = p # ps \<and> p \<notin> set (PlayerNames (table a)) \<and>
    \<not> mutexHeld a \<and> state a = AddingPlayers \<and> \<not> IsShuffled (table a)")
  case True
  then obtain p ps m where b: "body = Inr m" "newPlayerNames m = p # ps" "p \<notin> set (PlayerNames (table a))"
    "\<not> mutexHeld a" "state a = AddingPlayers" "\<not> IsShuffled (table a)" by blast
  let ?t = "snd (AddPlayer p (table a))"
  have i: "wf_table (table a)" "\<forall>p \<in> set (PlayerNames (table a)). handOf (table a) p = []"
    "\<forall>c \<in># tableCards (table a). valid_card c" "tableCards (table a) = C"
    using assms b by (auto simp: adminInv_def startTable_def)
  have "\<not> IsShuffled ?t" "\<forall>q \<in> set (PlayerNames ?t). handOf ?t q = []" using i b(3,6) by (simp_all add: AddPlayer_fresh)
  then have "startTable ?t" using AddPlayer_wf [OF i(1)] tableCards_AddPlayer [OF i(1)] i by (simp add: startTable_def)
  moreover have "fst (AddPlayer p (table a)) = None" "set (PlayerNames (table a)) \<subseteq> set (PlayerNames ?t)"
    using b(3) by (simp_all add: AddPlayer_fresh subset_insertI)
  moreover have "snd (handleAddNewPlayerAndCreateSSE body w a) =
      a\<lparr>table := ?t, sseControllerEvents := sseControllerEvents a @ [sseCommandSyncPlayerJoinedEventToAll p w]\<rparr>"
    using b calculation(2) by (auto simp: handleAddNewPlayerAndCreateSSE_def Let_def split: prod.split)
  ultimately show ?thesis using assms b(5) tableCards_AddPlayer [OF i(1)] i(4)
    by (auto simp: adminInv_def intro: eventOk_mono)
next
  case False
  have t: "AddPlayer p (table a) = (Some ExistingPlayerHasSameName, table a)" if "p \<in> set (PlayerNames (table a))" for p
    using that by (rule AddPlayer_taken)
  show ?thesis using assms False t
    by (auto simp: handleAddNewPlayerAndCreateSSE_def adminInv_def Let_def split: sum.split list.split)
qed

lemma tableCards_names [simp]:
  "tableCards (t\<lparr>ShufflerName := p\<rparr>) = tableCards t" "tableCards (t\<lparr>PlayerOfNextTurn := p\<rparr>) = tableCards t"
  by (simp_all add: tableCards_def)

lemma wf_table_names [simp]:
  "wf_table (t\<lparr>ShufflerName := p\<rparr>) = wf_table t" "wf_table (t\<lparr>PlayerOfNextTurn := p\<rparr>) = wf_table t"
  by (simp_all add: wf_table_def wf_seating_def)

lemma wf_game_names: "wf_game (t\<lparr>ShufflerName := p\<rparr>) = wf_game t"
  "wf_game t \<Longrightarrow> p \<in> set (PlayerNames t) \<Longrightarrow> wf_game (t\<lparr>PlayerOfNextTurn := p\<rparr>)"
  by (simp_all add: wf_game_def)

lemma serveCards_ok:
  assumes "startTable t" "range_order ks (IndexOfPlayer t)" "readyShufflerName m \<in> set (PlayerNames t)"
    and "serveCards rnd ks m t = Some t'"
  shows "wf_game t' \<and> tableCards t' = tableCards t"
proof -
  let ?t = "t\<lparr>ShufflerName := readyShufflerName m\<rparr>"
  obtain s where s: "(if \<not> IsShuffled ?t then ShuffleDeckAndDistribute rnd ks 8 ?t else Some ?t) = Some s"
    "t' = (if ShufflerIsFirstPlayer m then s\<lparr>PlayerOfNextTurn := ShufflerName s\<rparr> else s)"
    using assms(4) unfolding serveCards_def Let_def Option.bind_eq_Some_conv by blast
  have "wf_game s \<and> tableCards s = tableCards t \<and> ShufflerName s \<in> set (PlayerNames s)"
  proof (cases "IsShuffled t")
    case True
    with s(1) have "s = ?t" by simp
    with True assms(1,3) show ?thesis by (simp add: startTable_def wf_game_names)
  next
    case False
    then have d: "ShuffleDeckAndDistribute rnd ks 8 ?t = Some s" using s(1) by simp
    have w: "wf_table ?t" "range_order ks (IndexOfPlayer ?t)" "tableCards ?t = tableCards t"
      using assms(1,2) by (simp_all add: startTable_def)
    have h: "\<forall>p \<in> set (PlayerNames ?t). handOf ?t p = []" "\<forall>c \<in># tableCards ?t. valid_card c"
      using assms(1) False w(3) by (simp_all add: startTable_def)
    have n: "8 * PlayerCount ?t < Len (DrawDeck ?t)" "PlayerNames ?t \<noteq> []" using deal_panics [OF w(1,2), of rnd 8] d by simp_all
    have "ShufflerName s = readyShufflerName m"
      by (rule ShuffleDeckAndDistribute_cases [OF w(1,2) _ _ n(2,1), of rnd]) (use d in \<open>auto simp: turnedTable_def Let_def\<close>)
    with deal_ok [OF w(1,2) _ h _ _ n(1), of rnd] assms(3) d w(3) show ?thesis by auto
  qed
  then show ?thesis unfolding s(2) by (simp add: wf_game_names)
qed

text \<open>With a seated shuffler and enough cards the deal does not panic.\<close>

lemma serveCards_defined:
  assumes "startTable t" "range_order ks (IndexOfPlayer t)" "readyShufflerName m \<in> set (PlayerNames t)"
    and "IsShuffled t \<or> 8 * PlayerCount t < Len (DrawDeck t)"
  shows "serveCards rnd ks m t \<noteq> None"
proof -
  let ?t = "t\<lparr>ShufflerName := readyShufflerName m\<rparr>"
  have "wf_table ?t" "range_order ks (IndexOfPlayer ?t)" using assms(1,2) by (simp_all add: startTable_def)
  from deal_panics [OF this, of rnd 8] assms(3,4) show ?thesis
    by (auto simp: serveCards_def PlayerCount_def Let_def bind_eq_None_conv split: if_splits)
qed

lemma handleSetReady_cases:
  obtains (kept) h where "snd (handleSetReady spare rnd ks addrOk body a) = a\<lparr>mutexHeld := h\<rparr>"
      "mutexHeld a \<Longrightarrow> h" "fst (handleSetReady spare rnd ks addrOk body a) \<noteq> Panicked"
    | (dealt) m t where "body = Inr m" "state a = AddingPlayers" "\<not> mutexHeld a" "serveCards rnd ks m (table a) = Some t"
      "handleSetReady spare rnd ks addrOk body a = (Responded StatusOK [], (setState ReadyToServeCards a)\<lparr>table := t,
         sseControllerEvents := sseControllerEvents a @ [sseCommandSendServedCardsEventToAll t]\<rparr>)"
    | (panic) m where "body = Inr m" "state a = AddingPlayers" "\<not> mutexHeld a" "serveCards rnd ks m (table a) = None"
      "handleSetReady spare rnd ks addrOk body a = (Panicked, (setState ReadyToServeCards a)\<lparr>table := servedLeft spare rnd ks m (table a)\<rparr>)"
proof -
  have h: "a = a\<lparr>mutexHeld := mutexHeld a\<rparr>" by simp
  show ?thesis
  proof (cases "mutexHeld a \<or> \<not> addrOk \<or> state a \<noteq> AddingPlayers \<or> stuck (expectedAcksList a) \<or> pendingAcks (expectedAcksList a) \<noteq> []")
    case True
    then show ?thesis using h by (intro kept [of "mutexHeld a \<or> addrOk \<and> state a = AddingPlayers \<and> stuck (expectedAcksList a)"])
      (auto simp: handleSetReady_def Let_def)
  next
    case False
    show ?thesis
    proof (cases body)
      case (Inl e)
      with False h show ?thesis by (intro kept [of "mutexHeld a"]) (simp_all add: handleSetReady_def)
    next
      case (Inr m)
      with False dealt [of m] panic [of m] show ?thesis
        by (cases "serveCards rnd ks m (table a)") (simp_all add: handleSetReady_def Let_def)
    qed
  qed
qed

lemma adminInv_setReady:
  assumes "adminInv C a" "range_order ks (IndexOfPlayer (table a))" "orderlyReady body a"
  shows "adminInv C (snd (handleSetReady spare rnd ks addrOk body a)) \<and> fst (handleSetReady spare rnd ks addrOk body a) \<noteq> Panicked"
proof (cases rule: handleSetReady_cases [of spare rnd ks addrOk body a])
  case (kept h)
  then show ?thesis using assms(1) by (simp add: adminInv_def)
next
  case (dealt m t)
  have "startTable (table a)" "tableCards (table a) = C" using assms(1) dealt(2) by (simp_all add: adminInv_def)
  then have "wf_game t \<and> tableCards t = C" using serveCards_ok [OF _ assms(2) _ dealt(4)] assms(3) dealt(1) by (simp add: orderlyReady_def)
  moreover have "eventOk s t' e" if "eventOk AddingPlayers (table a) e" for s t' e using that by (cases e) auto
  ultimately show ?thesis using assms(1) dealt(2,5) by (simp add: adminInv_def)
next
  case (panic m)
  have "startTable (table a)" using assms(1) panic(2) by (simp add: adminInv_def)
  from serveCards_defined [OF this assms(2), of m rnd] assms(3) panic(1,4) show ?thesis by (simp add: orderlyReady_def)
qed

lemma adminInv_decisions:
  assumes "adminInv C a" "orderlyDecision dec a"
  shows "adminInv C (snd (handlePlayerDecisionsEvent dec a))"
proof (cases "\<exists>req a1. dec = Inr req \<and> \<not> mutexHeld a \<and> state a = WaitingForPlayerDecision \<and>
    sendAck (decisionAck (DecidingPlayer req) (DecisionEventCounter req)) a = Some a1")
  case True
  then obtain req a1 where r: "dec = Inr req" "\<not> mutexHeld a" "state a = WaitingForPlayerDecision"
    "sendAck (decisionAck (DecidingPlayer req) (DecisionEventCounter req)) a = Some a1" by blast
  have "adminInv C a1" "table a1 = table a" "state a1 = state a"
    using adminInv_sendAck [OF assms(1) r(4)] sameGame_sendAck [OF r(4)] by (simp_all add: sameGame_def)
  then show ?thesis using r assms(2) by (simp add: handlePlayerDecisionsEvent_def adminInv_def orderlyDecision_def)
next
  case False
  have h: "adminInv C (a\<lparr>mutexHeld := True\<rparr>)" using assms(1) by (simp add: adminInv_def)
  from False assms(1) h show ?thesis by (auto simp: handlePlayerDecisionsEvent_def split: sum.split option.split)
qed

lemma adminInv_acks:
  assumes "adminInv C a"
  shows "adminInv C (snd (handleAckNewPlayerAdded b a))" "adminInv C (snd (handleAckPlayerDecisionSynced b' a))"
  using assms by (auto simp: handleAckNewPlayerAdded_def handleAckPlayerDecisionSynced_def
    intro: adminInv_sendAck split: sum.split option.split)

lemma adminInv_joinTask:
  assumes "adminInv C a"
  shows "adminInv C (runJoinTask ok ks x (a\<lparr>joinTasks := xs\<rparr>))"
proof -
  let ?a = "a\<lparr>joinTasks := xs\<rparr>"
  have a: "adminInv C ?a" using assms by (simp add: adminInv_def)
  show ?thesis
  proof (cases x)
    case (JoinBroadcast p)
    then show ?thesis by (intro adminInv_sameGame [OF a]) (simp_all add: sameGame_def quiet_def)
  next
    case (JoinRegister p)
    have "adminInv C (joinAcks p ks ?a)" using a sameGame_joinAcks quiet_joinAcks by (rule adminInv_sameGame)
    then show ?thesis by (rule adminInv_sameGame) (simp_all add: JoinRegister sameGame_def quiet_def Let_def)
  qed
qed

text \<open>What is kept by every dispatch: the state machine has left the joining phase.\<close>

lemma adminInv_playing:
  "state a \<noteq> AddingPlayers \<Longrightarrow> adminInv C a \<longleftrightarrow> tableCards (table a) = C \<and> wf_game (table a) \<and>
     (\<forall>e \<in> set (sseControllerEvents a). eventOk (state a) (table a) e)"
  by (simp add: adminInv_def)

lemma eventOk_state: "s \<noteq> AddingPlayers \<Longrightarrow> eventOk s' t e \<Longrightarrow> eventOk s t e"
  by (cases e) auto

lemma dispatchDecision_cases:
  assumes "dispatchDecision srt ok ks early req a = Some a'"
  obtains (rejected) err t where
      "EvalPlayerDecisionsNoTransferChan srt (DecidingPlayer req) (Decisions req) (table a) = Some (Some err, t)"
      "a' = a\<lparr>table := t\<rparr>"
    | (accepted) t where
      "EvalPlayerDecisionsNoTransferChan srt (DecidingPlayer req) (Decisions req) (table a) = Some (None, t)"
      "table a' = t" "state a' = SyncingPlayerDecision" "sseControllerEvents a' = sseControllerEvents a"
      "syncsDone a' = syncsDone a" "turnsDue a' = turnsDue a" "acksRefine a a'"
proof (cases "EvalPlayerDecisionsNoTransferChan srt (DecidingPlayer req) (Decisions req) (table a)")
  case (Some r)
  obtain e t where r: "r = (e, t)" by fastforce
  show ?thesis
  proof (cases e)
    case None
    define a1 where "a1 = updatePromptWithStateInfo (setState SyncingPlayerDecision (a\<lparr>table := t\<rparr>))"
    define a2 where "a2 = snd (sendMessageToAllPlayersWithSSE ok ks (DecidingPlayer req) (PlayerDecisionsSyncEvent req) a1)"
    define a3 where "a3 = receiveEarly early a2"
    define a4 where "a4 = a3\<lparr>remainingAcks := (remainingAcks a3)(nextChan a3 := int (length ks) - 1)\<rparr>"
    have a': "a' = a2 \<or> a' = syncAcks (nextChan a3) req ks a4"
      using assms Some r None unfolding dispatchDecision_def a4_def a3_def a2_def a1_def
      by (auto simp: Let_def split: prod.splits bool.splits)
    have s: "table a2 = t" "state a2 = SyncingPlayerDecision" "sseControllerEvents a2 = sseControllerEvents a"
      "syncsDone a2 = syncsDone a" "turnsDue a2 = turnsDue a"
      unfolding a2_def a1_def by simp_all
    have q: "acksRefine a a2" by (rule acksRefine_same) (simp_all add: a2_def a1_def)
    have "sameGame a2 a4" using sameGame_receiveEarly [of a2 early] by (simp add: a4_def a3_def sameGame_def)
    then have s': "sameGame a2 a'" using a' sameGame_syncAcks [of a4] by (auto intro: sameGame_trans)
    have "acksRefine a3 a4" by (rule acksRefine_same) (simp_all add: a4_def)
    then have "acksRefine a2 a4" using acksRefine_receiveEarly [of a2 early] unfolding a3_def by (blast intro: acksRefine_trans)
    with q a' acksRefine_syncAcks have "acksRefine a a'" by (metis acksRefine_trans)
    with s s' Some r None show ?thesis by (intro accepted) (simp_all add: sameGame_def)
  next
    case (Some err)
    with \<open>EvalPlayerDecisionsNoTransferChan _ _ _ _ = Some r\<close> r assms show ?thesis
      by (intro rejected) (auto simp: dispatchDecision_def)
  qed
qed (use assms in \<open>simp add: dispatchDecision_def\<close>)

lemma evalDecisions_ok:
  assumes "wf_game t" "p \<in> set (PlayerNames t)" "\<forall>d \<in> set ds. okDecision d"
  obtains e t' where "EvalPlayerDecisionsNoTransferChan srt p ds t = Some (e, t')" "wf_game t'"
    "tableCards t' = tableCards t" "set (PlayerNames t') = set (PlayerNames t)"
proof -
  obtain e ch t' where r: "EvalPlayerDecisions srt p ds [] t = Some (e, ch, t')" "wf_game t'"
    "tableCards t' = tableCards t" "(\<lambda>p. p \<in> set (PlayerNames t')) = (\<lambda>p. p \<in> set (PlayerNames t))"
    using tables.run_ok [of "([], t)" p ds srt] assms by auto
  have "set (PlayerNames t') = set (PlayerNames t)" using r(4) by (metis Collect_mem_eq)
  with r that show ?thesis by (simp add: EvalPlayerDecisionsNoTransferChan_def)
qed

lemma adminInv_dispatch:
  assumes i: "adminInv C a" and e: "sseControllerEvents a = us @ e # vs"
    and d: "dispatchEventWithSSE srt ok ks early e (a\<lparr>sseControllerEvents := us @ vs\<rparr>) = Some a'"
  shows "adminInv C a'"
proof (cases e)
  case (sseCommandSyncPlayerJoinedEventToAll p w)
  with i e d show ?thesis by (auto simp: adminInv_def dispatchJoined_def)
next
  case (sseCommandSyncPlayerDecisionEvent req)
  have p: "state a \<noteq> AddingPlayers" "wf_game (table a)" "DecidingPlayer req \<in> set (PlayerNames (table a))"
    "\<forall>d \<in> set (Decisions req). okDecision d" "tableCards (table a) = C"
    using i e sseCommandSyncPlayerDecisionEvent by (auto simp: adminInv_def)
  obtain r t where t: "EvalPlayerDecisionsNoTransferChan srt (DecidingPlayer req) (Decisions req) (table a) = Some (r, t)"
    "wf_game t" "tableCards t = tableCards (table a)" "set (PlayerNames t) = set (PlayerNames (table a))"
    by (rule evalDecisions_ok [OF p(2-4)])
  have v: "\<forall>x \<in> set (us @ vs). eventOk (state a) t x" using i e t(4) by (auto simp: adminInv_def intro: eventOk_mono)
  have "dispatchDecision srt ok ks early req (a\<lparr>sseControllerEvents := us @ vs\<rparr>) = Some a'"
    using d sseCommandSyncPlayerDecisionEvent by simp
  then show ?thesis
  proof (cases rule: dispatchDecision_cases)
    case (rejected err s)
    with t p v show ?thesis by (simp add: adminInv_playing)
  next
    case (accepted s)
    with t p v show ?thesis by (auto simp: adminInv_playing intro: eventOk_state)
  qed
next
  case (sseCommandSendServedCardsEventToAll t)
  with i e d show ?thesis by (auto simp: adminInv_def dispatchServedCards_def Let_def)
next
  case sseCommandSendChosenPlayerEventToAll
  have p: "state a \<noteq> AddingPlayers" using i e sseCommandSendChosenPlayerEventToAll by (auto simp: adminInv_def)
  define m where "m = sendMessageToAllPlayersWithSSE ok ks [] (ChosenPlayerEvent (PlayerOfNextTurn (table a))
    (decisionEventsCompleted a)) (a\<lparr>sseControllerEvents := us @ vs\<rparr>)"
  have "a' = snd m \<or> (\<exists>ack. a' = registerAck None ack (setState WaitingForPlayerDecision (snd m)))"
    using d sseCommandSendChosenPlayerEventToAll by (auto simp: dispatchChosenPlayer_def m_def Let_def split: prod.splits bool.splits)
  then have s: "(state a' = state a \<or> state a' = WaitingForPlayerDecision) \<and> table a' = table a \<and> sseControllerEvents a' = us @ vs"
    using sameGame_registerAck [of "setState WaitingForPlayerDecision (snd m)"] by (auto simp: sameGame_def m_def)
  then have "state a' \<noteq> AddingPlayers" using p by auto
  with s p i e show ?thesis by (auto simp: adminInv_playing intro: eventOk_state)
qed

lemma runNewTurn_cases:
  "runNewTurn a = Some a' \<Longrightarrow> table a' = table a \<and>
     (state a' = state a \<or> state a' = AdminHaveWinner \<or> state a' = PlayerChosenForTurn) \<and>
     set (sseControllerEvents a') \<subseteq> insert sseCommandSendChosenPlayerEventToAll (set (sseControllerEvents a))"
  by (auto simp: runNewTurn_def Let_def split: if_splits)

lemma adminInv_step: "orderlyStep a a' \<Longrightarrow> adminInv C a \<Longrightarrow> adminInv C a'"
proof (induction rule: serverStep.induct)
  case (callback c a)
  then have "state a \<noteq> AddingPlayers" by (auto simp: adminInv_def)
  with callback show ?case by (simp add: adminInv_playing onSyncAck_def Let_def)
next
  case (finish a)
  then have "state a \<noteq> AddingPlayers" by (auto simp: adminInv_def)
  with finish show ?case by (auto simp: adminInv_playing finishSync_def Let_def intro: eventOk_state)
next
  case (newTurn a a')
  then have "state a \<noteq> AddingPlayers" by (auto simp: adminInv_def)
  with runNewTurn_cases [OF newTurn.hyps(3)] have n: "state a' \<noteq> AddingPlayers" by auto
  have "eventOk (state a') (table a) e" if "e \<in> set (sseControllerEvents a')" for e
  proof (cases "e = sseCommandSendChosenPlayerEventToAll")
    case False
    with that runNewTurn_cases [OF newTurn.hyps(3)] have "e \<in> set (sseControllerEvents a)" by blast
    with newTurn.prems have "eventOk (state a) (table a) e" by (simp add: adminInv_def)
    with n show ?thesis by (rule eventOk_state)
  qed (simp add: n)
  with n newTurn.prems \<open>state a \<noteq> AddingPlayers\<close> runNewTurn_cases [OF newTurn.hyps(3)] show ?case
    by (simp add: adminInv_playing)
next
  case (timeout ch a)
  then show ?case by (auto intro: adminInv_sameGame simp: sameGame_def quiet_def)
qed (auto intro: adminInv_join adminInv_acks adminInv_decisions adminInv_dispatch adminInv_joinTask dest: adminInv_setReady)

text \<open>Orderly games are runs of the server.\<close>

lemma orderly_admin: "orderlyStep a a' \<Longrightarrow> adminStep a a'"
  by (induction rule: serverStep.induct) (blast intro: serverStep.intros)+

lemma dispatch_defined:
  assumes "adminInv C a" "e \<in> set (sseControllerEvents a)"
  shows "dispatchEventWithSSE srt ok ks early e (a\<lparr>sseControllerEvents := es\<rparr>) \<noteq> None"
proof (cases e)
  case (sseCommandSyncPlayerDecisionEvent req)
  with assms have p: "wf_game (table a)" "DecidingPlayer req \<in> set (PlayerNames (table a))"
    "\<forall>d \<in> set (Decisions req). okDecision d" by (auto simp: adminInv_def)
  obtain r t where "EvalPlayerDecisionsNoTransferChan srt (DecidingPlayer req) (Decisions req) (table a) = Some (r, t)"
    by (rule evalDecisions_ok [OF p])
  with sseCommandSyncPlayerDecisionEvent show ?thesis
    by (cases r) (auto simp: dispatchDecision_def Let_def split: prod.split bool.split)
qed simp_all

lemma acksRefine_dispatch:
  assumes "dispatchEventWithSSE srt ok ks early e a = Some a'"
  shows "acksRefine a a'"
proof (cases e)
  case (sseCommandSyncPlayerDecisionEvent req)
  with assms have "dispatchDecision srt ok ks early req a = Some a'" by simp
  then show ?thesis
  proof (cases rule: dispatchDecision_cases)
    case (rejected err t)
    then show ?thesis by (simp add: acksRefine_same)
  qed
next
  case sseCommandSendChosenPlayerEventToAll
  define m where "m = sendMessageToAllPlayersWithSSE ok ks [] (ChosenPlayerEvent (PlayerOfNextTurn (table a))
    (decisionEventsCompleted a)) a"
  have a': "a' = snd m \<or> (\<exists>ack. a' = registerAck None ack (setState WaitingForPlayerDecision (snd m)))"
    using assms sseCommandSendChosenPlayerEventToAll by (auto simp: dispatchChosenPlayer_def m_def Let_def split: prod.splits bool.splits)
  have "acksRefine a (snd m)" "acksRefine a (setState WaitingForPlayerDecision (snd m))"
    by (simp_all add: acksRefine_same m_def)
  with a' show ?thesis using acksRefine_registerAck acksRefine_trans by blast
qed (use assms in \<open>auto simp: dispatchJoined_def dispatchServedCards_def Let_def intro!: acksRefine_same\<close>)

lemma acksRefine_joinTask: "acksRefine a (runJoinTask ok ks x (a\<lparr>joinTasks := xs\<rparr>))"
proof (cases x)
  case (JoinRegister p)
  have "acksRefine a (a\<lparr>joinTasks := xs\<rparr>)" by (simp add: acksRefine_same)
  then have "acksRefine a (joinAcks p ks (a\<lparr>joinTasks := xs\<rparr>))" using acksRefine_joinAcks by (rule acksRefine_trans)
  moreover have "acksRefine (joinAcks p ks (a\<lparr>joinTasks := xs\<rparr>)) (runJoinTask ok ks x (a\<lparr>joinTasks := xs\<rparr>))"
    by (rule acksRefine_same) (simp_all add: JoinRegister Let_def)
  ultimately show ?thesis by (rule acksRefine_trans)
qed (simp add: acksRefine_same)

lemma acksRefine_step: "serverStep ready decision a a' \<Longrightarrow> acksRefine a a'"
proof (induction rule: serverStep.induct)
  case (join a body w)
  then show ?case by (rule acksRefine_same)
    (auto simp: handleAddNewPlayerAndCreateSSE_def Let_def split: sum.split list.split prod.split option.split)
next
  case (setReady body a ks spare rnd addrOk)
  show ?case by (rule handleSetReady_cases [of spare rnd ks addrOk body a]) (simp_all add: acksRefine_same)
next
  case (decisions dec a)
  have "acksRefine a (b\<lparr>sseControllerEvents := es\<rparr>)" if "acksRefine a b" for b es
    using that acksRefine_same by (rule acksRefine_trans) simp_all
  then show ?case using acksRefine_sendAck
    by (auto simp: handlePlayerDecisionsEvent_def acksRefine_same split: sum.split option.split)
next
  case (dispatch a us e vs ks' srt ok early a')
  have "acksRefine a (a\<lparr>sseControllerEvents := us @ vs\<rparr>)" by (simp add: acksRefine_same)
  then show ?case using acksRefine_dispatch [OF dispatch(5)] by (rule acksRefine_trans)
next
  case (timeout ch a)
  have "freshChans a \<Longrightarrow> usedChans (ackTimeout ch (expectedAcksList a)) \<subseteq> {..<nextChan a}"
    using subset_trans [OF usedChans_timeout [OF timeout]] by (simp add: freshChans_def)
  with ackStep.timeout [OF timeout] show ?case by (auto simp: acksRefine_def freshChans_def)
next
  case (newTurn a a')
  then show ?case by (auto simp: runNewTurn_def Let_def split: if_splits intro!: acksRefine_same)
qed (auto simp: handleAckNewPlayerAdded_def handleAckPlayerDecisionSynced_def onSyncAck_def finishSync_def Let_def
  acksRefine_joinTask intro: acksRefine_same acksRefine_sendAck split: sum.split option.split)

definition adminStart :: "Card multiset \<Rightarrow> Admin \<Rightarrow> bool" where
  "adminStart C a \<longleftrightarrow> (\<exists>t r cfg. startTable t \<and> tableCards t = C \<and> a = RunServer (NewAdmin t r cfg))"

interpretation admins: invariant_system "adminStart C" orderlyStep
  "\<lambda>a. adminInv C a \<and> freshChans a \<and> acksInv (expectedAcksList a)" for C
proof unfold_locales
  fix a assume "adminStart C a"
  then show "adminInv C a \<and> freshChans a \<and> acksInv (expectedAcksList a)"
    by (auto simp: adminStart_def adminInv_def RunServer_def NewAdmin_def freshChans_def usedChans_def
      newExpectedAcksState_def acksInv_def)
next
  fix a a' assume "adminInv C a \<and> freshChans a \<and> acksInv (expectedAcksList a)" "orderlyStep a a'"
  then show "adminInv C a' \<and> freshChans a' \<and> acksInv (expectedAcksList a')"
    using adminInv_step acksRefine_step acks.steps_inv unfolding acksRefine_def by blast
qed

section \<open>A lost mutex\<close>

definition frozen :: "Admin \<Rightarrow> Admin \<Rightarrow> bool" where
  "frozen a a' \<longleftrightarrow> mutexHeld a' \<and> table a' = table a \<and> state a' = state a \<and> written a' = written a \<and>
     decisionEventsCompleted a' = decisionEventsCompleted a"

lemma frozen_sendAck: "mutexHeld a \<Longrightarrow> sendAck ack a = Some a' \<Longrightarrow> frozen a a'"
  by (auto simp: frozen_def sendAck_def receiveAck_def Let_def split: if_splits)

lemma frozen_step: "serverStep ready decision a a' \<Longrightarrow> mutexHeld a \<Longrightarrow> frozen a a'"
proof (induction rule: serverStep.induct)
  case (setReady body a ks spare rnd addrOk)
  then show ?case by (simp add: frozen_def handleSetReady_def)
next
  case (ackAdded a body)
  then show ?case using frozen_sendAck [OF ackAdded]
    by (auto simp: handleAckNewPlayerAdded_def frozen_def split: sum.split option.split)
next
  case (ackSynced a body)
  then show ?case using frozen_sendAck [OF ackSynced]
    by (auto simp: handleAckPlayerDecisionSynced_def frozen_def split: sum.split option.split)
qed (auto simp: frozen_def handleAddNewPlayerAndCreateSSE_def handlePlayerDecisionsEvent_def onSyncAck_def Let_def)

text \<open>The prompt changes nothing either: a restart waits for the mutex.\<close>

lemma frozen_prompt: "promptStep a a' \<Longrightarrow> mutexHeld a \<Longrightarrow> frozen a a'"
  by (induction rule: promptStep.induct) (auto simp: replLine_def setReady_def frozen_def split: if_splits)

lemma frozen_steps: "(sup adminStep promptStep)\<^sup>*\<^sup>* a a' \<Longrightarrow> mutexHeld a \<Longrightarrow> frozen a a'"
proof (induction rule: rtranclp_induct)
  case base
  then show ?case by (simp add: frozen_def)
next
  case (step b c)
  then have "frozen a b" by simp
  then have "mutexHeld b" by (simp add: frozen_def)
  with step(2) have "frozen b c" using frozen_step frozen_prompt by auto
  with \<open>frozen a b\<close> show ?case by (simp add: frozen_def)
qed

lemma refused_join_keeps_mutex:
  assumes "\<not> mutexHeld a" "\<forall>st. fst (handleAddNewPlayerAndCreateSSE body w a) \<noteq> Streaming st"
  shows "snd (handleAddNewPlayerAndCreateSSE body w a) = a\<lparr>mutexHeld := True\<rparr>"
proof -
  have t: "t' = t" if "AddPlayer p t = (Some err, t')" for p t t' err
    using that by (auto simp: AddPlayer_def Let_def split: if_splits)
  have "snd (handleAddNewPlayerAndCreateSSE body w a) = a\<lparr>mutexHeld := True\<rparr> \<or>
      snd (handleAddNewPlayerAndCreateSSE body w a) = a\<lparr>mutexHeld := True, table := table a\<rparr>"
    using assms t
    by (simp add: handleAddNewPlayerAndCreateSSE_def Let_def split: sum.splits list.splits prod.splits option.splits if_splits)
  then show ?thesis by (cases a) auto
qed

section \<open>A decision and its acks\<close>

text \<open>An ack of a decision sync arrives, and the callback it makes due runs.\<close>

definition deliverSyncAck :: "int \<Rightarrow> string \<Rightarrow> Admin \<Rightarrow> Admin" where
  "deliverSyncAck n q a =
     (let a = snd (handleAckPlayerDecisionSynced (Inr \<lparr>AckerPlayer = q, DecisionCounter = n\<rparr>) a)
      in fold onSyncAck (callbacksDue a) a)"

text \<open>The sync \<open>g\<close> of the decision \<open>n\<close> waits for the players \<open>Q\<close>.\<close>

definition registered :: "nat \<Rightarrow> int \<Rightarrow> string set \<Rightarrow> Admin \<Rightarrow> bool" where
  "registered g n Q a \<longleftrightarrow> (\<forall>q \<in> Q.
     (\<exists>p \<in> set (pendingAcks (expectedAcksList a)). pendingFor p = syncAck q n) \<and>
     (\<forall>p \<in> set (pendingAcks (expectedAcksList a)). pendingFor p = syncAck q n \<longrightarrow>
        ackReceivedChan p \<in> waiting (expectedAcksList a) \<and> syncOf a (ackReceivedChan p) = Some g))"

definition unregistered :: "int \<Rightarrow> string set \<Rightarrow> Admin \<Rightarrow> bool" where
  "unregistered n Q a \<longleftrightarrow> (\<forall>q \<in> Q. syncAck q n \<notin> pendingFor ` set (pendingAcks (expectedAcksList a)) \<and>
     syncAck q n \<notin> set (preemptiveAcks (expectedAcksList a)))"

definition awaiting :: "nat \<Rightarrow> int \<Rightarrow> string set \<Rightarrow> Admin \<Rightarrow> bool" where
  "awaiting g n Q a \<longleftrightarrow> acksInv (expectedAcksList a) \<and> \<not> stuck (expectedAcksList a) \<and> acksLoopRuns a \<and>
     callbacksDue a = [] \<and> finite Q \<and> remainingAcks a g = int (card Q) \<and> registered g n Q a"

lemma syncAck_inject [simp]: "syncAck p n = syncAck q n \<longleftrightarrow> p = q"
  by (auto simp: syncAck_def)

lemma ackEqual_eq: "ackEqual x y \<longleftrightarrow> x = y"
  by (auto simp: ackEqual_def)

lemma registerAck_clear:
  assumes "\<not> stuck (expectedAcksList a)" "ack \<notin> set (preemptiveAcks (expectedAcksList a))"
  shows "registerAck sync ack a = a\<lparr>expectedAcksList := (expectedAcksList a)\<lparr>
      waiting := insert (nextChan a) (waiting (expectedAcksList a)),
      pendingAcks := pendingAcks (expectedAcksList a) @ [\<lparr>pendingFor = ack, ackReceivedChan = nextChan a\<rparr>]\<rparr>,
    syncOf := (syncOf a)(nextChan a := sync), nextChan := Suc (nextChan a)\<rparr>"
proof -
  have "deleteFirst (\<lambda>x. ackEqual x ack) (preemptiveAcks (expectedAcksList a)) = None"
    unfolding deleteFirst_None using assms(2) by (auto simp: ackEqual_eq)
  with assms(1) show ?thesis by (simp add: registerAck_def addPending_def Let_def)
qed

lemma registerAck_registers:
  assumes "\<not> stuck (expectedAcksList a)" "freshChans a" "unregistered n {q} a" "registered g n Q a"
  shows "registered g n (insert q Q) (registerAck (Some g) (syncAck q n) a)"
proof -
  have c: "ackReceivedChan p < nextChan a" if "p \<in> set (pendingAcks (expectedAcksList a))" for p
    using that assms(2) by (auto simp: freshChans_def usedChans_def)
  let ?a = "registerAck (Some g) (syncAck q n) a"
  have "?a = a\<lparr>expectedAcksList := (expectedAcksList a)\<lparr>
      waiting := insert (nextChan a) (waiting (expectedAcksList a)),
      pendingAcks := pendingAcks (expectedAcksList a) @ [\<lparr>pendingFor = syncAck q n, ackReceivedChan = nextChan a\<rparr>]\<rparr>,
    syncOf := (syncOf a)(nextChan a := Some g), nextChan := Suc (nextChan a)\<rparr>"
    using assms(1,3) by (intro registerAck_clear) (simp_all add: unregistered_def)
  then have l: "pendingAcks (expectedAcksList ?a) = pendingAcks (expectedAcksList a) @
        [\<lparr>pendingFor = syncAck q n, ackReceivedChan = nextChan a\<rparr>]"
      "waiting (expectedAcksList ?a) = insert (nextChan a) (waiting (expectedAcksList a))"
      "syncOf ?a = (syncOf a)(nextChan a := Some g)" by simp_all
  have o: "pendingFor p \<noteq> syncAck q n" if "p \<in> set (pendingAcks (expectedAcksList a))" for p
    using that assms(3) unfolding unregistered_def by (metis image_eqI singletonI)
  show ?thesis unfolding registered_def
  proof (intro ballI)
    fix x assume "x \<in> insert q Q"
    show "(\<exists>p \<in> set (pendingAcks (expectedAcksList ?a)). pendingFor p = syncAck x n) \<and>
      (\<forall>p \<in> set (pendingAcks (expectedAcksList ?a)). pendingFor p = syncAck x n \<longrightarrow>
         ackReceivedChan p \<in> waiting (expectedAcksList ?a) \<and> syncOf ?a (ackReceivedChan p) = Some g)"
    proof (cases "x = q")
      case True
      with o show ?thesis by (auto simp: l)
    next
      case False
      with \<open>x \<in> insert q Q\<close> assms(4) c show ?thesis by (auto simp: l registered_def)
    qed
  qed
qed

lemma syncAcks_registers:
  assumes "\<not> stuck (expectedAcksList a)" "freshChans a" "distinct ks" "registered g (DecisionEventCounter req) Q a"
    and "unregistered (DecisionEventCounter req) (set ks) a"
  shows "registered g (DecisionEventCounter req) (Q \<union> (set ks - {DecidingPlayer req})) (syncAcks g req ks a) \<and>
    \<not> stuck (expectedAcksList (syncAcks g req ks a)) \<and> acksLoopRuns (syncAcks g req ks a) = acksLoopRuns a \<and>
    callbacksDue (syncAcks g req ks a) = callbacksDue a \<and> remainingAcks (syncAcks g req ks a) = remainingAcks a \<and>
    decisionEventsCompleted (syncAcks g req ks a) = decisionEventsCompleted a \<and>
    userConfig (syncAcks g req ks a) = userConfig a"
  using assms
proof (induction ks arbitrary: a Q)
  case (Cons q ks)
  let ?n = "DecisionEventCounter req"
  show ?case
  proof (cases "q = DecidingPlayer req")
    case True
    have "unregistered ?n (set ks) a" using Cons.prems(5) by (simp add: unregistered_def)
    with Cons.IH [OF Cons.prems(1,2) _ Cons.prems(4) this] Cons.prems(3) True show ?thesis by simp
  next
    case False
    let ?a = "registerAck (Some g) (syncAck q ?n) a"
    have u: "unregistered ?n {q} a" "syncAck q ?n \<notin> set (preemptiveAcks (expectedAcksList a))"
      using Cons.prems(5) by (simp_all add: unregistered_def)
    note e = registerAck_clear [OF Cons.prems(1) u(2), of "Some g"]
    have "registered g ?n (insert q Q) ?a" using Cons.prems(1,2) u(1) Cons.prems(4) by (rule registerAck_registers)
    moreover have "freshChans ?a" using acksRefine_registerAck Cons.prems(2) unfolding acksRefine_def by blast
    moreover have "\<not> stuck (expectedAcksList ?a)" using Cons.prems(1) by (simp add: e)
    moreover have "unregistered ?n (set ks) ?a" using Cons.prems(3,5) unfolding e by (auto simp: unregistered_def)
    ultimately have "registered g ?n (insert q Q \<union> (set ks - {DecidingPlayer req})) (syncAcks g req ks ?a) \<and>
      \<not> stuck (expectedAcksList (syncAcks g req ks ?a)) \<and> acksLoopRuns (syncAcks g req ks ?a) = acksLoopRuns ?a \<and>
      callbacksDue (syncAcks g req ks ?a) = callbacksDue ?a \<and> remainingAcks (syncAcks g req ks ?a) = remainingAcks ?a \<and>
      decisionEventsCompleted (syncAcks g req ks ?a) = decisionEventsCompleted ?a \<and> userConfig (syncAcks g req ks ?a) = userConfig ?a"
      using Cons.prems(3) by (intro Cons.IH) simp_all
    moreover have "Q \<union> (set (q # ks) - {DecidingPlayer req}) = insert q Q \<union> (set ks - {DecidingPlayer req})"
      using False by auto
    ultimately show ?thesis using False by (simp add: e)
  qed
qed simp

text \<open>An awaited ack takes its registration out of the list and runs the callback.\<close>

lemma deliver_eq:
  assumes "awaiting g n Q a" "q \<in> Q"
  obtains us p vs where "pendingAcks (expectedAcksList a) = us @ p # vs" "pendingFor p = syncAck q n"
    "ackReceivedChan p \<in> waiting (expectedAcksList a)" "syncOf a (ackReceivedChan p) = Some g"
    "waitForAcks (syncAck q n) (expectedAcksList a) = (expectedAcksList a)\<lparr>pendingAcks := us @ vs,
       waiting := waiting (expectedAcksList a) - {ackReceivedChan p}, fired := fired (expectedAcksList a) @ [OnAck (ackReceivedChan p)]\<rparr>"
    "deliverSyncAck n q a = onSyncAck (ackReceivedChan p)
       (a\<lparr>expectedAcksList := waitForAcks (syncAck q n) (expectedAcksList a), callbacksDue := [ackReceivedChan p]\<rparr>)"
proof -
  let ?es = "expectedAcksList a"
  have i: "\<not> stuck ?es" "acksLoopRuns a" "callbacksDue a = []" "registered g n Q a" using assms(1) by (simp_all add: awaiting_def)
  have "\<exists>p \<in> set (pendingAcks ?es). pendingFor p = syncAck q n" using i(4) assms(2) by (simp add: registered_def)
  then have "deleteFirst (\<lambda>p. ackEqual (pendingFor p) (syncAck q n)) (pendingAcks ?es) \<noteq> None"
    unfolding deleteFirst_None by (auto simp: ackEqual_eq)
  then obtain p rest where d: "deleteFirst (\<lambda>p. ackEqual (pendingFor p) (syncAck q n)) (pendingAcks ?es) = Some (p, rest)" by auto
  from deleteFirst_Some [OF d] obtain us vs where l: "pendingAcks ?es = us @ p # vs" "rest = us @ vs" "pendingFor p = syncAck q n"
    by (auto simp: ackEqual_eq)
  let ?c = "ackReceivedChan p"
  have c: "?c \<in> waiting ?es" "syncOf a ?c = Some g" using i(4) assms(2) l(1,3) by (auto simp: registered_def)
  have w: "waitForAcks (syncAck q n) ?es = ?es\<lparr>pendingAcks := us @ vs, waiting := waiting ?es - {?c}, fired := fired ?es @ [OnAck ?c]\<rparr>"
    using d c(1) l(2) by (simp add: waitForAcks_def Let_def)
  have "deliverSyncAck n q a = onSyncAck ?c (a\<lparr>expectedAcksList := waitForAcks (syncAck q n) ?es, callbacksDue := [?c]\<rparr>)"
    using i(1-3) c(2) by (simp add: deliverSyncAck_def handleAckPlayerDecisionSynced_def sendAck_def receiveAck_def w Let_def)
  from that [OF l(1,3) c w this] show ?thesis .
qed

lemma deliver_step:
  assumes "awaiting g n Q a" "q \<in> Q"
  shows "awaiting g n (Q - {q}) (deliverSyncAck n q a) \<and>
    syncsDone (deliverSyncAck n q a) = (if Q = {q} then Suc (syncsDone a) else syncsDone a) \<and>
    state (deliverSyncAck n q a) = state a \<and> table (deliverSyncAck n q a) = table a \<and>
    decisionEventsCompleted (deliverSyncAck n q a) = decisionEventsCompleted a \<and>
    sseControllerEvents (deliverSyncAck n q a) = sseControllerEvents a \<and> turnsDue (deliverSyncAck n q a) = turnsDue a \<and>
    userConfig (deliverSyncAck n q a) = userConfig a"
proof -
  let ?es = "expectedAcksList a"
  have i: "acksInv ?es" "\<not> stuck ?es" "acksLoopRuns a" "callbacksDue a = []" "finite Q" "remainingAcks a g = int (card Q)"
    "registered g n Q a" using assms(1) by (simp_all add: awaiting_def)
  obtain us p vs where l: "pendingAcks ?es = us @ p # vs" "pendingFor p = syncAck q n"
    and c: "ackReceivedChan p \<in> waiting ?es" "syncOf a (ackReceivedChan p) = Some g"
    and w: "waitForAcks (syncAck q n) ?es = ?es\<lparr>pendingAcks := us @ vs, waiting := waiting ?es - {ackReceivedChan p},
       fired := fired ?es @ [OnAck (ackReceivedChan p)]\<rparr>"
    and e: "deliverSyncAck n q a = onSyncAck (ackReceivedChan p)
       (a\<lparr>expectedAcksList := waitForAcks (syncAck q n) ?es, callbacksDue := [ackReceivedChan p]\<rparr>)"
    by (rule deliver_eq [OF assms])
  let ?c = "ackReceivedChan p" and ?es' = "waitForAcks (syncAck q n) ?es"
  have inv: "acksInv ?es'" using acksInv_receive [OF i(1)] .
  have "card Q = Suc (card (Q - {q}))" using i(5) assms(2) by (rule card.remove)
  moreover have "card Q = 1 \<longleftrightarrow> Q = {q}" using assms(2) unfolding card_1_singleton_iff One_nat_def by auto
  ultimately have k: "int (card Q) - 1 = int (card (Q - {q}))" "int (card Q) - 1 = 0 \<longleftrightarrow> Q = {q}" by linarith+
  have m: "map_get 0 (syncOf a) ?c = g" using c(2) by (simp add: map_get_def)
  have dist: "ackReceivedChan r \<noteq> ?c" if "r \<in> set (us @ vs)" for r
    using that i(1) l(1) by (auto simp: acksInv_def) (metis image_eqI)+
  let ?d = "deliverSyncAck n q a"
  have sel: "expectedAcksList ?d = ?es'" "acksLoopRuns ?d" "callbacksDue ?d = []" "syncOf ?d = syncOf a"
    "remainingAcks ?d g = int (card Q) - 1" "state ?d = state a" "table ?d = table a"
    "decisionEventsCompleted ?d = decisionEventsCompleted a" "sseControllerEvents ?d = sseControllerEvents a"
    "turnsDue ?d = turnsDue a" "userConfig ?d = userConfig a"
    using i(3,6) m by (simp_all add: e onSyncAck_def Let_def)
  have s: "syncsDone ?d = (if int (card Q) - 1 = 0 then Suc (syncsDone a) else syncsDone a)"
    using i(6) m by (simp add: e onSyncAck_def Let_def)
  have r: "registered g n (Q - {q}) ?d" unfolding registered_def
  proof (intro ballI)
    fix x assume x: "x \<in> Q - {q}"
    then have "pendingFor p \<noteq> syncAck x n" using l(2) by auto
    with x i(7) l dist show "(\<exists>p \<in> set (pendingAcks (expectedAcksList ?d)). pendingFor p = syncAck x n) \<and>
        (\<forall>p \<in> set (pendingAcks (expectedAcksList ?d)). pendingFor p = syncAck x n \<longrightarrow>
          ackReceivedChan p \<in> waiting (expectedAcksList ?d) \<and> syncOf ?d (ackReceivedChan p) = Some g)"
      by (auto simp: registered_def sel w)
  qed
  have "awaiting g n (Q - {q}) ?d" unfolding awaiting_def sel k(1) using i(2,5) inv r sel(2) w by simp
  then show ?thesis unfolding s k(2) sel by simp
qed

lemma deliver_all:
  assumes "awaiting g n (set (xs @ ys)) a" "distinct (xs @ ys)"
  shows "let a' = fold (deliverSyncAck n) xs a in
    awaiting g n (set ys) a' \<and> syncsDone a' = syncsDone a + (if xs \<noteq> [] \<and> ys = [] then 1 else 0) \<and>
    state a' = state a \<and> table a' = table a \<and> decisionEventsCompleted a' = decisionEventsCompleted a \<and>
    sseControllerEvents a' = sseControllerEvents a \<and> turnsDue a' = turnsDue a \<and> userConfig a' = userConfig a"
  using assms
proof (induction xs arbitrary: a)
  case (Cons q xs)
  have q: "q \<in> set (q # xs @ ys)" "set (q # xs @ ys) - {q} = set (xs @ ys)" "set (q # xs @ ys) = {q} \<longleftrightarrow> xs @ ys = []"
    using Cons.prems(2) by (auto, (cases xs; auto), (cases ys; auto))
  note d = deliver_step [OF Cons.prems(1) [unfolded append_Cons] q(1), unfolded q(2,3)]
  from Cons.IH [OF conjunct1 [OF d]] Cons.prems(2) d show ?case by (auto simp: Let_def)
qed simp

lemma dispatchDecision_awaits:
  assumes "acksInv (expectedAcksList a)" "freshChans a" "\<not> stuck (expectedAcksList a)" "acksLoopRuns a" "callbacksDue a = []"
    and "distinct ks" "DecidingPlayer req \<in> set ks" "\<forall>w. ok w"
    and "EvalPlayerDecisionsNoTransferChan srt (DecidingPlayer req) (Decisions req) (table a) = Some (None, t)"
    and "unregistered (DecisionEventCounter req) (set ks) a"
  shows "\<exists>g a1. dispatchDecision srt ok ks [] req a = Some a1 \<and>
    awaiting g (DecisionEventCounter req) (set ks - {DecidingPlayer req}) a1 \<and>
    state a1 = SyncingPlayerDecision \<and> table a1 = t \<and> syncsDone a1 = syncsDone a \<and> turnsDue a1 = turnsDue a \<and>
    sseControllerEvents a1 = sseControllerEvents a \<and> decisionEventsCompleted a1 = decisionEventsCompleted a \<and>
    userConfig a1 = userConfig a"
proof -
  define a0 where "a0 = updatePromptWithStateInfo (setState SyncingPlayerDecision (a\<lparr>table := t\<rparr>))"
  define a2 where "a2 = snd (sendMessageToAllPlayersWithSSE ok ks (DecidingPlayer req) (PlayerDecisionsSyncEvent req) a0)"
  define g where "g = nextChan a2"
  define a3 where "a3 = a2\<lparr>remainingAcks := (remainingAcks a2)(g := int (length ks) - 1)\<rparr>"
  have s: "expectedAcksList a3 = expectedAcksList a" "nextChan a3 = nextChan a" "syncOf a3 = syncOf a" "acksLoopRuns a3 = acksLoopRuns a"
    "callbacksDue a3 = callbacksDue a" "state a3 = SyncingPlayerDecision" "table a3 = t" "syncsDone a3 = syncsDone a"
    "turnsDue a3 = turnsDue a" "sseControllerEvents a3 = sseControllerEvents a"
    "decisionEventsCompleted a3 = decisionEventsCompleted a" "userConfig a3 = userConfig a"
    unfolding a3_def a2_def a0_def by simp_all
  have "fst (sendMessageToAllPlayersWithSSE ok ks (DecidingPlayer req) (PlayerDecisionsSyncEvent req) a0)"
    using assms(8) by (induction ok ks "DecidingPlayer req" "PlayerDecisionsSyncEvent req" a0
      rule: sendMessageToAllPlayersWithSSE.induct) (simp_all add: Let_def)
  then have "sendMessageToAllPlayersWithSSE ok ks (DecidingPlayer req) (PlayerDecisionsSyncEvent req) a0 = (True, a2)"
    by (simp add: a2_def prod_eq_iff)
  then have d: "dispatchDecision srt ok ks [] req a = Some (syncAcks g req ks a3)"
    using assms(9) by (simp add: dispatchDecision_def receiveEarly_def a0_def [symmetric] a3_def g_def Let_def)
  let ?a = "syncAcks g req ks a3"
  have f: "freshChans a3" "unregistered (DecisionEventCounter req) (set ks) a3" "registered g (DecisionEventCounter req) {} a3"
    using assms(2,10) by (simp_all add: freshChans_def unregistered_def registered_def s)
  have r: "registered g (DecisionEventCounter req) (set ks - {DecidingPlayer req}) ?a" "\<not> stuck (expectedAcksList ?a)"
    "acksLoopRuns ?a = acksLoopRuns a3" "callbacksDue ?a = callbacksDue a3" "remainingAcks ?a = remainingAcks a3"
    "decisionEventsCompleted ?a = decisionEventsCompleted a3" "userConfig ?a = userConfig a3"
    using syncAcks_registers [OF _ f(1) assms(6) f(3,2)] assms(3) by (simp_all add: s)
  have "acksInv (expectedAcksList ?a)"
    using acksRefine_syncAcks [of a3 g req ks] f(1) acks.steps_inv assms(1) unfolding acksRefine_def s(1) by blast
  moreover have "int (card (set ks - {DecidingPlayer req})) = int (length ks) - 1"
    using assms(6,7) by (simp add: distinct_card) (metis length_pos_if_in_set of_nat_1 of_nat_diff One_nat_def Suc_leI)
  ultimately have "awaiting g (DecisionEventCounter req) (set ks - {DecidingPlayer req}) ?a"
    using r assms(4,5) by (simp add: awaiting_def s) (simp add: a3_def)
  with d r sameGame_syncAcks [of a3 g req ks] s show ?thesis by (auto simp: sameGame_def)
qed

section \<open>A concrete server\<close>

definition demoConfig :: AdminUserConfig where
  "demoConfig = \<lparr>ConfigType = ''admin'', ListenPort = 8080, ListenIP = ''0.0.0.0'', ConfigRunREPL = False,
     ReadyPlayerName = [], PauseMsecsBeforeNewTurn = 0, AESKeyString = [], EncryptMessages = False,
     DebugStartingHandConfigFile = [], DebugStartingHandConfig = None, DebugSignalNewTurnViaPrompt = False\<rparr>"

text \<open>A server that waits for the decision of the chosen player, and the request to draw a card.\<close>

definition demoAdmin :: Admin where
  "demoAdmin = (RunServer (NewAdmin demoTable [] demoConfig))
     \<lparr>state := WaitingForPlayerDecision, sseWriterForPlayer := [''al'' \<mapsto> 0, ''bob'' \<mapsto> 1, ''cy'' \<mapsto> 2]\<rparr>"

definition demoPull :: "string \<Rightarrow> PlayerDecisionsRequest" where
  "demoPull p = \<lparr>Decisions = [\<lparr>Kind = PlayerDecisionPullFromDeck, ResultCard = mkCard 0 0, WildCardChosenColor = 0\<rparr>],
     DecidingPlayer = p, DecisionEventCounter = 0\<rparr>"

lemma demoAdmin_sel [simp]:
  "table demoAdmin = demoTable" "\<not> mutexHeld demoAdmin" "state demoAdmin = WaitingForPlayerDecision" "acksLoopRuns demoAdmin"
  "expectedAcksList demoAdmin = newExpectedAcksState" "callbacksDue demoAdmin = []" "userConfig demoAdmin = demoConfig"
  "sseWriterForPlayer demoAdmin = [''al'' \<mapsto> 0, ''bob'' \<mapsto> 1, ''cy'' \<mapsto> 2]" "\<not> stuck newExpectedAcksState"
  by (simp_all add: demoAdmin_def RunServer_def NewAdmin_def newExpectedAcksState_def)

lemma startTable_demoTable: "startTable demoTable"
proof -
  have "IsShuffled demoTable" by (simp add: demoTable_def)
  then show ?thesis using wf_game_demoTable by (simp add: startTable_def wf_game_def)
qed

lemma demoPull_evaluates:
  "\<exists>t. EvalPlayerDecisionsNoTransferChan (\<lambda>_. []) (DecidingPlayer (demoPull ''al'')) (Decisions (demoPull ''al'')) (table demoAdmin) = Some (None, t)"
  by (simp add: EvalPlayerDecisionsNoTransferChan_def EvalPlayerDecision_def evalPullFromDeck_def
    pullCardFromDeckToPlayerHand_def deck_eqs demoPull_def Let_def)

section \<open>Properties\<close>

text \<open>C4. In every interleaving of the requests of an orderly game with acks, timeouts and goroutines, of an
  admin that starts with a usual or configured table: the cards of the table stay the same, from the deal
  on the table is one on which the game can go on, no further orderly request to serve the cards panics,
  no queued command of the controller panics, and no registration of an ack runs two callbacks.  Requests
  are orderly when shuffler and deciding players are seated, chosen colours are among the four, and the
  cards suffice for eight per player and one more; the server checks none of this.\<close>

theorem admin_game_invariant:
  assumes "startTable t" "orderlyStep\<^sup>*\<^sup>* (RunServer (NewAdmin t r cfg)) a"
  shows "tableCards (table a) = tableCards t \<and> (state a \<noteq> AddingPlayers \<longrightarrow> wf_game (table a)) \<and>
    (range_order ks (IndexOfPlayer (table a)) \<and> orderlyReady body a \<longrightarrow> fst (handleSetReady spare rnd ks addrOk body a) \<noteq> Panicked) \<and>
    (\<forall>e \<in> set (sseControllerEvents a). dispatchEventWithSSE srt ok ks' early e (a\<lparr>sseControllerEvents := es\<rparr>) \<noteq> None) \<and>
    distinct (map callbackChan (fired (expectedAcksList a)))"
proof -
  have "adminStart (tableCards t) (RunServer (NewAdmin t r cfg))" using assms(1) by (auto simp: adminStart_def)
  then have "adminInv (tableCards t) a" "acksInv (expectedAcksList a)" using admins.reachable_inv assms(2) by blast+
  with dispatch_defined adminInv_setReady show ?thesis by (simp add: adminInv_def acksInv_def)
qed

theorem admin_game_invariant_witness:
  "\<exists>a. orderlyStep\<^sup>*\<^sup>* (RunServer (NewAdmin demoTable [] demoConfig)) a \<and> state a = ReadyToServeCards \<and>
     wf_game (table a) \<and> tableCards (table a) = tableCards demoTable"
proof -
  let ?a = "RunServer (NewAdmin demoTable [] demoConfig)" and ?m = "\<lparr>readyShufflerName = ''al'', ShufflerIsFirstPlayer = False\<rparr>"
  let ?b = "snd (handleSetReady [] (\<lambda>_. 0) [''al'', ''bob'', ''cy''] True (Inr ?m) ?a)"
  have i: "IsShuffled demoTable" by (simp add: demoTable_def)
  then have b: "state ?b = ReadyToServeCards"
    by (simp add: handleSetReady_def RunServer_def NewAdmin_def newExpectedAcksState_def serveCards_def Let_def)
  have "orderlyReady (Inr ?m) ?a" using i by (simp add: orderlyReady_def RunServer_def NewAdmin_def)
  moreover have "range_order [''al'', ''bob'', ''cy''] (IndexOfPlayer (table ?a))"
    by (auto simp: range_order_def RunServer_def NewAdmin_def)
  ultimately have "orderlyStep ?a ?b" by (rule serverStep.setReady)
  then have st: "orderlyStep\<^sup>*\<^sup>* ?a ?b" by simp
  from admin_game_invariant [OF startTable_demoTable st] st b show ?thesis by auto
qed

text \<open>C18. A join request that is not answered by an event stream, because the game has started, the
  body cannot be read, no name is given or the name is taken, stops the server: in every
  continuation, with whatever lines typed at its prompt, no table, state or message changes any more, and decisions and further joins block.\<close>

theorem refused_join_stops_admin:
  assumes "\<not> mutexHeld a" "\<forall>st. fst (handleAddNewPlayerAndCreateSSE body w a) \<noteq> Streaming st"
    and "(sup adminStep promptStep)\<^sup>*\<^sup>* (snd (handleAddNewPlayerAndCreateSSE body w a)) a'"
  shows "table a' = table a \<and> state a' = state a \<and> written a' = written a \<and>
    decisionEventsCompleted a' = decisionEventsCompleted a \<and>
    handlePlayerDecisionsEvent req a' = (Blocked, a') \<and> handleAddNewPlayerAndCreateSSE body' w' a' = (Blocked, a')"
proof -
  have "frozen (a\<lparr>mutexHeld := True\<rparr>) a'"
    using assms(3) unfolding refused_join_keeps_mutex [OF assms(1,2)] by (rule frozen_steps) simp
  then show ?thesis by (simp add: frozen_def handlePlayerDecisionsEvent_def handleAddNewPlayerAndCreateSSE_def)
qed

theorem refused_join_stops_admin_witness:
  "let a = snd (handleAddNewPlayerAndCreateSSE (Inl ''bad'') 3 demoAdmin) in
   handlePlayerDecisionsEvent (Inr (demoPull ''al'')) a = (Blocked, a) \<and> table a = demoTable"
proof -
  have h: "\<forall>st. fst (handleAddNewPlayerAndCreateSSE (Inl ''bad'') 3 demoAdmin) \<noteq> Streaming st"
    by (simp add: handleAddNewPlayerAndCreateSSE_def Let_def)
  from refused_join_stops_admin [OF _ h rtranclp.rtrancl_refl] show ?thesis by (simp add: Let_def)
qed



text \<open>C19. The admin does not check whose turn it is: whoever is seated can draw a card at the start of a
  turn, whoever was chosen; the request is answered with success, and the controller moves the card
  and tells the others.\<close>

theorem admin_ignores_turn:
  assumes "\<not> mutexHeld a" "state a = WaitingForPlayerDecision" "acksLoopRuns a" "\<not> stuck (expectedAcksList a)"
    and "TableState (table a) = StartOfTurn" "DrawDeck (table a) \<noteq> []"
    and "req = \<lparr>Decisions = [\<lparr>Kind = PlayerDecisionPullFromDeck, ResultCard = c, WildCardChosenColor = k\<rparr>],
           DecidingPlayer = p, DecisionEventCounter = n\<rparr>"
  shows "\<exists>a1 a2. handlePlayerDecisionsEvent (Inr req) a = (Responded StatusOK [], a1) \<and>
    sseControllerEvents a1 = sseControllerEvents a @ [sseCommandSyncPlayerDecisionEvent req] \<and>
    dispatchDecision srt ok ks early req a1 = Some a2 \<and> state a2 = SyncingPlayerDecision \<and>
    mset (handOf (table a2) p) = add_mset (last (DrawDeck (table a))) (mset (handOf (table a) p))"
proof -
  let ?a = "receiveAck (decisionAck p n) a"
  let ?a1 = "?a\<lparr>sseControllerEvents := sseControllerEvents a @ [sseCommandSyncPlayerDecisionEvent req]\<rparr>"
  have s: "table ?a = table a" "sseControllerEvents ?a = sseControllerEvents a"
    using sameGame_receiveAck [of a "decisionAck p n"] by (simp_all add: sameGame_def)
  have h: "handlePlayerDecisionsEvent (Inr req) a = (Responded StatusOK [], ?a1)"
    using assms(1-4,7) by (simp add: handlePlayerDecisionsEvent_def sendAck_def s(2))
  obtain t where t: "EvalPlayerDecisionsNoTransferChan srt p (Decisions req) (table a) = Some (None, t)"
    "mset (handOf t p) = add_mset (last (DrawDeck (table a))) (mset (handOf (table a) p))"
    using assms(5,6,7) by (simp add: EvalPlayerDecisionsNoTransferChan_def EvalPlayerDecision_def evalPullFromDeck_def
      pullCardFromDeckToPlayerHand_def deck_eqs Let_def)
  have "dispatchDecision srt ok ks early req ?a1 \<noteq> None"
    using t(1) assms(7) s(1) by (auto simp: dispatchDecision_def Let_def split: prod.split bool.split)
  then obtain a2 where a2: "dispatchDecision srt ok ks early req ?a1 = Some a2" by blast
  then have "state a2 = SyncingPlayerDecision \<and> table a2 = t"
    using t(1) assms(7) s(1) by (cases rule: dispatchDecision_cases) simp_all
  with h a2 t(2) show ?thesis by auto
qed

theorem admin_ignores_turn_witness:
  "PlayerOfNextTurn (table demoAdmin) = ''al'' \<and>
   (\<exists>a1 a2. handlePlayerDecisionsEvent (Inr (demoPull ''bob'')) demoAdmin = (Responded StatusOK [], a1) \<and>
     dispatchDecision (\<lambda>_. []) (\<lambda>_. True) [''al'', ''bob'', ''cy''] [] (demoPull ''bob'') a1 = Some a2 \<and>
     mset (handOf (table a2) ''bob'') = {#mkCard 6 2, mkCard 9 4, mkCard 13 0#})"
  using admin_ignores_turn [of demoAdmin "demoPull ''bob''" "mkCard 0 0" 0 "''bob''" 0 "\<lambda>_. []" "\<lambda>_. True"
    "[''al'', ''bob'', ''cy'']" "[]"]
  by (auto simp: demoPull_def add_mset_commute map_get_def)

text \<open>C20. A decision of a player who is not seated can end the server: after a draw, a pass of an
  unknown name is answered with success, and the controller panics on it.\<close>

theorem unseated_pass_ends_admin:
  assumes "\<not> mutexHeld a" "state a = WaitingForPlayerDecision" "acksLoopRuns a" "\<not> stuck (expectedAcksList a)"
    and "TableState (table a) = AwaitingDropOrPass" "p \<notin> set (PlayerNames (table a))"
    and "req = \<lparr>Decisions = [\<lparr>Kind = PlayerDecisionPass, ResultCard = c, WildCardChosenColor = k\<rparr>],
           DecidingPlayer = p, DecisionEventCounter = n\<rparr>"
  shows "\<exists>a1. handlePlayerDecisionsEvent (Inr req) a = (Responded StatusOK [], a1) \<and>
    sseCommandSyncPlayerDecisionEvent req \<in> set (sseControllerEvents a1) \<and>
    dispatchEventWithSSE srt ok ks early (sseCommandSyncPlayerDecisionEvent req) a1 = None"
proof -
  let ?a = "receiveAck (decisionAck p n) a"
  let ?a1 = "?a\<lparr>sseControllerEvents := sseControllerEvents a @ [sseCommandSyncPlayerDecisionEvent req]\<rparr>"
  have s: "table ?a = table a" "sseControllerEvents ?a = sseControllerEvents a"
    using sameGame_receiveAck [of a "decisionAck p n"] by (simp_all add: sameGame_def)
  have "handlePlayerDecisionsEvent (Inr req) a = (Responded StatusOK [], ?a1)"
    using assms(1-4,7) by (simp add: handlePlayerDecisionsEvent_def sendAck_def s(2))
  moreover have "PlayerIndexFromName (table a) p = None" using assms(6) by (simp add: PlayerIndexFromName_def playerIndexLoop_None)
  then have "EvalPlayerDecisionsNoTransferChan srt p (Decisions req) (table a) = None"
    using assms(5,7) by (simp add: EvalPlayerDecisionsNoTransferChan_def EvalPlayerDecision_def evalPass_def setNeighborAsNextPlayer_def)
  ultimately show ?thesis using assms(7) s(1) by (auto simp: dispatchDecision_def)
qed

theorem unseated_pass_ends_admin_witness:
  "let a = demoAdmin\<lparr>table := demoTable\<lparr>TableState := AwaitingDropOrPass\<rparr>\<rparr>;
       req = (demoPull ''eve'')\<lparr>Decisions := [\<lparr>Kind = PlayerDecisionPass, ResultCard = mkCard 0 0, WildCardChosenColor = 0\<rparr>]\<rparr> in
   \<exists>a1. handlePlayerDecisionsEvent (Inr req) a = (Responded StatusOK [], a1) \<and>
     dispatchEventWithSSE (\<lambda>_. []) (\<lambda>_. True) [] [] (sseCommandSyncPlayerDecisionEvent req) a1 = None"
  using unseated_pass_ends_admin [of "demoAdmin\<lparr>table := demoTable\<lparr>TableState := AwaitingDropOrPass\<rparr>\<rparr>" "''eve''"
    "(demoPull ''eve'')\<lparr>Decisions := [\<lparr>Kind = PlayerDecisionPass, ResultCard = mkCard 0 0, WildCardChosenColor = 0\<rparr>]\<rparr>"
    "mkCard 0 0" 0 0 "\<lambda>_. []" "\<lambda>_. True" "[]" "[]"]
  by (auto simp: Let_def demoPull_def)

end
