(* ===== verification/Client.thy ===== *)
theory Client
  imports Rules ReplCommand Messages
begin

text \<open>
  The player client (\<open>player_client/player_client.go\<close>, \<open>player_client_sse.go\<close>, \<open>ui_command.go\<close>): a state
  machine around a copy of the table, driven by the events the admin streams and by the commands the
  user types.  Requests to the admin are collected in \<open>sentRequests\<close>; what they result in is a
  parameter of the operation that sends them.  \<open>logWindow\<close> holds the lines shown to the user; lines
  that only print a Go value for debugging are left out.  \<open>asking\<close> are the counters for which a
  goroutine \<open>askAndRunUserDecisions\<close> was started.  Decoded messages are arguments; a panic is \<open>None\<close>.
\<close>

section \<open>State\<close>

datatype PlayerClientState =
    WaitingToConnectToAdmin
  | WaitingForAdminToServeCards
  | WaitingForAdminToChoosePlayer
  | AskingUserForDecision
  | WaitingForDecisionSync

fun PlayerClientStateString :: "PlayerClientState \<Rightarrow> string" where
  "PlayerClientStateString WaitingToConnectToAdmin = ''waiting_to_connect_to_admin''"
| "PlayerClientStateString WaitingForAdminToServeCards = ''waiting_for_admin_to_serve_cards''"
| "PlayerClientStateString WaitingForAdminToChoosePlayer = ''waiting_for_admin_to_choose_player''"
| "PlayerClientStateString AskingUserForDecision = ''asking_user_for_decision''"
| "PlayerClientStateString WaitingForDecisionSync = ''waiting_for_decision_sync''"

text \<open>Commands for the user interface.\<close>

record UICommandAskUserForDecision =
  challengeablePlayer :: string

definition LocalPlayerCanChallenge :: "UICommandAskUserForDecision \<Rightarrow> bool" where
  "LocalPlayerCanChallenge d \<longleftrightarrow> challengeablePlayer d \<noteq> []"

definition SetChallengeablePlayer :: "string \<Rightarrow> UICommandAskUserForDecision \<Rightarrow> UICommandAskUserForDecision" where
  "SetChallengeablePlayer p d = d\<lparr>challengeablePlayer := p\<rparr>"

datatype UICommand = UICommandSetServedCards Table

datatype ClientError =
    DecisionRejected EvalError
  | ClientShouldNotHappen
  | ErrorUnimplementedReplCommand

record AskUserForDecisionResult =
  AskForOneMoreDecision :: bool
  ResultError :: "ClientError option"

datatype Request =
    PostPlayer AddNewPlayersMessage
  | PostSetReady SetReadyMessage
  | PostDecisions PlayerDecisionsRequest
  | PostAckPlayerAdded AckNewPlayerAddedMessage
  | PostAckDecisionSync AckSyncedPlayerDecisionsMesasge

text \<open>What a request results in: no response, or a response with a status.\<close>

datatype HttpResult = HttpError string | HttpStatus nat

record PlayerClient =
  clientState :: PlayerClientState
  ctable :: Table
  neighborListenAddr :: "string \<rightharpoonup> HostPortProtocol"
  adminAddr :: HostPortProtocol
  advertiseIP :: string
  connected :: bool
  asking :: "int list"
  sentRequests :: "((string \<times> string) \<times> Request) list"
  uiCommands :: "UICommand list"
  askCommands :: "UICommandAskUserForDecision list"
  gameEvents :: EventChan
  logWindow :: "string list"

definition NewPlayerClient :: "Table \<Rightarrow> HostPortProtocol \<Rightarrow> string \<Rightarrow> PlayerClient" where
  "NewPlayerClient t addr ip =
     \<lparr>clientState = WaitingToConnectToAdmin, ctable = t, neighborListenAddr = Map.empty, adminAddr = addr,
      advertiseIP = ip, connected = False, asking = [], sentRequests = [], uiCommands = [], askCommands = [],
      gameEvents = [], logWindow = []\<rparr>"

abbreviation localName :: "PlayerClient \<Rightarrow> string" where
  "localName c \<equiv> LocalPlayerName (ctable c)"

section \<open>Output\<close>

text \<open>The prefix names the file and line of the call.\<close>

definition logToWindow :: "string \<Rightarrow> nat \<Rightarrow> string \<Rightarrow> PlayerClient \<Rightarrow> PlayerClient" where
  "logToWindow file line msg c =
     c\<lparr>logWindow := logWindow c @ [localName c @ '':'' @ file @ '':'' @ show_nat line @ '' '' @ msg]\<rparr>"

text \<open>A request is recorded with its method and URL.\<close>

definition sendRequest :: "string \<Rightarrow> string \<Rightarrow> Request \<Rightarrow> PlayerClient \<Rightarrow> PlayerClient" where
  "sendRequest meth url r c = c\<lparr>sentRequests := sentRequests c @ [((meth, url), r)]\<rparr>"

definition adminURL :: "string \<Rightarrow> PlayerClient \<Rightarrow> string" where
  "adminURL path c = HTTPAddressString (adminAddr c) @ ''/'' @ path"

text \<open>The command reaches the interface unless it is too busy for the timeout.\<close>

definition sendCommandToUI :: "bool \<Rightarrow> UICommand \<Rightarrow> PlayerClient \<Rightarrow> bool \<times> PlayerClient" where
  "sendCommandToUI taken cmd c = (if taken then (True, c\<lparr>uiCommands := uiCommands c @ [cmd]\<rparr>) else (False, c))"

text \<open>One ack for each player; the goroutine that sends it reads the response even when there is none.\<close>

fun noteEachPlayer :: "(string \<Rightarrow> HttpResult) \<Rightarrow> string list \<Rightarrow> PlayerClient \<Rightarrow> PlayerClient option" where
  "noteEachPlayer result [] c = Some c"
| "noteEachPlayer result (playerName # names) c =
     (let c = sendRequest ''POST'' (adminURL ''ack_player_added'' c)
                (PostAckPlayerAdded \<lparr>newAckerPlayer = localName c, NewPlayer = playerName\<rparr>) c
      in case result playerName of
           HttpError _ \<Rightarrow> None
         | HttpStatus _ \<Rightarrow> noteEachPlayer result names c)"

definition ackPlayerSyncToAdmin :: "HttpResult \<Rightarrow> int \<Rightarrow> PlayerClient \<Rightarrow> PlayerClient" where
  "ackPlayerSyncToAdmin result decisionCounter c =
     (let c = sendRequest ''POST'' (adminURL ''ack-decision-sync'' c)
                (PostAckDecisionSync \<lparr>AckerPlayer = localName c, DecisionCounter = decisionCounter\<rparr>) c
      in case result of
           HttpError err \<Rightarrow> logToWindow ''player_client.go'' 731 (''failed to call ack-decision-sync on admin: '' @ err) c
         | HttpStatus _ \<Rightarrow> c)"

section \<open>Decisions of the local player\<close>

text \<open>The decision a command stands for.  A drop without cards panics.\<close>

definition decisionOf :: "PlayerDecisionKind \<Rightarrow> PlayerDecision" where
  "decisionOf k = \<lparr>Kind = k, ResultCard = mkCard 0 0, WildCardChosenColor = 0\<rparr>"

definition commandDecision :: "ReplCommand \<Rightarrow> Table \<Rightarrow> (ClientError + PlayerDecision) option" where
  "commandDecision cmd t =
     (case cmdKind cmd of
        CmdDropCard \<Rightarrow>
          (case cmdCards cmd of
             [] \<Rightarrow> None
           | first # _ \<Rightarrow> Some (Inr ((decisionOf PlayerDecisionPlayHandCard)\<lparr>ResultCard := first\<rparr>)))
      | CmdDrawCard \<Rightarrow> Some (Inr (decisionOf PlayerDecisionPullFromDeck))
      | CmdDrawCardFromPile \<Rightarrow> Some (Inr (decisionOf PlayerDecisionPullFromDeck))
      | CmdSetWildCardColor \<Rightarrow>
          (case cmdExtraData cmd of
             ColorData k \<Rightarrow> Some (Inr ((decisionOf PlayerDecisionWildCardChooseColor)\<lparr>WildCardChosenColor := k\<rparr>))
           | _ \<Rightarrow> Some (Inl ClientShouldNotHappen))
      | CmdChallenge \<Rightarrow>
          Some (Inr ((decisionOf PlayerDecisionDoChallenge)\<lparr>WildCardChosenColor := RequiredColorOfCurrentTurn t\<rparr>))
      | CmdNoChallenge \<Rightarrow>
          Some (Inr ((decisionOf PlayerDecisionDontChallenge)\<lparr>WildCardChosenColor := RequiredColorOfCurrentTurn t\<rparr>))
      | CmdPass \<Rightarrow> Some (Inr (decisionOf PlayerDecisionPass))
      | _ \<Rightarrow> Some (Inl ErrorUnimplementedReplCommand))"

definition evalReplCommandOnTable ::
  "Card swaps \<Rightarrow> ReplCommand \<Rightarrow> PlayerClient \<Rightarrow> ((PlayerDecision \<times> ClientError option) \<times> PlayerClient) option" where
  "evalReplCommandOnTable srt cmd c =
     (case commandDecision cmd (ctable c) of
        None \<Rightarrow> None
      | Some (Inl err) \<Rightarrow> Some ((decisionOf (PlayerDecisionOther 0), Some err), c)
      | Some (Inr decision) \<Rightarrow>
          (case EvalPlayerDecision srt (localName c) decision (gameEvents c) (ctable c) of
             None \<Rightarrow> None
           | Some ((decision, err), ch, t) \<Rightarrow>
               Some ((decision, map_option DecisionRejected err), c\<lparr>ctable := t, gameEvents := ch\<rparr>)))"

text \<open>The loop over the commands that the interface forwards, with the answers it gets; the
  interface closes the channel after the answer that asks for no more decisions.  The result holds
  whether it did, the commands not taken, the decisions and the answers.\<close>

fun decisionLoop ::
  "Card swaps \<Rightarrow> ReplCommand list \<Rightarrow> PlayerDecision list \<Rightarrow> AskUserForDecisionResult list \<Rightarrow> PlayerClient \<Rightarrow>
   (bool \<times> ReplCommand list \<times> PlayerDecision list \<times> AskUserForDecisionResult list \<times> PlayerClient) option" where
  "decisionLoop srt [] decisions answers c = Some (False, [], decisions, answers, c)"
| "decisionLoop srt (cmd # cmds) decisions answers c =
     (case evalReplCommandOnTable srt cmd c of
        None \<Rightarrow> None
      | Some ((decision, Some err), c) \<Rightarrow>
          (let c = (case err of
                      DecisionRejected (EvalDecisionError _ _) \<Rightarrow>
                        logToWindow ''player_client.go'' 457
                          (''invalid decision, eligible decisions are: '' @ EligibleCommandsAtState (TableState (ctable c))) c
                    | _ \<Rightarrow> c)
           in decisionLoop srt cmds decisions
                (answers @ [\<lparr>AskForOneMoreDecision = True, ResultError = Some err\<rparr>]) c)
      | Some ((decision, None), c) \<Rightarrow>
          (let more = NeedMoreUserDecisionToFinishTurn (ctable c);
               decisions = decisions @ [decision];
               answers = answers @ [\<lparr>AskForOneMoreDecision = more, ResultError = None\<rparr>]
           in if more then decisionLoop srt cmds decisions answers c
              else Some (True, cmds, decisions, answers, c)))"

text \<open>The goroutine that asks the user, which holds \<open>stateMutex\<close> until it ends; \<open>cmds\<close> is what the user
  types.  First the decisions up to the request to the admin, which is sent only when the loop has
  ended; then what the result of the request does.\<close>

definition postUserDecisions ::
  "Card swaps \<Rightarrow> ReplCommand list \<Rightarrow> int \<Rightarrow> PlayerClient \<Rightarrow> (bool \<times> PlayerClient) option" where
  "postUserDecisions srt cmds decisionEventCounter c = do {
     let c = logToWindow ''player_client.go'' 426 ''Asking for user decision'' c;
     let askCommand = \<lparr>challengeablePlayer = []\<rparr>;
     let askCommand = (if TableState (ctable c) = AwaitingWildDraw4ChallengeDecision
                       then SetChallengeablePlayer (PlayerOfLastTurn (ctable c)) askCommand else askCommand);
     let c = c\<lparr>askCommands := askCommands c @ [askCommand]\<rparr>;
     (closed, _, decisions, _, c) \<leftarrow> decisionLoop srt cmds [] [] c;
     if \<not> closed then Some (False, c)
     else Some (True, sendRequest ''POST'' (adminURL ''player_decisions'' c) (PostDecisions \<lparr>Decisions = decisions,
            DecidingPlayer = localName c, DecisionEventCounter = decisionEventCounter\<rparr>) c)
   }"

definition decisionsAnswered :: "HttpResult \<Rightarrow> PlayerClient \<Rightarrow> PlayerClient" where
  "decisionsAnswered result c =
     (case result of
        HttpError err \<Rightarrow> logToWindow ''player_client.go'' 503 (''askAndRunUserDecisions: '' @ err) c
      | HttpStatus status \<Rightarrow>
          if status \<noteq> 200 then c else c\<lparr>clientState := WaitingForAdminToChoosePlayer\<rparr>)"

definition askAndRunUserDecisions ::
  "Card swaps \<Rightarrow> ReplCommand list \<Rightarrow> HttpResult \<Rightarrow> int \<Rightarrow> PlayerClient \<Rightarrow> (bool \<times> PlayerClient) option" where
  "askAndRunUserDecisions srt cmds result decisionEventCounter c = do {
     (closed, c) \<leftarrow> postUserDecisions srt cmds decisionEventCounter c;
     Some (closed, if closed then decisionsAnswered result c else c)
   }"

section \<open>Events of the admin\<close>

text \<open>The loop of \<open>sseController\<close>, one event.  \<open>result\<close> are the results of the acks, by the
  player they are about, \<open>taken\<close> whether the interface takes a command in time.\<close>

fun handleServerEvent ::
  "Card swaps \<Rightarrow> (string \<Rightarrow> HttpResult) \<Rightarrow> bool \<Rightarrow> ServerEvent \<Rightarrow> PlayerClient \<Rightarrow> PlayerClient option" where
  "handleServerEvent srt result taken (PlayerJoinedEvent playerName) c =
     (let c = c\<lparr>neighborListenAddr := (neighborListenAddr c)(playerName \<mapsto> \<lparr>IP = [], Port = 0, Protocol = []\<rparr>)\<rparr>
      in noteEachPlayer result [playerName] c)"
| "handleServerEvent srt result taken (ExistingPlayersListEvent names) c = Some c"
| "handleServerEvent srt result taken (ServedCardsEvent t) c =
     (if clientState c \<noteq> WaitingForAdminToServeCards then Some c
      else
        let t = t\<lparr>LocalPlayerName := localName c\<rparr>;
            c = c\<lparr>ctable := SetTable t (ctable c)\<rparr>;
            c = snd (sendCommandToUI taken (UICommandSetServedCards t) c)
        in Some (c\<lparr>clientState := WaitingForAdminToChoosePlayer\<rparr>))"
| "handleServerEvent srt result taken (ChosenPlayerEvent playerName counter) c =
     (if clientState c \<noteq> WaitingForAdminToChoosePlayer then Some c
      else if localName c = playerName
      then Some (logToWindow ''player_client_sse.go'' 108
             ([CHR 0xE2, CHR 0x86, CHR 0x91] @ '' YOUR TURN '' @ [CHR 0xE2, CHR 0x86, CHR 0x91] @ '' '')
             (c\<lparr>asking := asking c @ [counter]\<rparr>))
      else Some (logToWindow ''player_client_sse.go'' 112 (''PLAYER '' @ playerName @ [CHR 0x27] @ ''s TURN'')
             (c\<lparr>clientState := WaitingForDecisionSync\<rparr>)))"
| "handleServerEvent srt result taken (PlayerDecisionsSyncEvent req) c =
     (if DecidingPlayer req = localName c then Some c
      else if clientState c \<noteq> WaitingForDecisionSync then Some c
      else case EvalPlayerDecisions srt (DecidingPlayer req) (Decisions req) (gameEvents c) (ctable c) of
        None \<Rightarrow> None
      | Some (_, ch, t) \<Rightarrow>
          (let c = ackPlayerSyncToAdmin (result (DecidingPlayer req)) (DecisionEventCounter req) (c\<lparr>ctable := t, gameEvents := ch\<rparr>)
           in Some (c\<lparr>clientState := WaitingForAdminToChoosePlayer\<rparr>)))"

text \<open>The events after the first one; a line that is not an event is skipped.\<close>

fun sseLoop ::
  "Card swaps \<Rightarrow> (string \<Rightarrow> HttpResult) \<Rightarrow> bool \<Rightarrow> (string + ServerEvent) list \<Rightarrow> PlayerClient \<Rightarrow> PlayerClient option" where
  "sseLoop srt result taken [] c = Some (logToWindow ''player_client_sse.go'' 45 ''done reading all lines from admin'' c)"
| "sseLoop srt result taken (Inl err # es) c =
     sseLoop srt result taken es
       (logToWindow ''player_client_sse.go'' 56 (''Failed to parse server event message: '' @ err) c)"
| "sseLoop srt result taken (Inr ev # es) c =
     (case handleServerEvent srt result taken ev c of None \<Rightarrow> None | Some c \<Rightarrow> sseLoop srt result taken es c)"

text \<open>The stream of a new connection: the first line is taken for the list of players, whatever its type.\<close>

definition sseController ::
  "Card swaps \<Rightarrow> (string \<Rightarrow> HttpResult) \<Rightarrow> bool \<Rightarrow> string + string list \<Rightarrow> (string + ServerEvent) list \<Rightarrow> PlayerClient \<Rightarrow>
   PlayerClient option" where
  "sseController srt result taken first es c =
     (let c = logToWindow ''player_client_sse.go'' 15 ''connected to admin, starting SSE controller'' c in
      case first of
        Inl err \<Rightarrow> Some (logToWindow ''player_client_sse.go'' 27 (''Failed to unmarshal messages.PlayerJoinedEvent: '' @ err) c)
      | Inr names \<Rightarrow> do {
          c \<leftarrow> noteEachPlayer result names c;
          let c = logToWindow ''player_client_sse.go'' 33
            ''done sending ack to admin after receiving first existing players list event message'' c;
          sseLoop srt result taken es (c\<lparr>clientState := WaitingForAdminToServeCards\<rparr>)
        })"

section \<open>Commands that are not decisions\<close>

text \<open>The request that connects: only a response with status 200 starts the controller.\<close>

definition connectToAdminAndStartSSEController ::
  "HttpResult \<Rightarrow> AddNewPlayersMessage \<Rightarrow> HostPortProtocol \<Rightarrow> PlayerClient \<Rightarrow> PlayerClient" where
  "connectToAdminAndStartSSEController result msg addr c =
     (let url = HTTPAddressString addr @ ''/player'';
          c = sendRequest ''POST'' url (PostPlayer msg) (logToWindow ''player_client.go'' 682 (''Calling '' @ url) c)
      in case result of
           HttpError err \<Rightarrow> logToWindow ''player_client.go'' 696 (''failed to connect to admin: '' @ err) c
         | HttpStatus status \<Rightarrow>
             if status = 303
             then logToWindow ''player_client.go'' 704
                    (''connectToAdmin: Local player is already present in admin'' @ [CHR 0x27] @ ''s table'') c
             else if status = 200 then c\<lparr>connected := True\<rparr> else c)"

text \<open>The older form, whose answer lists the players; no command uses it any more.  A fatal log call is
  \<open>None\<close>.\<close>

definition connectToAdmin ::
  "HttpResult \<Rightarrow> string + AddNewPlayersMessage \<Rightarrow> (string \<Rightarrow> HttpResult) \<Rightarrow> AddNewPlayersMessage \<Rightarrow> HostPortProtocol \<Rightarrow>
   PlayerClient \<Rightarrow> PlayerClient option" where
  "connectToAdmin result body acks msg addr c =
     (let c = sendRequest ''POST'' (HTTPAddressString addr @ ''/player'') (PostPlayer msg) c in
      case result of
        HttpError err \<Rightarrow> Some c
      | HttpStatus status \<Rightarrow>
          if status = 303 then Some c
          else if status = 200
          then (case body of
                  Inl err \<Rightarrow> None
                | Inr respMsg \<Rightarrow>
                    noteEachPlayer acks (newPlayerNames respMsg)
                      (c\<lparr>adminAddr := addr, clientState := WaitingForAdminToServeCards\<rparr>))
          else None)"

text \<open>\<open>resolve\<close> is the result of resolving an address, \<open>ks\<close> the map order of the table summary.\<close>

definition handleGeneralCommand ::
  "(string \<Rightarrow> string + HostPortProtocol) \<Rightarrow> HttpResult \<Rightarrow> string list \<Rightarrow> ReplCommand \<Rightarrow> PlayerClient \<Rightarrow> PlayerClient" where
  "handleGeneralCommand resolve result ks cmd c =
     (case cmdKind cmd of
        CmdConnect \<Rightarrow>
          (let (c, addr) = (case cmdExtraData cmd of
                 AddrData s \<Rightarrow>
                   (case resolve s of
                      Inl err \<Rightarrow> (c\<lparr>logWindow := logWindow c @ [err]\<rparr>, \<lparr>IP = [], Port = 0, Protocol = []\<rparr>)
                    | Inr addr \<Rightarrow> (c, addr))
               | _ \<Rightarrow> (c, adminAddr c));
               msg = AddNewPlayer (localName c) (advertiseIP c) 0 ''http'' \<lparr>newPlayerNames = [], ClientListenAddrs = []\<rparr>
           in if clientState c \<noteq> WaitingToConnectToAdmin
              then c\<lparr>logWindow := logWindow c @ [''Invalid command for current state: '' @ PlayerClientStateString (clientState c)]\<rparr>
              else connectToAdminAndStartSSEController result msg addr c)
      | CmdDeclareReady \<Rightarrow>
          (let c = sendRequest ''POST'' (adminURL ''set_ready'' c)
                 (PostSetReady \<lparr>readyShufflerName = localName c, ShufflerIsFirstPlayer = False\<rparr>) c
           in case result of
                HttpError _ \<Rightarrow> c
              | HttpStatus status \<Rightarrow>
                  if status \<noteq> 200 then c\<lparr>logWindow := logWindow c @ [''Failed to send declare ready message'']\<rparr> else c)
      | CmdShowHand \<Rightarrow> logToWindow ''player_client.go'' 215 (DeckString (handOf (ctable c) (localName c))) c
      | CmdTableSummary \<Rightarrow>
          logToWindow ''player_client.go'' 221 ''---''
            (logToWindow ''player_client.go'' 220 (Summary ks (ctable c))
              (logToWindow ''player_client.go'' 219 (''client_state: '' @ PlayerClientStateString (clientState c))
                (logToWindow ''player_client.go'' 218 ''--- table_info:'' c)))
      | CmdDumpDrawDeck \<Rightarrow>
          logToWindow ''player_client.go'' 227 (PrintDrawDeck (cmdCount cmd) (ctable c))
            (logToWindow ''player_client.go'' 226 ''--- Draw Deck:'' c)
      | _ \<Rightarrow> c)"

section \<open>Handlers of the client's own router\<close>

text \<open>The router is built but not served; its handlers are the older form of the events above.  They
  answer with a status.\<close>

definition handleServedCardsEvent :: "bool \<Rightarrow> GoError + Table \<Rightarrow> PlayerClient \<Rightarrow> nat \<times> PlayerClient" where
  "handleServedCardsEvent taken body c =
     (case body of
        Inl _ \<Rightarrow> (500, c)
      | Inr t \<Rightarrow>
          if clientState c \<noteq> WaitingForAdminToServeCards then (400, c)
          else
            let t = t\<lparr>LocalPlayerName := localName c\<rparr>;
                c = c\<lparr>ctable := SetTable t (ctable c)\<rparr>;
                c = snd (sendCommandToUI taken (UICommandSetServedCards t) c)
            in (200, c\<lparr>clientState := WaitingForAdminToChoosePlayer\<rparr>))"

definition handleChosenPlayerEvent :: "GoError + string \<times> int \<Rightarrow> PlayerClient \<Rightarrow> nat \<times> PlayerClient" where
  "handleChosenPlayerEvent body c =
     (case body of
        Inl _ \<Rightarrow> (500, c)
      | Inr (playerName, counter) \<Rightarrow>
          if clientState c \<noteq> WaitingForAdminToChoosePlayer then (400, c)
          else if localName c = playerName
          then (200, (logToWindow ''player_client.go'' 411 ''=====Turn end====='' c)
                 \<lparr>clientState := AskingUserForDecision, asking := asking c @ [counter]\<rparr>)
          else (200, (logToWindow ''player_client.go'' 413
                   (''It'' @ [CHR 0x27] @ ''s player '' @ playerName @ [CHR 0x27] @ ''s turn'') c)
                 \<lparr>clientState := WaitingForDecisionSync\<rparr>))"

definition handlePlayerDecisionsSyncEvent ::
  "Card swaps \<Rightarrow> GoError + PlayerDecisionsRequest \<Rightarrow> PlayerClient \<Rightarrow> (nat \<times> PlayerClient) option" where
  "handlePlayerDecisionsSyncEvent srt body c =
     (case body of
        Inl _ \<Rightarrow> Some (500, c)
      | Inr req \<Rightarrow>
          if DecidingPlayer req = localName c then Some (200, c)
          else if clientState c \<noteq> WaitingForDecisionSync then Some (400, c)
          else case EvalPlayerDecisions srt (DecidingPlayer req) (Decisions req) (gameEvents c) (ctable c) of
            None \<Rightarrow> None
          | Some (_, ch, t) \<Rightarrow>
              Some (200, c\<lparr>ctable := t, gameEvents := ch, clientState := WaitingForAdminToChoosePlayer\<rparr>))"

text \<open>The goroutine that notes the new players runs after the answer.\<close>

definition handleAddNewPlayers ::
  "(string \<Rightarrow> HttpResult) \<Rightarrow> string + AddNewPlayersMessage \<Rightarrow> PlayerClient \<Rightarrow> nat \<times> PlayerClient option" where
  "handleAddNewPlayers result body c =
     (case body of
        Inl _ \<Rightarrow> (400, Some c)
      | Inr msg \<Rightarrow> (200, noteEachPlayer result (newPlayerNames msg) c))"

definition handleGetPlayers :: "PlayerClient \<Rightarrow> string \<rightharpoonup> HostPortProtocol" where
  "handleGetPlayers c = neighborListenAddr c"

section \<open>Lemmas\<close>

text \<open>Commands as the parser accepts them.\<close>

definition okCommand :: "ReplCommand \<Rightarrow> bool" where
  "okCommand cmd \<longleftrightarrow> (cmdKind cmd = CmdDropCard \<longrightarrow> cmdCards cmd \<noteq> []) \<and>
     (cmdKind cmd = CmdSetWildCardColor \<longrightarrow> (\<exists>k. cmdExtraData cmd = ColorData k \<and> valid_color k))"

text \<open>A bare error is the one of a challenge that the deck cannot pay.\<close>

fun isBare :: "ClientError option \<Rightarrow> bool" where
  "isBare (Some (DecisionRejected (BareReason _))) \<longleftrightarrow> True"
| "isBare _ \<longleftrightarrow> False"

lemma ruleStep_rejected: "ruleStep p d g = (Some (EvalDecisionError e r), g') \<Longrightarrow> g' = g"
  by (auto simp: ruleStep_def rulePlay_def drawFour_def Let_def split: PlayerDecisionKind.splits if_splits)

lemma returned_decision:
  assumes "EvalPlayerDecision srt p d ch t = Some ((d', None), ch', t')"
  shows "d' = d \<or> Kind d = PlayerDecisionPullFromDeck \<and> (\<exists>c. d' = d\<lparr>ResultCard := c\<rparr>)"
proof (cases "Kind d")
  case PlayerDecisionPlayHandCard
  with assms show ?thesis
    by (auto simp: EvalPlayerDecision_def evalPlayHandCard_def split: option.splits prod.splits if_splits)
next
  case PlayerDecisionPullFromDeck
  with assms show ?thesis
    by (auto simp: EvalPlayerDecision_def evalPullFromDeck_def Let_def split: option.splits prod.splits if_splits)
qed (use assms in \<open>auto simp: EvalPlayerDecision_def evalPass_def evalChooseColor_def evalDoChallenge_def evalDontChallenge_def
       drawFourAndPass_def Let_def option_bind_simps split: option.splits prod.splits if_splits\<close>)

lemma ruleStep_returned:
  assumes "d' = d \<or> Kind d = PlayerDecisionPullFromDeck \<and> (\<exists>c. d' = d\<lparr>ResultCard := c\<rparr>)" "ruleStep p d g = (None, g')"
  shows "ruleStep p d' g = (None, g')"
  using assms by (auto simp: ruleStep_def split: if_splits)

lemma commandDecision_ok:
  assumes "okCommand cmd"
  obtains err where "commandDecision cmd t = Some (Inl err)" "\<not> isBare (Some err)"
    | d where "commandDecision cmd t = Some (Inr d)" "okDecision d"
proof (cases "commandDecision cmd t")
  case None
  then show ?thesis using assms
    by (auto simp: commandDecision_def okCommand_def split: ReplCommandKind.splits list.splits ExtraData.splits)
next
  case (Some r)
  show ?thesis
  proof (cases r)
    case (Inl err)
    then have "\<not> isBare (Some err)" using Some
      by (auto simp: commandDecision_def split: ReplCommandKind.splits list.splits ExtraData.splits)
    with that(1) Some Inl show ?thesis by blast
  next
    case (Inr d)
    then have "okDecision d" using Some assms
      by (auto simp: commandDecision_def okCommand_def okDecision_def decisionOf_def
        split: ReplCommandKind.splits list.splits ExtraData.splits)
    with that(2) Some Inr show ?thesis by blast
  qed
qed

text \<open>Everything but the table, its events and the lines shown.\<close>

definition sameClient :: "PlayerClient \<Rightarrow> PlayerClient \<Rightarrow> bool" where
  "sameClient c c' \<longleftrightarrow> clientState c' = clientState c \<and> neighborListenAddr c' = neighborListenAddr c \<and>
     adminAddr c' = adminAddr c \<and> advertiseIP c' = advertiseIP c \<and> connected c' = connected c \<and> asking c' = asking c \<and>
     sentRequests c' = sentRequests c \<and> uiCommands c' = uiCommands c \<and> askCommands c' = askCommands c"

lemma sameClient_trans: "sameClient c c1 \<Longrightarrow> sameClient c1 c2 \<Longrightarrow> sameClient c c2"
  by (simp add: sameClient_def)

text \<open>One command: either it is turned into an accepted decision that follows the rules, or nothing
  changes, or the deck cannot pay a challenge.\<close>

lemma evalReplCommand_step:
  assumes "wf_game (ctable c)" "localName c \<in> set (PlayerNames (ctable c))" "okCommand cmd"
  obtains d err c' where "evalReplCommandOnTable srt cmd c = Some ((d, err), c')"
    "stepOk (ctable c) (ctable c')" "sameClient c c'"
    "err = None \<Longrightarrow> okDecision d \<and> ruleStep (localName c) d (absTable (ctable c)) = (None, absTable (ctable c'))"
    "err \<noteq> None \<Longrightarrow> \<not> isBare err \<Longrightarrow> absTable (ctable c') = absTable (ctable c)"
proof (rule commandDecision_ok [OF assms(3), of "ctable c"])
  fix err assume "commandDecision cmd (ctable c) = Some (Inl err)"
  moreover have "stepOk (ctable c) (ctable c)" using assms(1) by (simp add: stepOk_def)
  moreover have "sameClient c c" by (simp add: sameClient_def)
  ultimately show ?thesis by (intro that [of "decisionOf (PlayerDecisionOther 0)" "Some err" c])
    (simp_all add: evalReplCommandOnTable_def)
next
  fix d assume d: "commandDecision cmd (ctable c) = Some (Inr d)" "okDecision d"
  obtain d' e ch t where r: "EvalPlayerDecision srt (localName c) d (gameEvents c) (ctable c) = Some ((d', e), ch, t)"
    "stepOk (ctable c) t" "(e, absTable t) = ruleStep (localName c) d (absTable (ctable c))"
    using EvalPlayerDecision_step [OF assms(1,2) d(2)] by blast
  let ?c = "c\<lparr>ctable := t, gameEvents := ch\<rparr>"
  have "okDecision d' \<and> ruleStep (localName c) d' (absTable (ctable c)) = (None, absTable t)" if "e = None"
  proof -
    note ret = returned_decision [OF r(1) [unfolded that]]
    have "ruleStep (localName c) d' (absTable (ctable c)) = (None, absTable t)"
      using r(3) that by (intro ruleStep_returned [OF ret]) simp
    moreover have "okDecision d'" using ret d(2) by (auto simp: okDecision_def)
    ultimately show ?thesis by simp
  qed
  moreover have "absTable t = absTable (ctable c)" if "e \<noteq> None" "\<not> isBare (map_option DecisionRejected e)"
  proof (cases e)
    case (Some x)
    then show ?thesis using that r(3) by (cases x) (auto dest: ruleStep_rejected [OF sym])
  qed (use that in simp)
  ultimately show ?thesis using d(1) r(1,2)
    by (intro that [of d' "map_option DecisionRejected e" ?c]) (auto simp: evalReplCommandOnTable_def sameClient_def)
qed

lemma logToWindow_sel [simp]:
  "ctable (logToWindow f n s c) = ctable c" "clientState (logToWindow f n s c) = clientState c"
  "gameEvents (logToWindow f n s c) = gameEvents c" "sentRequests (logToWindow f n s c) = sentRequests c"
  by (simp_all add: logToWindow_def)

text \<open>What the loop guarantees: the client still has its place in the game, and the decisions follow the
  rules from its table to the one it has now, unless the deck could not pay a challenge.\<close>

definition followsRules ::
  "PlayerClient \<Rightarrow> PlayerDecision list \<Rightarrow> AskUserForDecisionResult list \<Rightarrow> PlayerClient \<Rightarrow> bool" where
  "followsRules c ds xs c' \<longleftrightarrow> stepOk (ctable c) (ctable c') \<and> (\<forall>d \<in> set ds. okDecision d) \<and>
     ((\<exists>x \<in> set xs. isBare (ResultError x)) \<or>
        tables.rules (localName c) ds (absTable (ctable c)) = (None, absTable (ctable c'))) \<and>
     sameClient c c'"

lemma followsRules_refl: "wf_game (ctable c) \<Longrightarrow> followsRules c [] [] c"
  by (simp add: followsRules_def sameClient_def)

text \<open>One round of the loop in front of the rest of it.\<close>

lemma followsRules_accepted:
  assumes "followsRules c1 ds xs c'" "stepOk (ctable c) (ctable c1)" "sameClient c c1"
    and "okDecision d \<and> ruleStep (localName c) d (absTable (ctable c)) = (None, absTable (ctable c1))"
  shows "followsRules c (d # ds) (x # xs) c'"
proof -
  have "localName c1 = localName c" using stepOkD [OF assms(2)] by simp
  moreover have "stepOk (ctable c) (ctable c')" using assms(1,2) by (auto simp: followsRules_def intro: stepOk_trans)
  moreover have "sameClient c c'" using assms(1,3) by (auto simp: followsRules_def intro: sameClient_trans)
  ultimately show ?thesis using assms(1,4) by (auto simp: followsRules_def)
qed

lemma followsRules_rejected:
  assumes "followsRules c2 ds xs c'" "c2 = c1\<lparr>logWindow := l\<rparr>" "stepOk (ctable c) (ctable c1)"
    and "sameClient c c1"
    and "isBare (ResultError x) \<or> absTable (ctable c1) = absTable (ctable c)"
  shows "followsRules c ds (x # xs) c'"
proof -
  have "localName c1 = localName c" using stepOkD [OF assms(3)] by simp
  moreover have "stepOk (ctable c) (ctable c')" using assms(1-3) by (auto simp: followsRules_def intro: stepOk_trans)
  moreover have "sameClient c c'" using assms(1,2,4) by (simp add: followsRules_def sameClient_def)
  ultimately show ?thesis using assms(1,2,5) by (auto simp: followsRules_def)
qed

text \<open>A rejected command only adds a line to the log before the loop goes on.\<close>

lemma decisionLoop_rejected:
  assumes "evalReplCommandOnTable srt cmd c = Some ((d, Some e), c1)"
  shows "\<exists>l. decisionLoop srt (cmd # cmds) ds xs c =
    decisionLoop srt cmds ds (xs @ [\<lparr>AskForOneMoreDecision = True, ResultError = Some e\<rparr>]) (c1\<lparr>logWindow := l\<rparr>)"
proof -
  let ?c2 = "case e of DecisionRejected (EvalDecisionError _ _) \<Rightarrow>
    logToWindow ''player_client.go'' 457
      (''invalid decision, eligible decisions are: '' @ EligibleCommandsAtState (TableState (ctable c1))) c1 | _ \<Rightarrow> c1"
  have "\<exists>l. ?c2 = c1\<lparr>logWindow := l\<rparr>"
    by (auto simp: logToWindow_def intro: exI [of _ "logWindow c1"] split: ClientError.split EvalError.split)
  then obtain l where "?c2 = c1\<lparr>logWindow := l\<rparr>" ..
  with assms have "decisionLoop srt (cmd # cmds) ds xs c =
      decisionLoop srt cmds ds (xs @ [\<lparr>AskForOneMoreDecision = True, ResultError = Some e\<rparr>]) (c1\<lparr>logWindow := l\<rparr>)"
    by (simp add: Let_def)
  then show ?thesis ..
qed

lemma decisionLoop_rules:
  assumes "wf_game (ctable c)" "localName c \<in> set (PlayerNames (ctable c))" "\<forall>cmd \<in> set cmds. okCommand cmd"
  shows "\<exists>fin rest ds xs c'. decisionLoop srt cmds ds0 xs0 c = Some (fin, rest, ds0 @ ds, xs0 @ xs, c') \<and>
    followsRules c ds xs c' \<and> (fin \<longrightarrow> \<not> NeedMoreUserDecisionToFinishTurn (ctable c'))"
  using assms
proof (induction cmds arbitrary: c ds0 xs0)
  case Nil
  then show ?case using followsRules_refl [of c] by auto
next
  case (Cons cmd cmds)
  obtain d err c1 where s: "evalReplCommandOnTable srt cmd c = Some ((d, err), c1)" "stepOk (ctable c) (ctable c1)"
    "sameClient c c1"
    "err = None \<Longrightarrow> okDecision d \<and> ruleStep (localName c) d (absTable (ctable c)) = (None, absTable (ctable c1))"
    "err \<noteq> None \<Longrightarrow> \<not> isBare err \<Longrightarrow> absTable (ctable c1) = absTable (ctable c)"
    by (rule evalReplCommand_step [of c cmd srt]) (use Cons.prems in auto)
  have n: "wf_game (ctable c1)" "localName c1 \<in> set (PlayerNames (ctable c1))"
    using stepOkD [OF s(2)] Cons.prems(2) by auto
  show ?case
  proof (cases err)
    case None
    let ?more = "NeedMoreUserDecisionToFinishTurn (ctable c1)"
    let ?x = "\<lparr>AskForOneMoreDecision = ?more, ResultError = None\<rparr>"
    note acc = followsRules_accepted [OF _ s(2,3) s(4) [OF None], of _ _ _ ?x]
    show ?thesis
    proof (cases ?more)
      case False
      with s(1) None have "decisionLoop srt (cmd # cmds) ds0 xs0 c = Some (True, cmds, ds0 @ [d], xs0 @ [?x], c1)" by simp
      with acc [OF followsRules_refl [OF n(1)]] False show ?thesis by blast
    next
      case True
      obtain fin rest ds xs c' where r: "decisionLoop srt cmds (ds0 @ [d]) (xs0 @ [?x]) c1 =
          Some (fin, rest, (ds0 @ [d]) @ ds, (xs0 @ [?x]) @ xs, c')" "followsRules c1 ds xs c'"
        "fin \<longrightarrow> \<not> NeedMoreUserDecisionToFinishTurn (ctable c')"
        using Cons.IH [OF n, of "ds0 @ [d]" "xs0 @ [?x]"] Cons.prems(3) by auto
      have "decisionLoop srt (cmd # cmds) ds0 xs0 c = Some (fin, rest, ds0 @ (d # ds), xs0 @ (?x # xs), c')"
        using s(1) None True r(1) by simp
      with acc [OF r(2)] r(3) show ?thesis by blast
    qed
  next
    case (Some e)
    let ?x = "\<lparr>AskForOneMoreDecision = True, ResultError = Some e\<rparr>"
    obtain l where l: "decisionLoop srt (cmd # cmds) ds0 xs0 c = decisionLoop srt cmds ds0 (xs0 @ [?x]) (c1\<lparr>logWindow := l\<rparr>)"
      using decisionLoop_rejected [of srt cmd c d e c1 cmds ds0 xs0] s(1) Some by auto
    obtain fin rest ds xs c' where r: "decisionLoop srt cmds ds0 (xs0 @ [?x]) (c1\<lparr>logWindow := l\<rparr>) =
        Some (fin, rest, ds0 @ ds, (xs0 @ [?x]) @ xs, c')"
      "followsRules (c1\<lparr>logWindow := l\<rparr>) ds xs c'" "fin \<longrightarrow> \<not> NeedMoreUserDecisionToFinishTurn (ctable c')"
      using Cons.IH [of "c1\<lparr>logWindow := l\<rparr>" ds0 "xs0 @ [?x]"] n Cons.prems(3) by auto
    have "isBare (ResultError ?x) \<or> absTable (ctable c1) = absTable (ctable c)" using s(5) Some by auto
    from followsRules_rejected [OF r(2) refl s(2,3) this] have "followsRules c ds (?x # xs) c'" .
    with l r(1,3) show ?thesis by auto
  qed
qed

section \<open>A client\<close>

definition demoClient :: PlayerClient where
  "demoClient = NewPlayerClient (demoTable\<lparr>LocalPlayerName := ''al''\<rparr>) \<lparr>IP = ''h'', Port = 1, Protocol = ''http''\<rparr> ''h''"

lemma wf_game_local [simp]: "wf_game (t\<lparr>LocalPlayerName := p\<rparr>) = wf_game t"
  unfolding wf_game_def wf_table_def wf_seating_def tableCards_def by simp

lemma absTable_local [simp]: "absTable (t\<lparr>LocalPlayerName := p\<rparr>) = absTable t"
  by (simp add: absTable_def)

text \<open>The user draws a card and passes.\<close>

definition demoCommands :: "ReplCommand list" where
  "demoCommands = [(NewReplCommand CmdDrawCard ''al'')\<lparr>cmdCount := 1\<rparr>, NewReplCommand CmdPass ''al'']"

lemma demoClient_loop:
  "\<exists>ds xs c'. decisionLoop (\<lambda>_. []) demoCommands [] [] demoClient = Some (True, [], ds, xs, c') \<and> length ds = 2 \<and>
     (\<forall>x \<in> set xs. \<not> isBare (ResultError x))"
  by (simp add: demoCommands_def demoClient_def NewPlayerClient_def evalReplCommandOnTable_def commandDecision_def
    NewReplCommand_def EvalPlayerDecision_def decisionOf_def evalPullFromDeck_def pullCardFromDeckToPlayerHand_def deck_eqs
    evalPass_def setNeighborAsNextPlayer_def NeedMoreUserDecisionToFinishTurn_def PlayerIndexFromName_def
    GetNextPlayerIndex_def go_index_def PlayerCount_def go_rem_def signed_modulo_int_def SetPlayerOfNextTurn_def Let_def)

section \<open>Properties\<close>

text \<open>C9. What a client tells the others is what it did: for every sequence of typed commands the loop
  that asks the local player never panics and keeps the game, and unless the deck could not pay a
  challenge, every copy of the table that agreed with the client's before, in whatever order it keeps
  the hands, accepts all collected decisions and agrees with the client's table afterwards.  The loop
  ends only at a point where the turn needs no further decision.\<close>

theorem sent_decisions_replay:
  assumes "wf_game (ctable c)" "localName c \<in> set (PlayerNames (ctable c))" "\<forall>cmd \<in> set cmds. okCommand cmd"
  shows "\<exists>fin rest ds xs c'. decisionLoop srt cmds [] [] c = Some (fin, rest, ds, xs, c') \<and>
    stepOk (ctable c) (ctable c') \<and> (fin \<longrightarrow> \<not> NeedMoreUserDecisionToFinishTurn (ctable c')) \<and>
    ((\<forall>x \<in> set xs. \<not> isBare (ResultError x)) \<longrightarrow>
       (\<forall>srt' r. wf_game r \<and> absTable r = absTable (ctable c) \<longrightarrow>
          (\<exists>r'. EvalPlayerDecisionsNoTransferChan srt' (localName c) ds r = Some (None, r') \<and>
             absTable r' = absTable (ctable c'))))"
proof -
  obtain fin rest ds xs c' where l: "decisionLoop srt cmds [] [] c = Some (fin, rest, ds, xs, c')" "followsRules c ds xs c'"
    "fin \<longrightarrow> \<not> NeedMoreUserDecisionToFinishTurn (ctable c')" using decisionLoop_rules [OF assms, of srt "[]" "[]"] by auto
  have "\<exists>r'. EvalPlayerDecisionsNoTransferChan srt' (localName c) ds r = Some (None, r') \<and> absTable r' = absTable (ctable c')"
    if "\<forall>x \<in> set xs. \<not> isBare (ResultError x)" "wf_game r" "absTable r = absTable (ctable c)" for srt' r
  proof -
    have "localName c \<in> set (PlayerNames r)" using assms(2) that(3) absTable_sel(4) by metis
    then have "\<exists>e ch r'. EvalPlayerDecisions srt' (localName c) ds [] r = Some (e, ch, r') \<and>
        (e, absTable r') = tables.rules (localName c) ds (absTable r)"
      using tables.run_ok [of "([], r)" "localName c" ds srt'] that(2) l(2) by (auto simp: followsRules_def)
    with that(1,3) l(2) show ?thesis by (auto simp: followsRules_def EvalPlayerDecisionsNoTransferChan_def)
  qed
  with l show ?thesis by (auto simp: followsRules_def)
qed

theorem sent_decisions_replay_witness:
  "\<exists>rest ds xs c' r'. decisionLoop (\<lambda>_. []) demoCommands [] [] demoClient = Some (True, rest, ds, xs, c') \<and> length ds = 2 \<and>
     EvalPlayerDecisionsNoTransferChan (insertionSwaps IsLessThan) ''al'' ds demoTable = Some (None, r') \<and>
     absTable r' = absTable (ctable c')"
proof -
  have c: "ctable demoClient = demoTable\<lparr>LocalPlayerName := ''al''\<rparr>" by (simp add: demoClient_def NewPlayerClient_def)
  have ok: "\<forall>cmd \<in> set demoCommands. okCommand cmd" by (simp add: okCommand_def NewReplCommand_def demoCommands_def)
  show ?thesis using sent_decisions_replay [of demoClient demoCommands "\<lambda>_. []"] c ok demoClient_loop by fastforce
qed

end
