(* ===== verification/Session.thy ===== *)
theory Session
  imports AdminRuns Client
begin

text \<open>
  The admin and its clients together.  The network is what connects them: a client handles the events
  the admin wrote to its stream, in their order; the admin handles the requests the clients sent.
  \<open>playTurn\<close> is one turn of the game through the operations of both sides: the admin announces the
  chosen player, that player's client asks its user and posts the decisions, the admin evaluates and
  forwards them, the other clients evaluate and acknowledge them, and the admin goes on to the next
  turn.  The theorems show that all tables agree at the end of every turn.
\<close>

section \<open>Turns\<close>

type_synonym session = "Admin \<times> (string \<Rightarrow> PlayerClient)"

text \<open>What was written to the stream of a player since \<open>a\<close>.\<close>

definition eventsFor :: "Admin \<Rightarrow> Admin \<Rightarrow> string \<Rightarrow> ServerEvent list" where
  "eventsFor a a' p =
     map snd (filter (\<lambda>x. sseWriterForPlayer a' p = Some (fst x)) (drop (length (written a)) (written a')))"

fun handleEvents :: "Card swaps \<Rightarrow> ServerEvent list \<Rightarrow> PlayerClient \<Rightarrow> PlayerClient option" where
  "handleEvents srt [] c = Some c"
| "handleEvents srt (ev # evs) c =
     (case handleServerEvent srt (\<lambda>_. HttpStatus 200) True ev c of None \<Rightarrow> None | Some c \<Rightarrow> handleEvents srt evs c)"

fun deliverEvents ::
  "(string \<Rightarrow> Card swaps) \<Rightarrow> Admin \<Rightarrow> Admin \<Rightarrow> string list \<Rightarrow> (string \<Rightarrow> PlayerClient) \<Rightarrow> (string \<Rightarrow> PlayerClient) option" where
  "deliverEvents srts a a' [] cs = Some cs"
| "deliverEvents srts a a' (p # ps) cs =
     (case handleEvents (srts p) (eventsFor a a' p) (cs p) of
        None \<Rightarrow> None
      | Some c \<Rightarrow> deliverEvents srts a a' ps (cs(p := c)))"

text \<open>The last request of a client.\<close>

definition sentDecisions :: "PlayerClient \<Rightarrow> PlayerDecisionsRequest option" where
  "sentDecisions c = (case map snd (rev (sentRequests c)) of PostDecisions r # _ \<Rightarrow> Some r | _ \<Rightarrow> None)"

definition sentSyncAck :: "PlayerClient \<Rightarrow> AckSyncedPlayerDecisionsMesasge option" where
  "sentSyncAck c = (case map snd (rev (sentRequests c)) of PostAckDecisionSync m # _ \<Rightarrow> Some m | _ \<Rightarrow> None)"

fun deliverAcks :: "(string \<Rightarrow> PlayerClient) \<Rightarrow> string list \<Rightarrow> Admin \<Rightarrow> Admin option" where
  "deliverAcks cs [] a = Some a"
| "deliverAcks cs (p # ps) a =
     (case sentSyncAck (cs p) of
        None \<Rightarrow> None
      | Some m \<Rightarrow> deliverAcks cs ps (deliverSyncAck (DecisionCounter m) (AckerPlayer m) a))"

text \<open>\<open>ks\<close> is the order in which the admin visits its streams, \<open>cmds\<close> what the chosen player types,
  \<open>qs\<close> the order in which the acks arrive, \<open>srts\<close> and \<open>srt\<close> how the clients and the admin sort hands.\<close>

definition playTurn ::
  "(string \<Rightarrow> Card swaps) \<Rightarrow> Card swaps \<Rightarrow> string list \<Rightarrow> ReplCommand list \<Rightarrow> string list \<Rightarrow> session \<Rightarrow> session option" where
  "playTurn srts srt ks cmds qs s = do {
     let (a, cs) = s;
     let p = PlayerOfNextTurn (table a);
     let a1 = dispatchChosenPlayer (\<lambda>_. True) ks (a\<lparr>sseControllerEvents := []\<rparr>);
     cs \<leftarrow> deliverEvents srts a a1 ks cs;
     (closed, c) \<leftarrow> askAndRunUserDecisions (srts p) cmds (HttpStatus 200) (last (asking (cs p))) (cs p);
     req \<leftarrow> (if closed then sentDecisions c else None);
     let a2 = (snd (handlePlayerDecisionsEvent (Inr req) a1))\<lparr>sseControllerEvents := []\<rparr>;
     a3 \<leftarrow> dispatchDecision srt (\<lambda>_. True) ks [] req a2;
     cs \<leftarrow> deliverEvents srts a2 a3 ks (cs(p := c));
     a4 \<leftarrow> deliverAcks cs qs a3;
     a5 \<leftarrow> runNewTurn (finishSync a4);
     Some (a5, cs)
   }"

section \<open>The admin's side\<close>

text \<open>What the acks leave alone.\<close>

definition sameNet :: "Admin \<Rightarrow> Admin \<Rightarrow> bool" where
  "sameNet a a' \<longleftrightarrow> mutexHeld a' = mutexHeld a \<and> sseWriterForPlayer a' = sseWriterForPlayer a \<and> written a' = written a \<and>
     preemptiveAcks (expectedAcksList a') = preemptiveAcks (expectedAcksList a)"

lemma sameNet_trans: "sameNet a b \<Longrightarrow> sameNet b c \<Longrightarrow> sameNet a c"
  by (simp add: sameNet_def)

abbreviation pendingFors :: "Admin \<Rightarrow> expectedAck multiset" where
  "pendingFors a \<equiv> mset (map pendingFor (pendingAcks (expectedAcksList a)))"

lemma syncAcks_net:
  assumes "\<not> stuck (expectedAcksList a)" "preemptiveAcks (expectedAcksList a) = []"
  shows "sameNet a (syncAcks g req ks a) \<and> pendingFors (syncAcks g req ks a) = pendingFors a +
    mset (map (\<lambda>p. syncAck p (DecisionEventCounter req)) (filter (\<lambda>p. p \<noteq> DecidingPlayer req) ks))"
  using assms
proof (induction ks arbitrary: a)
  case (Cons q ks)
  show ?case
  proof (cases "q = DecidingPlayer req")
    case False
    let ?a = "registerAck (Some g) (syncAck q (DecisionEventCounter req)) a"
    note e = registerAck_clear [OF Cons.prems(1), of "syncAck q (DecisionEventCounter req)" "Some g"]
    have "sameNet a ?a" "pendingFors ?a = add_mset (syncAck q (DecisionEventCounter req)) (pendingFors a)"
      "\<not> stuck (expectedAcksList ?a)" "preemptiveAcks (expectedAcksList ?a) = []"
      using e Cons.prems by (simp_all add: sameNet_def)
    with Cons.IH [of ?a] False show ?thesis by (auto intro: sameNet_trans)
  qed (use Cons in simp)
qed (simp add: sameNet_def)

lemma syncAcks_same:
  "remainingAcks (syncAcks g req ks a) = remainingAcks a" "decisionEventsCompleted (syncAcks g req ks a) = decisionEventsCompleted a"
  "joinTasks (syncAcks g req ks a) = joinTasks a"
  by (induction g req ks a rule: syncAcks.induct) (simp_all add: registerAck_def)

lemma deliver_net:
  assumes "awaiting g n Q a" "q \<in> Q"
  shows "sameNet a (deliverSyncAck n q a) \<and> add_mset (syncAck q n) (pendingFors (deliverSyncAck n q a)) = pendingFors a"
proof -
  obtain us p vs where l: "pendingAcks (expectedAcksList a) = us @ p # vs" "pendingFor p = syncAck q n"
    and w: "waitForAcks (syncAck q n) (expectedAcksList a) = (expectedAcksList a)\<lparr>pendingAcks := us @ vs,
       waiting := waiting (expectedAcksList a) - {ackReceivedChan p}, fired := fired (expectedAcksList a) @ [OnAck (ackReceivedChan p)]\<rparr>"
    and e: "deliverSyncAck n q a = onSyncAck (ackReceivedChan p)
       (a\<lparr>expectedAcksList := waitForAcks (syncAck q n) (expectedAcksList a), callbacksDue := [ackReceivedChan p]\<rparr>)"
    by (rule deliver_eq [OF assms])
  show ?thesis unfolding e w by (simp add: sameNet_def onSyncAck_def Let_def l)
qed

lemma deliver_acksRefine: "acksRefine a (deliverSyncAck n q a)"
proof -
  have f: "acksRefine a (fold onSyncAck cs a)" for cs a
  proof (induction cs arbitrary: a)
    case (Cons x cs)
    have "acksRefine a (onSyncAck x a)" by (rule acksRefine_same) (simp_all add: onSyncAck_def Let_def)
    with Cons show ?case by (auto intro: acksRefine_trans)
  qed (simp add: acksRefine_same)
  show ?thesis
  proof (cases "sendAck (syncAck q n) a")
    case None
    with f show ?thesis by (simp add: deliverSyncAck_def handleAckPlayerDecisionSynced_def Let_def)
  next
    case (Some b)
    from acksRefine_trans [OF acksRefine_sendAck [OF Some] f] Some show ?thesis
      by (simp add: deliverSyncAck_def handleAckPlayerDecisionSynced_def Let_def)
  qed
qed

lemma deliver_all_net:
  assumes "awaiting g n (set qs) a" "distinct qs"
  shows "sameNet a (fold (deliverSyncAck n) qs a) \<and> acksRefine a (fold (deliverSyncAck n) qs a) \<and>
    mset (map (\<lambda>q. syncAck q n) qs) + pendingFors (fold (deliverSyncAck n) qs a) = pendingFors a"
  using assms
proof (induction qs arbitrary: a)
  case (Cons q qs)
  have q: "q \<in> set (q # qs)" "set (q # qs) - {q} = set qs" using Cons.prems(2) by auto
  have "awaiting g n (set qs) (deliverSyncAck n q a)" using deliver_step [OF Cons.prems(1) q(1)] unfolding q(2) by simp
  from Cons.IH [OF this] Cons.prems(2) deliver_net [OF Cons.prems(1) q(1)] deliver_acksRefine [of a n q]
  show ?case by (auto intro: sameNet_trans acksRefine_trans)
qed (simp add: sameNet_def acksRefine_same)

text \<open>Nobody is waited for.\<close>

definition calm :: "Admin \<Rightarrow> bool" where
  "calm a \<longleftrightarrow> \<not> mutexHeld a \<and> acksLoopRuns a \<and> callbacksDue a = [] \<and> acksInv (expectedAcksList a) \<and> freshChans a \<and>
     \<not> stuck (expectedAcksList a) \<and> pendingAcks (expectedAcksList a) = [] \<and> preemptiveAcks (expectedAcksList a) = []"

text \<open>Every player has a stream of its own.\<close>

definition streams :: "string list \<Rightarrow> Admin \<Rightarrow> bool" where
  "streams ks a \<longleftrightarrow> range_order ks (sseWriterForPlayer a) \<and> inj_on (sseWriterForPlayer a) (set ks) \<and> [] \<notin> set ks"

lemma send_all: "sendMessageToAllPlayersWithSSE (\<lambda>_. True) ks x ev a =
    (True, a\<lparr>written := written a @ map (\<lambda>p. (map_get 0 (sseWriterForPlayer a) p, ev)) (filter (\<lambda>p. p \<noteq> x) ks)\<rparr>)"
  by (induction ks arbitrary: a) (simp_all add: Let_def)

lemma distinct_filter_one: "distinct xs \<Longrightarrow> x \<in> set xs \<Longrightarrow> filter (\<lambda>y. y = x) xs = [x]"
  by (induction xs) (auto simp: filter_empty_conv)

lemma eventsFor_send:
  assumes "streams ks a'" "p \<in> set ks"
    and "written a' = written a @ map (\<lambda>p. (map_get 0 (sseWriterForPlayer a') p, ev)) (filter (\<lambda>p. p \<noteq> x) ks)"
  shows "eventsFor a a' p = (if p = x then [] else [ev])"
proof -
  let ?W = "sseWriterForPlayer a'"
  have d: "distinct ks" "\<And>q. q \<in> set ks \<Longrightarrow> ?W q \<noteq> None" "inj_on ?W (set ks)"
    using assms(1) by (auto simp: streams_def range_order_def dom_def)
  have w: "(?W p = Some (map_get 0 ?W q)) \<longleftrightarrow> q = p" if "q \<in> set ks" for q
    using d(2) [OF that] d(2) [OF assms(2)] inj_onD [OF d(3) _ that assms(2)] by (auto simp: map_get_def)
  have "filter (\<lambda>y. ?W p = Some (fst y)) (map (\<lambda>p. (map_get 0 ?W p, ev)) (filter (\<lambda>p. p \<noteq> x) ks)) =
      map (\<lambda>p. (map_get 0 ?W p, ev)) (filter (\<lambda>q. q = p \<and> q \<noteq> x) ks)"
    by (auto simp: filter_map o_def w cong: filter_cong intro!: arg_cong [where f = "map _"] filter_cong)
  moreover have "filter (\<lambda>q. q = p \<and> q \<noteq> x) ks = (if p = x then [] else [p])"
  proof (cases "p = x")
    case True
    then show ?thesis by (auto simp: filter_empty_conv)
  next
    case False
    then have "filter (\<lambda>q. q = p \<and> q \<noteq> x) ks = filter (\<lambda>q. q = p) ks" by (intro filter_cong) auto
    also have "\<dots> = [p]" using d(1) assms(2) by (simp add: distinct_filter_one)
    finally show ?thesis using False by simp
  qed
  ultimately show ?thesis using assms(3) by (simp add: eventsFor_def)
qed

text \<open>The announcement of the chosen player and the request with that player's decisions.\<close>

lemma chosen_stage:
  fixes a :: Admin and ks :: "string list"
  defines "p \<equiv> PlayerOfNextTurn (table a)"
  defines "n \<equiv> decisionEventsCompleted a"
  defines "a1 \<equiv> dispatchChosenPlayer (\<lambda>_. True) ks (a\<lparr>sseControllerEvents := []\<rparr>)"
  assumes "calm a" "DecidingPlayer req = p" "DecisionEventCounter req = n" "streams ks a"
  defines "a2 \<equiv> (snd (handlePlayerDecisionsEvent (Inr req) a1))\<lparr>sseControllerEvents := []\<rparr>"
  shows "written a1 = written a @ map (\<lambda>q. (map_get 0 (sseWriterForPlayer a1) q, ChosenPlayerEvent p n)) (filter (\<lambda>q. q \<noteq> []) ks)"
    and "sseWriterForPlayer a1 = sseWriterForPlayer a" "sseWriterForPlayer a2 = sseWriterForPlayer a"
    and "fst (handlePlayerDecisionsEvent (Inr req) a1) = Responded StatusOK []" "calm a2" "table a2 = table a"
    and "decisionEventsCompleted a2 = n" "userConfig a2 = userConfig a"
proof -
  let ?c = "nextChan a" and ?es = "expectedAcksList a"
  define b where "b = setState WaitingForPlayerDecision (a\<lparr>sseControllerEvents := [],
    written := written a @ map (\<lambda>q. (map_get 0 (sseWriterForPlayer a) q, ChosenPlayerEvent p n)) (filter (\<lambda>q. q \<noteq> []) ks)\<rparr>)"
  have es: "\<not> stuck ?es" "pendingAcks ?es = []" "preemptiveAcks ?es = []" "acksLoopRuns a" "\<not> mutexHeld a" "callbacksDue a = []"
    "acksInv ?es" "freshChans a" using assms(4) by (auto simp: calm_def)
  have a1: "a1 = b\<lparr>expectedAcksList := ?es\<lparr>waiting := insert ?c (waiting ?es),
      pendingAcks := [\<lparr>pendingFor = decisionAck p n, ackReceivedChan = ?c\<rparr>]\<rparr>, syncOf := (syncOf a)(?c := None), nextChan := Suc ?c\<rparr>"
    using registerAck_clear [of b "decisionAck p n" None] es
    by (simp add: a1_def dispatchChosenPlayer_def send_all b_def p_def n_def Let_def)
  let ?b = "receiveAck (decisionAck p n) a1"
  have s: "sendAck (decisionAck p n) a1 = Some ?b" using es by (simp add: sendAck_def a1 b_def)
  have h: "handlePlayerDecisionsEvent (Inr req) a1 = (Responded StatusOK [],
      ?b\<lparr>sseControllerEvents := sseControllerEvents ?b @ [sseCommandSyncPlayerDecisionEvent req]\<rparr>)"
    using s es assms(5,6) by (simp add: handlePlayerDecisionsEvent_def a1 b_def)
  have r: "receiveAck (decisionAck p n) a1 = a1\<lparr>expectedAcksList := ?es\<lparr>waiting := insert ?c (waiting ?es) - {?c},
      fired := fired ?es @ [OnAck ?c]\<rparr>\<rparr>"
    using es by (simp add: receiveAck_def a1 b_def waitForAcks_def ackEqual_def Let_def)
  have "acksRefine a b" by (rule acksRefine_same) (simp_all add: b_def)
  moreover have "acksRefine b a1" using acksRefine_registerAck [of b None "decisionAck p n"] registerAck_clear [of b "decisionAck p n" None] es
    by (simp add: a1 b_def)
  ultimately have "acksRefine a ?b" using acksRefine_sendAck [OF s] by (blast intro: acksRefine_trans)
  then have f: "freshChans ?b" "acksInv (expectedAcksList ?b)" using es(7,8) acks.steps_inv unfolding acksRefine_def by blast+
  show "calm a2" using f es by (simp add: a2_def h r calm_def freshChans_def) (simp add: a1 b_def)
  show "written a1 = written a @ map (\<lambda>q. (map_get 0 (sseWriterForPlayer a1) q, ChosenPlayerEvent p n)) (filter (\<lambda>q. q \<noteq> []) ks)"
    "sseWriterForPlayer a1 = sseWriterForPlayer a" "sseWriterForPlayer a2 = sseWriterForPlayer a"
    "fst (handlePlayerDecisionsEvent (Inr req) a1) = Responded StatusOK []" "table a2 = table a"
    "decisionEventsCompleted a2 = n" "userConfig a2 = userConfig a"
    by (simp_all add: a2_def h r) (simp_all add: a1 b_def n_def)
qed

text \<open>The evaluation, the events to the others and their acks.\<close>

lemma dispatchDecision_net:
  assumes "calm a" "EvalPlayerDecisionsNoTransferChan srt (DecidingPlayer req) (Decisions req) (table a) = Some (None, t)"
    and "dispatchDecision srt (\<lambda>_. True) ks [] req a = Some a3"
  shows "written a3 = written a @ map (\<lambda>q. (map_get 0 (sseWriterForPlayer a3) q, PlayerDecisionsSyncEvent req))
      (filter (\<lambda>q. q \<noteq> DecidingPlayer req) ks)"
    and "sseWriterForPlayer a3 = sseWriterForPlayer a" "\<not> mutexHeld a3" "preemptiveAcks (expectedAcksList a3) = []" "freshChans a3"
    and "pendingFors a3 = mset (map (\<lambda>q. syncAck q (DecisionEventCounter req)) (filter (\<lambda>q. q \<noteq> DecidingPlayer req) ks))"
proof -
  let ?p = "DecidingPlayer req"
  define b where "b = (updatePromptWithStateInfo (setState SyncingPlayerDecision (a\<lparr>table := t\<rparr>)))\<lparr>written := written a @
    map (\<lambda>q. (map_get 0 (sseWriterForPlayer a) q, PlayerDecisionsSyncEvent req)) (filter (\<lambda>q. q \<noteq> ?p) ks),
    remainingAcks := (remainingAcks a)(nextChan a := int (length ks) - 1)\<rparr>"
  have d: "a3 = syncAcks (nextChan a) req ks b"
    using assms(2,3) by (simp add: dispatchDecision_def send_all receiveEarly_def b_def Let_def)
  have f: "freshChans b" using assms(1) by (simp add: b_def calm_def freshChans_def)
  have s: "sameNet b a3 \<and> pendingFors a3 = pendingFors b +
      mset (map (\<lambda>p. syncAck p (DecisionEventCounter req)) (filter (\<lambda>q. q \<noteq> ?p) ks))"
    unfolding d using assms(1) by (intro syncAcks_net) (simp_all add: b_def calm_def)
  from f show "freshChans a3" unfolding d using acksRefine_syncAcks [of b] unfolding acksRefine_def by blast
  show "written a3 = written a @ map (\<lambda>q. (map_get 0 (sseWriterForPlayer a3) q, PlayerDecisionsSyncEvent req))
      (filter (\<lambda>q. q \<noteq> ?p) ks)"
    "sseWriterForPlayer a3 = sseWriterForPlayer a" "\<not> mutexHeld a3" "preemptiveAcks (expectedAcksList a3) = []"
    "pendingFors a3 = mset (map (\<lambda>q. syncAck q (DecisionEventCounter req)) (filter (\<lambda>q. q \<noteq> ?p) ks))"
    using s assms(1) by (simp_all add: sameNet_def b_def calm_def)
qed

lemma sync_stage:
  assumes "calm a" "streams ks a" "sseControllerEvents a = []" "\<not> DebugSignalNewTurnViaPrompt (userConfig a)"
    and "DecidingPlayer req \<in> set ks" "distinct qs" "set qs = set ks - {DecidingPlayer req}" "qs \<noteq> []"
    and "EvalPlayerDecisionsNoTransferChan srt (DecidingPlayer req) (Decisions req) (table a) = Some (None, t)"
    and "TableState t \<noteq> HaveWinner"
  obtains a3 a5 where "dispatchDecision srt (\<lambda>_. True) ks [] req a = Some a3"
    "runNewTurn (finishSync (fold (deliverSyncAck (DecisionEventCounter req)) qs a3)) = Some a5"
    "calm a5" "streams ks a5" "table a5 = t" "sseControllerEvents a5 = [sseCommandSendChosenPlayerEventToAll]"
    "userConfig a5 = userConfig a" "sseWriterForPlayer a5 = sseWriterForPlayer a"
    "decisionEventsCompleted a5 = decisionEventsCompleted a + 1" "state a5 = PlayerChosenForTurn"
proof -
  let ?n = "DecisionEventCounter req" and ?p = "DecidingPlayer req"
  have c: "acksInv (expectedAcksList a)" "freshChans a" "\<not> stuck (expectedAcksList a)" "acksLoopRuns a" "callbacksDue a = []"
    "unregistered ?n (set ks) a" using assms(1) by (simp_all add: calm_def unregistered_def)
  have ks: "distinct ks" using assms(2) by (simp add: streams_def range_order_def)
  obtain g a3 where a3: "dispatchDecision srt (\<lambda>_. True) ks [] req a = Some a3" "awaiting g ?n (set qs) a3"
    "state a3 = SyncingPlayerDecision" "table a3 = t" "syncsDone a3 = syncsDone a" "turnsDue a3 = turnsDue a"
    "sseControllerEvents a3 = []" "decisionEventsCompleted a3 = decisionEventsCompleted a" "userConfig a3 = userConfig a"
    using dispatchDecision_awaits [OF c(1-5) ks assms(5) _ assms(9) c(6), of "\<lambda>_. True"] assms(3,7) by auto
  note net = dispatchDecision_net [OF assms(1,9) a3(1)]
  define a4 where "a4 = fold (deliverSyncAck ?n) qs a3"
  have d: "awaiting g ?n {} a4" "table a4 = t" "decisionEventsCompleted a4 = decisionEventsCompleted a"
    "sseControllerEvents a4 = []" "userConfig a4 = userConfig a"
    using deliver_all [of g ?n qs "[]" a3] a3 assms(6) by (simp_all add: Let_def a4_def)
  have m: "sameNet a3 a4" "acksRefine a3 a4" "mset (map (\<lambda>q. syncAck q ?n) qs) + pendingFors a4 = pendingFors a3"
    using deliver_all_net [OF a3(2) assms(6)] by (simp_all add: a4_def)
  have "set qs = set (filter (\<lambda>q. q \<noteq> ?p) ks)" using assms(7) by auto
  then have "mset qs = mset (filter (\<lambda>q. q \<noteq> ?p) ks)"
    using assms(6) ks by (intro set_eq_iff_mset_eq_distinct [THEN iffD1]) simp_all
  then have "mset (map (\<lambda>q. syncAck q ?n) qs) = pendingFors a3" unfolding net(6) by (metis mset_map)
  with m(3) have "pendingAcks (expectedAcksList a4) = []" by simp
  moreover have "freshChans a4" using m(2) net(5) by (simp add: acksRefine_def)
  ultimately have c4: "calm a4" using d(1) m(1) net(3,4) by (simp add: calm_def awaiting_def sameNet_def)
  let ?a5 = "(setState PlayerChosenForTurn ((finishSync a4)\<lparr>turnsDue := turnsDue a4\<rparr>))\<lparr>sseControllerEvents := [sseCommandSendChosenPlayerEventToAll]\<rparr>"
  have "runNewTurn (finishSync a4) = Some ?a5"
    using d assms(4,10) by (simp add: runNewTurn_def finishSync_def Let_def)
  moreover have "sseWriterForPlayer ?a5 = sseWriterForPlayer a" using m(1) net(2) by (simp add: sameNet_def finishSync_def Let_def)
  moreover have "calm ?a5" using c4 by (simp add: calm_def finishSync_def Let_def freshChans_def)
  moreover have "streams ks ?a5" using assms(2) calculation(2) unfolding streams_def by simp
  ultimately show ?thesis using a3(1) d
    by (intro that [of a3 ?a5]) (simp_all add: a4_def [symmetric] finishSync_def Let_def)
qed

section \<open>The clients' side\<close>

text \<open>A client at the start of a turn, whose table agrees with \<open>t\<close>.\<close>

definition inStep :: "Table \<Rightarrow> string \<Rightarrow> PlayerClient \<Rightarrow> bool" where
  "inStep t p c \<longleftrightarrow> localName c = p \<and> clientState c = WaitingForAdminToChoosePlayer \<and> wf_game (ctable c) \<and>
     absTable (ctable c) = absTable t"

text \<open>The user types commands that finish the turn, and the deck can pay every challenge.\<close>

definition decides :: "Card swaps \<Rightarrow> ReplCommand list \<Rightarrow> PlayerClient \<Rightarrow> bool" where
  "decides srt cmds c \<longleftrightarrow> (\<forall>cmd \<in> set cmds. okCommand cmd) \<and>
     (case decisionLoop srt cmds [] [] c of
        Some (fin, _, _, xs, _) \<Rightarrow> fin \<and> (\<forall>x \<in> set xs. \<not> isBare (ResultError x)) | None \<Rightarrow> False)"

lemma deliverEvents_all:
  assumes "distinct ps" "\<forall>p \<in> set ps. handleEvents (srts p) (eventsFor a a' p) (cs p) \<noteq> None"
  shows "\<exists>cs'. deliverEvents srts a a' ps cs = Some cs' \<and>
    (\<forall>p \<in> set ps. handleEvents (srts p) (eventsFor a a' p) (cs p) = Some (cs' p)) \<and> (\<forall>p. p \<notin> set ps \<longrightarrow> cs' p = cs p)"
  using assms
proof (induction ps arbitrary: cs)
  case (Cons p ps)
  then obtain c where c: "handleEvents (srts p) (eventsFor a a' p) (cs p) = Some c" by auto
  have "\<forall>q \<in> set ps. handleEvents (srts q) (eventsFor a a' q) ((cs(p := c)) q) \<noteq> None" using Cons.prems by auto
  moreover have "distinct ps" using Cons.prems(1) by simp
  ultimately obtain cs' where "deliverEvents srts a a' ps (cs(p := c)) = Some cs'"
    "\<forall>q \<in> set ps. handleEvents (srts q) (eventsFor a a' q) ((cs(p := c)) q) = Some (cs' q)"
    "\<forall>q. q \<notin> set ps \<longrightarrow> cs' q = (cs(p := c)) q" using Cons.IH [of "cs(p := c)"] by blast
  with c Cons.prems(1) show ?case by (auto split: if_splits)
qed simp

lemma deliverAcks_all:
  "\<forall>q \<in> set qs. sentSyncAck (cs q) = Some \<lparr>AckerPlayer = q, DecisionCounter = n\<rparr> \<Longrightarrow>
     deliverAcks cs qs a = Some (fold (deliverSyncAck n) qs a)"
  by (induction qs arbitrary: a) simp_all

text \<open>Only the table and the pending events matter to the loop that asks the user.\<close>

lemma decisionLoop_cong:
  "decisionLoop srt cmds ds xs c = Some (fin, rest, ds', xs', c') \<Longrightarrow> ctable b = ctable c \<Longrightarrow> gameEvents b = gameEvents c \<Longrightarrow>
     \<exists>b'. decisionLoop srt cmds ds xs b = Some (fin, rest, ds', xs', b')"
proof (induction cmds arbitrary: b c ds xs)
  case (Cons cmd cmds)
  from Cons.prems(1) obtain d err c1 where e: "evalReplCommandOnTable srt cmd c = Some ((d, err), c1)"
    by (auto split: option.splits)
  then obtain b1 where b1: "evalReplCommandOnTable srt cmd b = Some ((d, err), b1)" "ctable b1 = ctable c1" "gameEvents b1 = gameEvents c1"
    using Cons.prems(2,3) by (auto simp: evalReplCommandOnTable_def split: option.splits sum.splits)
  show ?case
  proof (cases err)
    case None
    with e b1 Cons.prems(1) Cons.IH [of _ _ c1 b1] show ?thesis by (auto simp: Let_def split: if_splits)
  next
    case (Some er)
    let ?l = "\<lambda>c. case er of DecisionRejected (EvalDecisionError _ _) \<Rightarrow>
      logToWindow ''player_client.go'' 457
        (''invalid decision, eligible decisions are: '' @ EligibleCommandsAtState (TableState (ctable c))) c | _ \<Rightarrow> c"
    have "ctable (?l b1) = ctable (?l c1)" "gameEvents (?l b1) = gameEvents (?l c1)"
      using b1(2,3) by (simp_all split: ClientError.split EvalError.split)
    with Some e b1(1) Cons.prems(1) show ?thesis by (auto simp: Let_def intro: Cons.IH)
  qed
qed simp

text \<open>The chosen player's client.\<close>

lemma post_stage:
  assumes "inStep t p c" "p \<in> set (PlayerNames t)" "decides srt cmds c0" "ctable c0 = ctable c" "gameEvents c0 = gameEvents c"
  obtains ds c' url where "postUserDecisions srt cmds n c = Some (True, c')"
    "sentRequests c' = sentRequests c @ [(url, PostDecisions \<lparr>Decisions = ds, DecidingPlayer = p, DecisionEventCounter = n\<rparr>)]"
    "\<forall>d \<in> set ds. okDecision d" "tables.rules p ds (absTable t) = (None, absTable (ctable c'))"
    "localName c' = p" "clientState c' = WaitingForAdminToChoosePlayer" "wf_game (ctable c')" "asking c' = asking c"
    "\<not> NeedMoreUserDecisionToFinishTurn (ctable c')"
proof -
  let ?ask = "(if TableState (ctable c) = AwaitingWildDraw4ChallengeDecision
    then SetChallengeablePlayer (PlayerOfLastTurn (ctable c)) \<lparr>challengeablePlayer = []\<rparr> else \<lparr>challengeablePlayer = []\<rparr>)"
  define b where "b = (logToWindow ''player_client.go'' 426 ''Asking for user decision'' c)\<lparr>askCommands := askCommands c @ [?ask]\<rparr>"
  have b: "ctable b = ctable c0" "gameEvents b = gameEvents c0" "clientState b = clientState c" "sentRequests b = sentRequests c" "asking b = asking c"
    using assms(4,5) by (simp_all add: b_def) (simp add: logToWindow_def)
  have ac: "askCommands (logToWindow f l m c) = askCommands c" for f l m by (simp add: logToWindow_def)
  from assms(3) obtain rest ds xs c1 where l: "decisionLoop srt cmds [] [] c0 = Some (True, rest, ds, xs, c1)"
    "\<forall>x \<in> set xs. \<not> isBare (ResultError x)" "\<forall>cmd \<in> set cmds. okCommand cmd" by (auto simp: decides_def split: option.splits)
  have i: "localName b = p" "wf_game (ctable b)" "absTable (ctable b) = absTable t"
    using assms(1,4) b(1) by (simp_all add: inStep_def)
  moreover have "p \<in> set (PlayerNames (ctable b))" using assms(2) i(3) absTable_sel(4) by metis
  moreover obtain b' where b': "decisionLoop srt cmds [] [] b = Some (True, rest, ds, xs, b')" using decisionLoop_cong [OF l(1) b(1,2)] by blast
  ultimately have f: "followsRules b ds xs b'" "\<not> NeedMoreUserDecisionToFinishTurn (ctable b')"
    using decisionLoop_rules [OF _ _ l(3), of b srt "[]" "[]"] by auto
  let ?r = "\<lparr>Decisions = ds, DecidingPlayer = p, DecisionEventCounter = n\<rparr>"
  let ?c' = "sendRequest ''POST'' (adminURL ''player_decisions'' b') (PostDecisions ?r) b'"
  have s: "stepOk (ctable b) (ctable b')" "tables.rules p ds (absTable t) = (None, absTable (ctable b'))" "\<forall>d \<in> set ds. okDecision d"
    "sameClient b b'" using f(1) l(2) i by (auto simp: followsRules_def)
  have n: "localName b' = p" "wf_game (ctable b')" using stepOkD [OF s(1)] i(1) by auto
  have "postUserDecisions srt cmds n c = Some (True, ?c')"
    using b' n(1)
    by (cases "TableState (ctable c) = AwaitingWildDraw4ChallengeDecision")
      (simp_all add: postUserDecisions_def Let_def ac b_def)
  moreover have "clientState b' = WaitingForAdminToChoosePlayer" "sentRequests b' = sentRequests c" "asking b' = asking c"
    using s(4) b(3-5) assms(1) by (simp_all add: sameClient_def inStep_def)
  ultimately show ?thesis using s n f(2) by (intro that [of ?c' "(''POST'', adminURL ''player_decisions'' b')" ds]) (simp_all add: sendRequest_def)
qed

lemma ask_stage:
  assumes "inStep t p c" "p \<in> set (PlayerNames t)" "decides srt cmds c0" "ctable c0 = ctable c" "gameEvents c0 = gameEvents c"
  obtains ds c' where "askAndRunUserDecisions srt cmds (HttpStatus 200) n c = Some (True, c')"
    "sentDecisions c' = Some \<lparr>Decisions = ds, DecidingPlayer = p, DecisionEventCounter = n\<rparr>"
    "\<forall>d \<in> set ds. okDecision d" "tables.rules p ds (absTable t) = (None, absTable (ctable c'))"
    "localName c' = p" "clientState c' = WaitingForAdminToChoosePlayer" "wf_game (ctable c')"
  by (rule post_stage [OF assms, of n])
    (use that in \<open>force simp: askAndRunUserDecisions_def decisionsAnswered_def sentDecisions_def\<close>)

text \<open>The other clients.\<close>

lemma chosen_event:
  assumes "inStep t q c"
  shows "\<exists>c'. handleEvents srt [ChosenPlayerEvent p n] c = Some c' \<and> ctable c' = ctable c \<and> gameEvents c' = gameEvents c \<and>
    (if q = p then inStep t q c' \<and> last (asking c') = n else clientState c' = WaitingForDecisionSync)"
  using assms by (auto simp: inStep_def logToWindow_def)

lemma run_stepOk:
  "wf_game t \<Longrightarrow> p \<in> set (PlayerNames t) \<Longrightarrow> \<forall>d \<in> set ds. okDecision d \<Longrightarrow>
     \<exists>e ch' t'. EvalPlayerDecisions srt p ds ch t = Some (e, ch', t') \<and> stepOk t t' \<and> (e, absTable t') = tables.rules p ds (absTable t)"
proof (induction ds arbitrary: ch t)
  case (Cons d ds)
  then obtain d' e ch1 t1 where t1: "EvalPlayerDecision srt p d ch t = Some ((d', e), ch1, t1)" "stepOk t t1"
    "(e, absTable t1) = ruleStep p d (absTable t)" using EvalPlayerDecision_step [of t p d srt ch] by auto
  show ?case
  proof (cases e)
    case None
    have "wf_game t1" "p \<in> set (PlayerNames t1)" using stepOkD [OF t1(2)] Cons.prems(2) by auto
    then obtain e' ch' t' where "EvalPlayerDecisions srt p ds ch1 t1 = Some (e', ch', t')" "stepOk t1 t'"
      "(e', absTable t') = tables.rules p ds (absTable t1)" using Cons.IH [of t1 ch1] Cons.prems(3) by auto
    with t1 None show ?thesis by (auto simp: t1(3) [symmetric] intro: stepOk_trans)
  qed (use t1 in \<open>auto simp: t1(3) [symmetric]\<close>)
qed simp

lemma sync_event:
  assumes "clientState c = WaitingForDecisionSync" "localName c = q" "q \<noteq> p" "wf_game (ctable c)" "absTable (ctable c) = absTable t"
    and "p \<in> set (PlayerNames t)" "\<forall>d \<in> set ds. okDecision d" "tables.rules p ds (absTable t) = (None, absTable t')"
  shows "\<exists>c'. handleEvents srt [PlayerDecisionsSyncEvent \<lparr>Decisions = ds, DecidingPlayer = p, DecisionEventCounter = n\<rparr>] c = Some c' \<and>
    inStep t' q c' \<and> sentSyncAck c' = Some \<lparr>AckerPlayer = q, DecisionCounter = n\<rparr>"
proof -
  have "p \<in> set (PlayerNames (ctable c))" using assms(5,6) absTable_sel(4) by metis
  then obtain ch t1 where t1: "EvalPlayerDecisions srt p ds (gameEvents c) (ctable c) = Some (None, ch, t1)" "wf_game t1"
      "absTable t1 = absTable t'" "LocalPlayerName t1 = q"
    using run_stepOk [OF assms(4) _ assms(7), of p srt "gameEvents c"] assms(2,5,8) stepOkD by fastforce
  then show ?thesis using assms(1-3)
    by (auto simp: inStep_def ackPlayerSyncToAdmin_def sendRequest_def sentSyncAck_def Let_def)
qed

section \<open>A whole turn\<close>

definition inSession :: "session \<Rightarrow> bool" where
  "inSession s \<longleftrightarrow> (case s of (a, cs) \<Rightarrow> calm a \<and> sseControllerEvents a = [sseCommandSendChosenPlayerEventToAll] \<and>
     \<not> DebugSignalNewTurnViaPrompt (userConfig a) \<and> wf_game (table a) \<and> TableState (table a) \<noteq> HaveWinner \<and>
     dom (sseWriterForPlayer a) = set (PlayerNames (table a)) \<and> inj_on (sseWriterForPlayer a) (set (PlayerNames (table a))) \<and>
     [] \<notin> set (PlayerNames (table a)) \<and> 2 \<le> length (PlayerNames (table a)) \<and>
     (\<forall>p \<in> set (PlayerNames (table a)). inStep (table a) p (cs p)))"

lemma ruleStep_no_winner:
  assumes "gPhase g \<noteq> HaveWinner"
  shows "gPhase (snd (ruleStep p d g)) \<noteq> HaveWinner"
  using assms by (simp add: ruleStep_def rulePlay_def drawFour_def layCard_def cardEffect_def requireCard_def requireNumber_def
    requireColor_def turnTo_def giveCards_def Let_def split: PlayerDecisionKind.split)

lemma rules_no_winner: "gPhase g \<noteq> HaveWinner \<Longrightarrow> tables.rules p ds g = (e, g') \<Longrightarrow> gPhase g' \<noteq> HaveWinner"
proof (induction ds arbitrary: g)
  case (Cons d ds)
  obtain e1 g1 where r: "ruleStep p d g = (e1, g1)" by fastforce
  with ruleStep_no_winner [OF Cons.prems(1), of p d] have "gPhase g1 \<noteq> HaveWinner" by simp
  with Cons r show ?case by (cases e1) auto
qed simp

lemma inSessionD:
  assumes "inSession (a, cs)" "range_order ks (sseWriterForPlayer a)"
  shows "calm a" "\<not> DebugSignalNewTurnViaPrompt (userConfig a)" "wf_game (table a)" "TableState (table a) \<noteq> HaveWinner"
    "distinct ks" "set ks = set (PlayerNames (table a))" "[] \<notin> set ks" "streams ks a" "2 \<le> card (set ks)"
    "q \<in> set ks \<Longrightarrow> inStep (table a) q (cs q)"
proof -
  show w: "wf_game (table a)" and k: "distinct ks" "set ks = set (PlayerNames (table a))" "[] \<notin> set ks"
    using assms by (auto simp: range_order_def inSession_def)
  have "card (set ks) = length (PlayerNames (table a))"
    using wf_tableD(1) [OF wf_gameD(1) [OF w]] unfolding k(2) by (simp add: distinct_card wf_seating_def)
  then show "2 \<le> card (set ks)" using assms(1) by (simp add: inSession_def)
  show "calm a" "\<not> DebugSignalNewTurnViaPrompt (userConfig a)" "TableState (table a) \<noteq> HaveWinner" "streams ks a"
    "q \<in> set ks \<Longrightarrow> inStep (table a) q (cs q)" using assms k by (simp_all add: inSession_def streams_def)
qed

text \<open>Every client gets the announcement.\<close>

lemma announce_stage:
  fixes a :: Admin and ks :: "string list"
  defines "p \<equiv> PlayerOfNextTurn (table a)" and "n \<equiv> decisionEventsCompleted a"
    and "a1 \<equiv> dispatchChosenPlayer (\<lambda>_. True) ks (a\<lparr>sseControllerEvents := []\<rparr>)"
  assumes "inSession (a, cs)" "range_order ks (sseWriterForPlayer a)"
  shows "\<exists>cs1. deliverEvents srts a a1 ks cs = Some cs1 \<and>
    (\<forall>q \<in> set ks. ctable (cs1 q) = ctable (cs q) \<and> gameEvents (cs1 q) = gameEvents (cs q) \<and>
      (if q = p then inStep (table a) q (cs1 q) \<and> last (asking (cs1 q)) = n else clientState (cs1 q) = WaitingForDecisionSync))"
proof -
  note i = inSessionD [OF assms(4,5)]
  have w1: "sseWriterForPlayer a1 = sseWriterForPlayer a" "written a1 = written a @
      map (\<lambda>q. (map_get 0 (sseWriterForPlayer a1) q, ChosenPlayerEvent p n)) (filter (\<lambda>q. q \<noteq> []) ks)"
    using chosen_stage(1,2) [OF i(1) _ _ i(8), of "\<lparr>Decisions = [], DecidingPlayer = p, DecisionEventCounter = n\<rparr>"]
    by (simp_all add: p_def n_def a1_def)
  have ev: "eventsFor a a1 q = [ChosenPlayerEvent p n]" if "q \<in> set ks" for q
    using eventsFor_send [of ks a1 q a "ChosenPlayerEvent p n" "[]"] i(7,8) that w1 by (auto simp: streams_def)
  have "\<forall>q \<in> set ks. handleEvents (srts q) (eventsFor a a1 q) (cs q) \<noteq> None"
    using chosen_event [OF i(10)] ev by (metis option.distinct(1))
  then obtain cs1 where cs1: "deliverEvents srts a a1 ks cs = Some cs1"
    "\<And>q. q \<in> set ks \<Longrightarrow> handleEvents (srts q) [ChosenPlayerEvent p n] (cs q) = Some (cs1 q)"
    using deliverEvents_all [OF i(5), of srts a a1 cs] ev by auto
  have "ctable (cs1 q) = ctable (cs q) \<and> gameEvents (cs1 q) = gameEvents (cs q) \<and>
      (if q = p then inStep (table a) q (cs1 q) \<and> last (asking (cs1 q)) = n else clientState (cs1 q) = WaitingForDecisionSync)"
    if "q \<in> set ks" for q using chosen_event [OF i(10), of q "srts q" p n] cs1(2) that by auto
  with cs1(1) show ?thesis by blast
qed

text \<open>Every other client gets the decisions and acknowledges them.\<close>

lemma forward_stage:
  assumes "streams ks a" "calm a" "dispatchDecision srt (\<lambda>_. True) ks [] req a = Some a3"
    and "EvalPlayerDecisionsNoTransferChan srt p ds (table a) = Some (None, t)" "p \<in> set (PlayerNames (table a))"
    and "req = \<lparr>Decisions = ds, DecidingPlayer = p, DecisionEventCounter = n\<rparr>" "\<forall>d \<in> set ds. okDecision d"
    and "tables.rules p ds (absTable (table a)) = (None, absTable t)" "inStep t p (cs p)"
    and "\<And>q. q \<in> set ks \<Longrightarrow> q \<noteq> p \<Longrightarrow> clientState (cs q) = WaitingForDecisionSync \<and> localName (cs q) = q \<and>
      wf_game (ctable (cs q)) \<and> absTable (ctable (cs q)) = absTable (table a)"
  obtains cs2 where "deliverEvents srts a a3 ks cs = Some cs2"
    "\<And>q. q \<in> set ks \<Longrightarrow> inStep t q (cs2 q) \<and> (q \<noteq> p \<longrightarrow> sentSyncAck (cs2 q) = Some \<lparr>AckerPlayer = q, DecisionCounter = n\<rparr>)"
proof -
  have ev: "eventsFor a a3 q = (if q = p then [] else [PlayerDecisionsSyncEvent req])" if "q \<in> set ks" for q
    using eventsFor_send [of ks a3 q a "PlayerDecisionsSyncEvent req" p] dispatchDecision_net(1,2) [OF assms(2) _ assms(3), of t]
      assms(1,4,6) that by (simp add: streams_def)
  have sy: "\<exists>c'. handleEvents (srts q) [PlayerDecisionsSyncEvent req] (cs q) = Some c' \<and>
      inStep t q c' \<and> sentSyncAck c' = Some \<lparr>AckerPlayer = q, DecisionCounter = n\<rparr>" if "q \<in> set ks" "q \<noteq> p" for q
    unfolding assms(6) using assms(5,7,8,10) that by (intro sync_event [where t = "table a"]) auto
  have "\<forall>q \<in> set ks. handleEvents (srts q) (eventsFor a a3 q) (cs q) \<noteq> None" using sy ev by fastforce
  moreover have "distinct ks" using assms(1) by (simp add: streams_def range_order_def)
  ultimately obtain cs2 where cs2: "deliverEvents srts a a3 ks cs = Some cs2"
    "\<And>q. q \<in> set ks \<Longrightarrow> handleEvents (srts q) (eventsFor a a3 q) (cs q) = Some (cs2 q)"
    using deliverEvents_all [of ks srts a a3 cs] by auto
  show ?thesis
  proof (rule that [OF cs2(1)])
    fix q assume q: "q \<in> set ks"
    with cs2(2) [OF q] ev [OF q] sy [OF q] assms(9) show "inStep t q (cs2 q) \<and>
        (q \<noteq> p \<longrightarrow> sentSyncAck (cs2 q) = Some \<lparr>AckerPlayer = q, DecisionCounter = n\<rparr>)"
      by (cases "q = p") auto
  qed
qed

lemma turn_ok:
  assumes "inSession (a, cs)" "range_order ks (sseWriterForPlayer a)" "p = PlayerOfNextTurn (table a)"
    and "decides (srts p) cmds (cs p)" "distinct qs" "set qs = set ks - {p}"
  obtains a' cs' where "playTurn srts srt ks cmds qs (a, cs) = Some (a', cs')" "inSession (a', cs')"
    "stepOk (table a) (table a')" "decisionEventsCompleted a' = decisionEventsCompleted a + 1"
proof -
  let ?n = "decisionEventsCompleted a"
  note i = inSessionD [OF assms(1,2)]
  have p: "p \<in> set ks" "p \<in> set (PlayerNames (table a))" using wf_gameD(3) [OF i(3)] i(6) assms(3) by auto
  define a1 where "a1 = dispatchChosenPlayer (\<lambda>_. True) ks (a\<lparr>sseControllerEvents := []\<rparr>)"
  obtain cs1 where cs1: "deliverEvents srts a a1 ks cs = Some cs1"
    "\<And>q. q \<in> set ks \<Longrightarrow> ctable (cs1 q) = ctable (cs q) \<and> gameEvents (cs1 q) = gameEvents (cs q) \<and>
      (if q = p then inStep (table a) q (cs1 q) \<and> last (asking (cs1 q)) = ?n else clientState (cs1 q) = WaitingForDecisionSync)"
    using announce_stage [where srts = srts, OF assms(1,2), folded a1_def assms(3)] by blast
  obtain ds c where c: "askAndRunUserDecisions (srts p) cmds (HttpStatus 200) ?n (cs1 p) = Some (True, c)"
    "sentDecisions c = Some \<lparr>Decisions = ds, DecidingPlayer = p, DecisionEventCounter = ?n\<rparr>" "\<forall>d \<in> set ds. okDecision d"
    "tables.rules p ds (absTable (table a)) = (None, absTable (ctable c))"
    "localName c = p" "clientState c = WaitingForAdminToChoosePlayer" "wf_game (ctable c)"
    by (rule ask_stage [of "table a" p "cs1 p" "srts p" cmds "cs p"]) (use cs1(2) [OF p(1)] p(2) assms(4) in auto)
  define req where "req = \<lparr>Decisions = ds, DecidingPlayer = p, DecisionEventCounter = ?n\<rparr>"
  define a2 where "a2 = (snd (handlePlayerDecisionsEvent (Inr req) a1))\<lparr>sseControllerEvents := []\<rparr>"
  have r: "DecidingPlayer req = PlayerOfNextTurn (table a)" "DecisionEventCounter req = ?n" by (simp_all add: req_def assms(3))
  have s2: "calm a2" "table a2 = table a" "decisionEventsCompleted a2 = ?n" "userConfig a2 = userConfig a"
    "sseWriterForPlayer a2 = sseWriterForPlayer a" "sseControllerEvents a2 = []" "streams ks a2"
    using chosen_stage(3,5-8) [OF i(1) r i(8), folded a1_def] i(8) by (simp_all add: streams_def a2_def)
  obtain t where t: "EvalPlayerDecisionsNoTransferChan srt p ds (table a) = Some (None, t)" "stepOk (table a) t"
      "absTable t = absTable (ctable c)"
    using run_stepOk [OF i(3) p(2) c(3), of srt "[]"] c(4) by (auto simp: EvalPlayerDecisionsNoTransferChan_def)
  have hw: "TableState t \<noteq> HaveWinner" using rules_no_winner [OF _ c(4)] i(4) t(3) absTable_sel(8) by metis
  have "\<not> set ks \<subseteq> {p}" using i(9) card_mono [of "{p}" "set ks"] by force
  then have qs: "qs \<noteq> []" using assms(6) by fastforce
  obtain a3 a5 where a3: "dispatchDecision srt (\<lambda>_. True) ks [] req a2 = Some a3"
    "runNewTurn (finishSync (fold (deliverSyncAck ?n) qs a3)) = Some a5"
    "calm a5" "table a5 = t" "sseControllerEvents a5 = [sseCommandSendChosenPlayerEventToAll]"
    "userConfig a5 = userConfig a" "sseWriterForPlayer a5 = sseWriterForPlayer a" "decisionEventsCompleted a5 = ?n + 1"
    by (rule sync_stage [of a2 ks req qs srt t]) (use s2 i(2) p(1) assms(5,6) qs t(1) hw in \<open>auto simp: req_def\<close>)
  obtain cs2 where cs2: "deliverEvents srts a2 a3 ks (cs1(p := c)) = Some cs2"
    "\<And>q. q \<in> set ks \<Longrightarrow> inStep t q (cs2 q) \<and> (q \<noteq> p \<longrightarrow> sentSyncAck (cs2 q) = Some \<lparr>AckerPlayer = q, DecisionCounter = ?n\<rparr>)"
    by (rule forward_stage [OF s2(7,1) a3(1) _ _ req_def c(3), of t "cs1(p := c)"])
      (use s2(2) t c(4-7) p(2) cs1(2) i(10) in \<open>auto simp: inStep_def\<close>)
  have "deliverAcks cs2 qs a3 = Some (fold (deliverSyncAck ?n) qs a3)" using cs2(2) assms(6) by (intro deliverAcks_all) auto
  then have "playTurn srts srt ks cmds qs (a, cs) = Some (a5, cs2)"
    using cs1(1) c(1,2) cs1(2) [OF p(1)] a3(1,2) cs2(1)
    by (simp add: playTurn_def assms(3) [symmetric] a1_def [symmetric] a2_def req_def Let_def)
  moreover have "inSession (a5, cs2)" using a3 cs2(2) hw i(2,6) assms(1) stepOkD [OF t(2)] by (simp add: inSession_def)
  ultimately show ?thesis using that t(2) a3(4,8) by blast
qed

section \<open>Sessions\<close>

text \<open>The admin has dealt, and everybody waits for the cards.\<close>

definition serveAll :: "(string \<Rightarrow> Card swaps) \<Rightarrow> string list \<Rightarrow> session \<Rightarrow> session option" where
  "serveAll srts ks s = do {
     let (a, cs) = s;
     let a1 = dispatchServedCards (\<lambda>_. True) ks (a\<lparr>sseControllerEvents := []\<rparr>);
     cs \<leftarrow> deliverEvents srts a a1 ks cs;
     Some (a1, cs)
   }"

definition readySession :: "session \<Rightarrow> bool" where
  "readySession s \<longleftrightarrow> (case s of (a, cs) \<Rightarrow> calm a \<and> sseControllerEvents a = [sseCommandSendServedCardsEventToAll (table a)] \<and>
     \<not> DebugSignalNewTurnViaPrompt (userConfig a) \<and> wf_game (table a) \<and> TableState (table a) = StartOfTurn \<and>
     WinnerPlayerName (table a) = [] \<and> RequiredNumberBeforeWild4 (table a) = 0 \<and>
     dom (sseWriterForPlayer a) = set (PlayerNames (table a)) \<and> inj_on (sseWriterForPlayer a) (set (PlayerNames (table a))) \<and>
     [] \<notin> set (PlayerNames (table a)) \<and> 2 \<le> length (PlayerNames (table a)) \<and>
     (\<forall>p \<in> set (PlayerNames (table a)). clientState (cs p) = WaitingForAdminToServeCards \<and> (\<exists>srt. ctable (cs p) = NewTable srt p)))"

inductive sessionTurn :: "session \<Rightarrow> session \<Rightarrow> bool" where
  turn: "range_order ks (sseWriterForPlayer a) \<Longrightarrow> p = PlayerOfNextTurn (table a) \<Longrightarrow> decides (srts p) cmds (cs p) \<Longrightarrow>
    distinct qs \<Longrightarrow> set qs = set ks - {p} \<Longrightarrow> playTurn srts srt ks cmds qs (a, cs) = Some s' \<Longrightarrow> sessionTurn (a, cs) s'"

inductive_cases sessionTurnE: "sessionTurn (a, cs) s'"

lemma sessionTurn_ok:
  assumes "sessionTurn (a, cs) s'" "inSession (a, cs)"
  shows "inSession s' \<and> stepOk (table a) (table (fst s'))"
proof -
  from assms(1) obtain ks srts cmds qs srt where t: "range_order ks (sseWriterForPlayer a)"
    "decides (srts (PlayerOfNextTurn (table a))) cmds (cs (PlayerOfNextTurn (table a)))" "distinct qs"
    "set qs = set ks - {PlayerOfNextTurn (table a)}" "playTurn srts srt ks cmds qs (a, cs) = Some s'" by (rule sessionTurnE) metis
  from turn_ok [where srts = srts and srt = srt, OF assms(2) t(1) refl t(2-4)] obtain a' cs' where "playTurn srts srt ks cmds qs (a, cs) = Some (a', cs')"
    "inSession (a', cs')" "stepOk (table a) (table a')" by metis
  with t(5) show ?thesis by auto
qed

lemma SetTable_inStep:
  assumes "wf_game t" "TableState t = TableState t0" "WinnerPlayerName t = WinnerPlayerName t0"
    and "RequiredNumberBeforeWild4 t = RequiredNumberBeforeWild4 t0"
  shows "wf_game (SetTable t t0)" "absTable (SetTable t t0) = absTable t"
  using assms by (simp_all add: SetTable_def absTable_def wf_game_def wf_table_def wf_seating_def tableCards_def)

lemma NewTable_sel [simp]:
  "TableState (NewTable srt p) = StartOfTurn" "WinnerPlayerName (NewTable srt p) = []" "LocalPlayerName (NewTable srt p) = p"
  "RequiredNumberBeforeWild4 (NewTable srt p) = 0"
  by (simp_all add: NewTable_def AddPlayer_def createNewTable_def Let_def)

lemma served_event:
  assumes "wf_game t" "TableState t = StartOfTurn" "WinnerPlayerName t = []" "RequiredNumberBeforeWild4 t = 0"
    and "clientState c = WaitingForAdminToServeCards" "ctable c = NewTable s p"
  shows "\<exists>c'. handleEvents srt [ServedCardsEvent t] c = Some c' \<and> inStep t p c'"
proof -
  let ?t = "SetTable (t\<lparr>LocalPlayerName := p\<rparr>) (NewTable s p)"
  have "wf_game ?t" "absTable ?t = absTable t" using SetTable_inStep [of "t\<lparr>LocalPlayerName := p\<rparr>" "NewTable s p"] assms(1-4) by simp_all
  moreover have "LocalPlayerName ?t = p" by (simp add: SetTable_def)
  ultimately show ?thesis using assms(5,6) by (simp add: inStep_def sendCommandToUI_def Let_def)
qed

lemma serve_ok:
  assumes "readySession (a, cs)" "range_order ks (sseWriterForPlayer a)"
  obtains a1 cs1 where "serveAll srts ks (a, cs) = Some (a1, cs1)" "inSession (a1, cs1)" "table a1 = table a"
proof -
  have i: "wf_game (table a)" "TableState (table a) = StartOfTurn" "WinnerPlayerName (table a) = []"
    "RequiredNumberBeforeWild4 (table a) = 0" "calm a" "\<not> DebugSignalNewTurnViaPrompt (userConfig a)"
    using assms(1) by (simp_all add: readySession_def)
  have ks: "distinct ks" "set ks = set (PlayerNames (table a))" "[] \<notin> set ks" "streams ks a"
    using assms by (auto simp: range_order_def readySession_def streams_def)
  let ?a1 = "dispatchServedCards (\<lambda>_. True) ks (a\<lparr>sseControllerEvents := []\<rparr>)"
  have a1: "sseWriterForPlayer ?a1 = sseWriterForPlayer a" "table ?a1 = table a" "userConfig ?a1 = userConfig a"
    "sseControllerEvents ?a1 = [sseCommandSendChosenPlayerEventToAll]" "calm ?a1"
    "written ?a1 = written a @ map (\<lambda>q. (map_get 0 (sseWriterForPlayer a) q, ServedCardsEvent (table a))) (filter (\<lambda>q. q \<noteq> []) ks)"
    using i(5) by (simp_all add: dispatchServedCards_def send_all calm_def freshChans_def Let_def)
  have ev: "eventsFor a ?a1 q = [ServedCardsEvent (table a)]" if "q \<in> set ks" for q
    using eventsFor_send [of ks ?a1 q a "ServedCardsEvent (table a)" "[]"] ks(3,4) that a1(1,6) by (auto simp: streams_def)
  have e: "\<exists>c'. handleEvents (srts q) (eventsFor a ?a1 q) (cs q) = Some c' \<and> inStep (table a) q c'" if "q \<in> set ks" for q
  proof -
    have "q \<in> set (PlayerNames (table a))" using that ks(2) by simp
    then obtain s where "clientState (cs q) = WaitingForAdminToServeCards" "ctable (cs q) = NewTable s q"
      using assms(1) by (auto simp: readySession_def)
    from served_event [OF i(1-4) this] show ?thesis unfolding ev [OF that] .
  qed
  then have "\<forall>q \<in> set ks. handleEvents (srts q) (eventsFor a ?a1 q) (cs q) \<noteq> None" by fastforce
  then obtain cs1 where cs1: "deliverEvents srts a ?a1 ks cs = Some cs1"
    "\<And>q. q \<in> set ks \<Longrightarrow> handleEvents (srts q) (eventsFor a ?a1 q) (cs q) = Some (cs1 q)"
    using deliverEvents_all [OF ks(1), of srts a ?a1 cs] by blast
  have "inStep (table a) q (cs1 q)" if "q \<in> set ks" for q using e [OF that] cs1(2) [OF that] by auto
  then have "inSession (?a1, cs1)" using assms(1) a1 i ks(2) by (simp add: inSession_def readySession_def)
  then show ?thesis using cs1(1) a1(2) by (intro that [of ?a1 cs1]) (simp_all add: serveAll_def Let_def)
qed

interpretation sessions: invariant_system "\<lambda>s. \<exists>r ks srts. readySession r \<and> range_order ks (sseWriterForPlayer (fst r)) \<and> serveAll srts ks r = Some s"
  sessionTurn inSession
proof unfold_locales
  fix s assume "\<exists>r ks srts. readySession r \<and> range_order ks (sseWriterForPlayer (fst r)) \<and> serveAll srts ks r = Some s"
  then obtain a cs ks srts where "readySession (a, cs)" "range_order ks (sseWriterForPlayer a)" "serveAll srts ks (a, cs) = Some s" by auto
  then show "inSession s" using serve_ok [of a cs ks srts] by (metis option.inject)
next
  fix s s' assume "inSession s" "sessionTurn s s'"
  then show "inSession s'" using sessionTurn_ok [of "fst s" "snd s" s'] by simp
qed

section \<open>A concrete session\<close>

definition demoClientOf :: "string \<Rightarrow> PlayerClient" where
  "demoClientOf p = NewPlayerClient (NewTable (\<lambda>_. []) p) \<lparr>IP = ''h'', Port = 1, Protocol = ''http''\<rparr> ''h''"

lemma demo_streams:
  "range_order [''al'', ''bob'', ''cy''] (sseWriterForPlayer demoAdmin)"
  "dom (sseWriterForPlayer demoAdmin) = set (PlayerNames demoTable)"
  "inj_on (sseWriterForPlayer demoAdmin) (set (PlayerNames demoTable))"
  by (auto simp: range_order_def inj_on_def)

lemma calm_demoAdmin: "calm (demoAdmin\<lparr>sseControllerEvents := es\<rparr>)"
  using acksInv_new by (simp add: calm_def freshChans_def usedChans_def newExpectedAcksState_def)

section \<open>Properties\<close>

text \<open>Everybody plays the same game: when the admin has dealt and at least two clients wait for the
  cards, every client receives them, and after any number of turns, whatever the players typed, in
  whatever order messages were sent and acks arrived and however hands are sorted, all clients' tables and
  the admin's agree up to the order of hands, are tables of a game, and hold the cards that were dealt.\<close>

theorem session_tables_agree:
  assumes "readySession (a, cs)" "range_order ks (sseWriterForPlayer a)"
  shows "\<exists>s0. serveAll srts ks (a, cs) = Some s0 \<and> (\<forall>a' cs' p. sessionTurn\<^sup>*\<^sup>* s0 (a', cs') \<longrightarrow> p \<in> set (PlayerNames (table a)) \<longrightarrow>
    absTable (ctable (cs' p)) = absTable (table a') \<and> wf_game (ctable (cs' p)) \<and> wf_game (table a') \<and>
    tableCards (table a') = tableCards (table a))"
proof -
  obtain a1 cs1 where s: "serveAll srts ks (a, cs) = Some (a1, cs1)" "inSession (a1, cs1)" "table a1 = table a"
    by (rule serve_ok [where srts = srts, OF assms])
  have "absTable (ctable (cs' p)) = absTable (table a') \<and> wf_game (ctable (cs' p)) \<and> wf_game (table a') \<and>
      tableCards (table a') = tableCards (table a)"
    if r: "sessionTurn\<^sup>*\<^sup>* (a1, cs1) (a', cs')" "p \<in> set (PlayerNames (table a))" for a' cs' p
  proof -
    have i: "inSession (a', cs')" using sessions.steps_inv [OF r(1) s(2)] .
    have "stepOk (table a) (table (fst (a', cs')))"
      by (rule sessions.steps_stable [OF r(1) s(2)])
        (use s(2,3) in \<open>auto simp: inSession_def dest!: sessionTurn_ok intro: stepOk_trans\<close>)
    then have t: "PlayerNames (table a') = PlayerNames (table a)" "tableCards (table a') = tableCards (table a)"
      by (simp_all add: stepOk_def)
    with i r(2) show ?thesis by (auto simp: inSession_def inStep_def)
  qed
  with s(1) show ?thesis by blast
qed

theorem session_tables_agree_witness:
  "\<exists>a' cs'. serveAll (\<lambda>_ _. []) [''al'', ''bob'', ''cy'']
      (demoAdmin\<lparr>sseControllerEvents := [sseCommandSendServedCardsEventToAll demoTable]\<rparr>,
       \<lambda>p. (demoClientOf p)\<lparr>clientState := WaitingForAdminToServeCards\<rparr>) = Some (a', cs') \<and>
     absTable (ctable (cs' ''bob'')) = absTable (table a') \<and> tableCards (table a') = tableCards demoTable"
proof -
  let ?a = "demoAdmin\<lparr>sseControllerEvents := [sseCommandSendServedCardsEventToAll demoTable]\<rparr>"
  let ?cs = "\<lambda>p. (demoClientOf p)\<lparr>clientState := WaitingForAdminToServeCards\<rparr>"
  have "WinnerPlayerName demoTable = []" "RequiredNumberBeforeWild4 demoTable = 0" by (simp_all add: demoTable_def createNewTable_def)
  then have "readySession (?a, ?cs)" using calm_demoAdmin demo_streams(2,3)
    by (auto simp: readySession_def demoClientOf_def NewPlayerClient_def demoConfig_def)
  from session_tables_agree [OF this, of "[''al'', ''bob'', ''cy'']" "\<lambda>_ _. []"] demo_streams(1) show ?thesis by fastforce
qed

text \<open>A turn always comes to its end: in a session whose players are in step, when the chosen player
  types commands that finish the turn, and all messages arrive, the admin accepts the decisions, all
  others evaluate and acknowledge them, and the session is in step again with the next turn announced.\<close>

theorem session_turn_progress:
  assumes "inSession (a, cs)" "range_order ks (sseWriterForPlayer a)" "p = PlayerOfNextTurn (table a)"
    and "decides (srts p) cmds (cs p)" "distinct qs" "set qs = set ks - {p}"
  shows "\<exists>a' cs'. playTurn srts srt ks cmds qs (a, cs) = Some (a', cs') \<and> inSession (a', cs') \<and>
    decisionEventsCompleted a' = decisionEventsCompleted a + 1"
  using turn_ok [where srts = srts and srt = srt, OF assms] by metis

theorem session_turn_progress_witness:
  "\<exists>a' cs'. playTurn (\<lambda>_ _. []) (insertionSwaps IsLessThan) [''cy'', ''al'', ''bob''] demoCommands [''bob'', ''cy'']
      (demoAdmin\<lparr>sseControllerEvents := [sseCommandSendChosenPlayerEventToAll]\<rparr>,
       \<lambda>p. (demoClientOf p)\<lparr>ctable := demoTable\<lparr>LocalPlayerName := p\<rparr>, clientState := WaitingForAdminToChoosePlayer\<rparr>) =
      Some (a', cs') \<and> inSession (a', cs')"
proof -
  let ?a = "demoAdmin\<lparr>sseControllerEvents := [sseCommandSendChosenPlayerEventToAll]\<rparr>"
  let ?cs = "\<lambda>p. (demoClientOf p)\<lparr>ctable := demoTable\<lparr>LocalPlayerName := p\<rparr>, clientState := WaitingForAdminToChoosePlayer\<rparr>"
  let ?ks = "[''cy'', ''al'', ''bob'']"
  have s: "inSession (?a, ?cs)" using calm_demoAdmin demo_streams(2,3) by (auto simp: inSession_def inStep_def demoConfig_def)
  obtain ds xs c' where l: "decisionLoop (\<lambda>_. []) demoCommands [] [] demoClient = Some (True, [], ds, xs, c')"
    "\<forall>x \<in> set xs. \<not> isBare (ResultError x)" using demoClient_loop by blast
  have "\<exists>b. decisionLoop (\<lambda>_. []) demoCommands [] [] (?cs ''al'') = Some (True, [], ds, xs, b)"
    by (rule decisionLoop_cong [OF l(1)]) (simp_all add: demoClient_def demoClientOf_def NewPlayerClient_def)
  then have d: "decides (\<lambda>_. []) demoCommands (?cs ''al'')" using l(2)
    by (auto simp: decides_def okCommand_def demoCommands_def NewReplCommand_def)
  have k: "range_order ?ks (sseWriterForPlayer ?a)" "''al'' = PlayerOfNextTurn (table ?a)" "distinct [''bob'', ''cy'']"
    "set [''bob'', ''cy''] = set ?ks - {''al''}" by (auto simp: range_order_def)
  from session_turn_progress [where srts = "\<lambda>_ _. []" and srt = "insertionSwaps IsLessThan", OF s k(1,2) d k(3,4)] show ?thesis by blast
qed

end
