(* ===== verification/Network.thy ===== *)
theory Network
  imports Session
begin

text \<open>
  The admin and its clients in every interleaving.  A network is the admin, the clients, how far each
  client has read its stream, the requests under way and the answers to them.  A step is one operation
  of one process: the admin's controller takes a command, a client handles the next event of its
  stream, a user finishes a turn, a request reaches the admin, an answer reaches its client, or a
  goroutine of the admin goes on.  Requests overtake each other; a stream is read in order.  A client
  that asks its user holds its mutex until the answer to its request, so it reads no event in between.
  Its interface hands on what the user types until it has shown a win.  Messages are not lost,
  registrations do not time out, no ack arrives while the controller is between sending a message and
  registering its ack, and a turn is finished only when the deck can pay its challenges.
\<close>

section \<open>Steps\<close>

record network =
  netAdmin :: Admin
  netClients :: "string \<Rightarrow> PlayerClient"
  netRead :: "string \<Rightarrow> nat"
  netTurns :: "string \<Rightarrow> nat"
  netBusy :: "string \<Rightarrow> bool"
  netRequests :: "Request list"
  netAnswers :: "string \<Rightarrow> HttpResult option"

text \<open>All events written to the stream of a player, and those it has not read.\<close>

definition streamOf :: "Admin \<Rightarrow> string \<Rightarrow> ServerEvent list" where
  "streamOf a p = map snd (filter (\<lambda>x. sseWriterForPlayer a p = Some (fst x)) (written a))"

definition unread :: "network \<Rightarrow> string \<Rightarrow> ServerEvent list" where
  "unread s p = drop (netRead s p) (streamOf (netAdmin s) p)"

definition newRequests :: "PlayerClient \<Rightarrow> PlayerClient \<Rightarrow> Request list" where
  "newRequests c c' = map snd (drop (length (sentRequests c)) (sentRequests c'))"

fun answerOf :: "Response \<Rightarrow> HttpResult option" where
  "answerOf (Responded status _) = Some (HttpStatus status)"
| "answerOf (Streaming _) = Some (HttpStatus 200)"
| "answerOf Panicked = Some (HttpError ''EOF'')"
| "answerOf Blocked = None"

text \<open>The interface hands a command on as long as it has shown no win: it ignores a request after one, and
  takes no decision during a turn from a win on.\<close>

fun isWin :: "GameEvent \<Rightarrow> bool" where
  "isWin (PlayerHasWonEvent _ _) = True"
| "isWin _ = False"

definition winShown :: "PlayerClient \<Rightarrow> bool" where
  "winShown c \<longleftrightarrow> list_ex isWin (gameEvents c)"

definition uiTakes :: "Card swaps \<Rightarrow> ReplCommand list \<Rightarrow> PlayerClient \<Rightarrow> bool" where
  "uiTakes srt cmds c \<longleftrightarrow> (\<forall>k < length cmds. case decisionLoop srt (take k cmds) [] [] c of
     Some (False, _, _, _, c') \<Rightarrow> \<not> winShown c' | _ \<Rightarrow> True)"

inductive netStep :: "network \<Rightarrow> network \<Rightarrow> bool" where
  control: "\<not> mutexHeld (netAdmin s) \<Longrightarrow> joinTasks (netAdmin s) = [] \<Longrightarrow> sseControllerEvents (netAdmin s) = us @ e # vs \<Longrightarrow>
    range_order ks (sseWriterForPlayer (netAdmin s)) \<Longrightarrow>
    dispatchEventWithSSE srt (\<lambda>_. True) ks [] e ((netAdmin s)\<lparr>sseControllerEvents := us @ vs\<rparr>) = Some a \<Longrightarrow>
    netStep s (s\<lparr>netAdmin := a\<rparr>)"
| receive: "\<not> netBusy s p \<Longrightarrow> unread s p = ev # evs \<Longrightarrow>
    handleServerEvent srt (\<lambda>_. HttpStatus 200) True ev (netClients s p) = Some c \<Longrightarrow>
    netStep s (s\<lparr>netClients := (netClients s)(p := c), netRead := (netRead s)(p := Suc (netRead s p)),
      netRequests := netRequests s @ newRequests (netClients s p) c\<rparr>)"
| decide: "\<not> netBusy s p \<Longrightarrow> asking (netClients s p) = ns @ n # ms \<Longrightarrow> length ns = netTurns s p \<Longrightarrow>
    decides srt cmds (netClients s p) \<Longrightarrow> postUserDecisions srt cmds n (netClients s p) = Some (True, c) \<Longrightarrow>
    uiTakes srt cmds (netClients s p) \<Longrightarrow> netStep s (s\<lparr>netClients := (netClients s)(p := c), netTurns := (netTurns s)(p := Suc (netTurns s p)),
      netBusy := (netBusy s)(p := True), netRequests := netRequests s @ newRequests (netClients s p) c\<rparr>)"
| deliverDecisions: "netRequests s = us @ PostDecisions req # vs \<Longrightarrow> handlePlayerDecisionsEvent (Inr req) (netAdmin s) = (r, a) \<Longrightarrow>
    netStep s (s\<lparr>netAdmin := a, netRequests := us @ vs, netAnswers := (netAnswers s)(DecidingPlayer req := answerOf r)\<rparr>)"
| deliverAck: "netRequests s = us @ PostAckDecisionSync m # vs \<Longrightarrow> handleAckPlayerDecisionSynced (Inr m) (netAdmin s) = (r, a) \<Longrightarrow>
    netStep s (s\<lparr>netAdmin := a, netRequests := us @ vs\<rparr>)"
| answer: "netAnswers s p = Some r \<Longrightarrow>
    netStep s (s\<lparr>netClients := (netClients s)(p := decisionsAnswered r (netClients s p)),
      netBusy := (netBusy s)(p := False), netAnswers := (netAnswers s)(p := None)\<rparr>)"
| callback: "c \<in> set (callbacksDue (netAdmin s)) \<Longrightarrow> netStep s (s\<lparr>netAdmin := onSyncAck c (netAdmin s)\<rparr>)"
| finish: "\<not> mutexHeld (netAdmin s) \<Longrightarrow> 0 < syncsDone (netAdmin s) \<Longrightarrow> netStep s (s\<lparr>netAdmin := finishSync (netAdmin s)\<rparr>)"
| newTurn: "\<not> mutexHeld (netAdmin s) \<Longrightarrow> 0 < turnsDue (netAdmin s) \<Longrightarrow> runNewTurn (netAdmin s) = Some a \<Longrightarrow>
    netStep s (s\<lparr>netAdmin := a\<rparr>)"

text \<open>A session in which everybody waits for the cards, with nothing under way.\<close>

definition startNetwork :: "session \<Rightarrow> network" where
  "startNetwork s = \<lparr>netAdmin = fst s, netClients = snd s, netRead = \<lambda>p. length (streamOf (fst s) p),
     netTurns = \<lambda>p. length (asking (snd s p)), netBusy = \<lambda>_. False, netRequests = [], netAnswers = \<lambda>_. None\<rparr>"

section \<open>Where a client is in the game\<close>

text \<open>What a client waits for, with the game it has: the cards, a chosen player, the decisions of
  another player, or its own user.\<close>

datatype status = Fresh | Idle Game | Watch Game | Asked Game int

definition inGame :: "string \<Rightarrow> Game \<Rightarrow> PlayerClient \<Rightarrow> bool" where
  "inGame me g c \<longleftrightarrow> localName c = me \<and> wf_game (ctable c) \<and> absTable (ctable c) = g"

text \<open>\<open>k\<close> is the number of turns the user has decided.\<close>

fun hasStatus :: "string \<Rightarrow> nat \<Rightarrow> PlayerClient \<Rightarrow> status \<Rightarrow> bool" where
  "hasStatus me k c Fresh \<longleftrightarrow> clientState c = WaitingForAdminToServeCards \<and> (\<exists>srt. ctable c = NewTable srt me) \<and> length (asking c) = k"
| "hasStatus me k c (Idle g) \<longleftrightarrow> inGame me g c \<and> clientState c = WaitingForAdminToChoosePlayer \<and> length (asking c) = k"
| "hasStatus me k c (Watch g) \<longleftrightarrow> inGame me g c \<and> clientState c = WaitingForDecisionSync \<and> length (asking c) = k"
| "hasStatus me k c (Asked g n) \<longleftrightarrow> inGame me g c \<and> clientState c = WaitingForAdminToChoosePlayer \<and>
     (\<exists>ns. asking c = ns @ [n] \<and> length ns = k)"

definition freshTable :: "Table \<Rightarrow> bool" where
  "freshTable t \<longleftrightarrow> wf_game t \<and> TableState t = StartOfTurn \<and> WinnerPlayerName t = [] \<and> RequiredNumberBeforeWild4 t = 0"

text \<open>What an event does to a client that waits for it.\<close>

fun advance :: "string \<Rightarrow> ServerEvent \<Rightarrow> status \<Rightarrow> status option" where
  "advance me (ServedCardsEvent t) Fresh = (if freshTable t then Some (Idle (absTable t)) else None)"
| "advance me (ChosenPlayerEvent p n) (Idle g) = Some (if p = me then Asked g n else Watch g)"
| "advance me (PlayerDecisionsSyncEvent req) (Watch g) =
     (if DecidingPlayer req \<noteq> me \<and> DecidingPlayer req \<in> set (gNames g) \<and> (\<forall>d \<in> set (Decisions req). okDecision d)
      then (case tables.rules (DecidingPlayer req) (Decisions req) g of (None, g') \<Rightarrow> Some (Idle g') | _ \<Rightarrow> None)
      else None)"
| "advance me _ _ = None"

fun advances :: "string \<Rightarrow> ServerEvent list \<Rightarrow> status \<Rightarrow> status option" where
  "advances me [] st = Some st"
| "advances me (ev # evs) st = Option.bind (advance me ev st) (advances me evs)"

lemma advances_append: "advances me (evs @ evs') st = Option.bind (advances me evs st) (advances me evs')"
proof (induction evs arbitrary: st)
  case (Cons ev evs)
  then show ?case by (cases "advance me ev st") simp_all
qed simp

lemma advances_Asked: "advances me evs (Asked g n) = Some st \<Longrightarrow> evs = [] \<and> st = Asked g n"
  by (cases evs) auto

text \<open>The requests an event leads to: only decisions are acknowledged.\<close>

fun ackOf :: "string \<Rightarrow> ServerEvent \<Rightarrow> Request list" where
  "ackOf me (PlayerDecisionsSyncEvent req) = [PostAckDecisionSync \<lparr>AckerPlayer = me, DecisionCounter = DecisionEventCounter req\<rparr>]"
| "ackOf me _ = []"

lemma advance_Served:
  assumes "hasStatus me k c Fresh" "freshTable t" "handleServerEvent srt res taken (ServedCardsEvent t) c = Some c'"
  shows "hasStatus me k c' (Idle (absTable t)) \<and> newRequests c c' = []"
proof -
  obtain s where c: "ctable c = NewTable s me" "clientState c = WaitingForAdminToServeCards" "length (asking c) = k" using assms(1) by auto
  let ?t = "SetTable (t\<lparr>LocalPlayerName := me\<rparr>) (NewTable s me)"
  have "wf_game ?t" "absTable ?t = absTable t"
    using SetTable_inStep [of "t\<lparr>LocalPlayerName := me\<rparr>" "NewTable s me"] assms(2) by (simp_all add: freshTable_def)
  moreover have "LocalPlayerName ?t = me" by (simp add: SetTable_def)
  moreover have "c' = (snd (sendCommandToUI taken (UICommandSetServedCards (t\<lparr>LocalPlayerName := me\<rparr>)) (c\<lparr>ctable := ?t\<rparr>)))
      \<lparr>clientState := WaitingForAdminToChoosePlayer\<rparr>"
    using assms(3) c(1,2) by (simp add: Let_def)
  ultimately show ?thesis using c(3) by (simp add: inGame_def newRequests_def sendCommandToUI_def)
qed

lemma advance_Sync:
  assumes "hasStatus me k c (Watch g)" "advance me (PlayerDecisionsSyncEvent req) (Watch g) = Some st"
    and "handleServerEvent srt (\<lambda>_. HttpStatus 200) taken (PlayerDecisionsSyncEvent req) c = Some c'"
  shows "hasStatus me k c' st \<and> newRequests c c' = ackOf me (PlayerDecisionsSyncEvent req)"
proof -
  obtain g' where r: "tables.rules (DecidingPlayer req) (Decisions req) g = (None, g')" "st = Idle g'" "DecidingPlayer req \<noteq> me"
    "DecidingPlayer req \<in> set (gNames g)" "\<forall>d \<in> set (Decisions req). okDecision d"
    using assms(2) by (auto split: if_splits option.splits prod.splits)
  have c: "wf_game (ctable c)" "absTable (ctable c) = g" "localName c = me" "clientState c = WaitingForDecisionSync" "length (asking c) = k"
    using assms(1) by (auto simp: inGame_def)
  have "DecidingPlayer req \<in> set (PlayerNames (ctable c))" using r(4) c(2) absTable_sel(4) by metis
  then obtain ch t1 where t1: "EvalPlayerDecisions srt (DecidingPlayer req) (Decisions req) (gameEvents c) (ctable c) = Some (None, ch, t1)"
      "wf_game t1" "absTable t1 = g'" "LocalPlayerName t1 = me"
    using run_stepOk [OF c(1) _ r(5), of "DecidingPlayer req" srt "gameEvents c"] r(1) c(2,3) stepOkD by fastforce
  then show ?thesis using assms(3) r(2,3) c(3-5)
    by (auto simp: inGame_def ackPlayerSyncToAdmin_def sendRequest_def newRequests_def Let_def)
qed

text \<open>A client does what its status says.\<close>

lemma advance_ok:
  assumes "hasStatus me k c st" "advance me ev st = Some st'" "handleServerEvent srt (\<lambda>_. HttpStatus 200) True ev c = Some c'"
  shows "hasStatus me k c' st' \<and> newRequests c c' = ackOf me ev"
  using assms(2)
proof (cases "(me, ev, st)" rule: advance.cases)
  case (1 _ t)
  then have e: "ev = ServedCardsEvent t" "st = Fresh" by simp_all
  then have "freshTable t" "st' = Idle (absTable t)" using assms(2) by (auto split: if_splits)
  with advance_Served [OF assms(1) [unfolded e] _ assms(3) [unfolded e]] e show ?thesis by simp
next
  case (2 _ p n g)
  then have c: "localName c = me" "clientState c = WaitingForAdminToChoosePlayer" "length (asking c) = k" "inGame me g c"
    using assms(1) by (auto simp: inGame_def)
  with 2 assms(2,3) show ?thesis by (auto simp: inGame_def newRequests_def logToWindow_def split: if_splits)
next
  case (3 _ req g)
  then have e: "ev = PlayerDecisionsSyncEvent req" "st = Watch g" by simp_all
  show ?thesis unfolding e(1) by (rule advance_Sync [OF assms(1) [unfolded e] assms(2,3) [unfolded e]])
qed auto

lemma advance_enabled:
  assumes "hasStatus me k c st" "advance me ev st = Some st'"
  shows "\<exists>c'. handleServerEvent srt (\<lambda>_. HttpStatus 200) True ev c = Some c'"
  using assms(2)
proof (cases "(me, ev, st)" rule: advance.cases)
  case (3 _ req g)
  then have r: "DecidingPlayer req \<in> set (gNames g)" "\<forall>d \<in> set (Decisions req). okDecision d" using assms(2) by (auto split: if_splits)
  have c: "wf_game (ctable c)" "absTable (ctable c) = g" using assms(1) 3 by (auto simp: inGame_def)
  then have "DecidingPlayer req \<in> set (PlayerNames (ctable c))" using r(1) absTable_sel(4) by metis
  with run_stepOk [OF c(1) _ r(2), of "DecidingPlayer req" srt "gameEvents c"] 3 show ?thesis by auto
qed (auto simp: Let_def)

section \<open>Streams\<close>

definition readOk :: "network \<Rightarrow> bool" where
  "readOk s \<longleftrightarrow> (\<forall>p. netRead s p \<le> length (streamOf (netAdmin s) p))"

lemma streamOf_append:
  assumes "sseWriterForPlayer a' = sseWriterForPlayer a" "written a' = written a @ xs"
  shows "streamOf a' p = streamOf a p @ eventsFor a a' p"
  using assms by (simp add: streamOf_def eventsFor_def)

lemma unread_same: "sseWriterForPlayer a = sseWriterForPlayer (netAdmin s) \<Longrightarrow> written a = written (netAdmin s) \<Longrightarrow>
    unread (s\<lparr>netAdmin := a\<rparr>) = unread s"
  by (simp add: fun_eq_iff unread_def streamOf_def)

text \<open>A message to all players but \<open>x\<close>.\<close>

lemma unread_send:
  assumes "readOk s" "streams ks a" "sseWriterForPlayer a = sseWriterForPlayer (netAdmin s)"
    and "written a = written (netAdmin s) @ map (\<lambda>p. (map_get 0 (sseWriterForPlayer a) p, ev)) (filter (\<lambda>p. p \<noteq> x) ks)"
  shows "p \<in> set ks \<Longrightarrow> unread (s\<lparr>netAdmin := a\<rparr>) p = unread s p @ (if p = x then [] else [ev])"
    and "readOk (s\<lparr>netAdmin := a\<rparr>)"
proof -
  have r: "netRead s q \<le> length (streamOf (netAdmin s) q)" for q using assms(1) by (simp add: readOk_def)
  note st = streamOf_append [OF assms(3,4)]
  show "unread (s\<lparr>netAdmin := a\<rparr>) p = unread s p @ (if p = x then [] else [ev])" if "p \<in> set ks"
    using eventsFor_send [OF assms(2) that assms(4)] r [of p] by (simp add: unread_def st)
  show "readOk (s\<lparr>netAdmin := a\<rparr>)" using r by (simp add: readOk_def st trans_le_add1)
qed

text \<open>A client that will have the status \<open>st\<close> once it has read its stream.\<close>

definition follows :: "network \<Rightarrow> string \<Rightarrow> status \<Rightarrow> bool" where
  "follows s p st \<longleftrightarrow> (\<exists>st0. hasStatus p (netTurns s p) (netClients s p) st0 \<and> advances p (unread s p) st0 = Some st)"

lemma follows_cong:
  "netTurns s' p = netTurns s p \<Longrightarrow> netClients s' p = netClients s p \<Longrightarrow> unread s' p = unread s p \<Longrightarrow> follows s' p st = follows s p st"
  by (simp add: follows_def)

lemma follows_event:
  assumes "follows s p st" "advance p ev st = Some st'"
    and "netTurns s' p = netTurns s p" "netClients s' p = netClients s p" "unread s' p = unread s p @ [ev]"
  shows "follows s' p st'"
  using assms by (auto simp: follows_def advances_append)

lemma follows_unread: "follows s p st \<Longrightarrow> unread s p = [] \<Longrightarrow> hasStatus p (netTurns s p) (netClients s p) st"
  by (auto simp: follows_def)

lemma follows_Asked:
  assumes "follows s p st" "asking (netClients s p) = ns @ n # ms" "length ns = netTurns s p"
  shows "unread s p = [] \<and> (\<exists>g. st = Asked g n)"
proof -
  obtain st0 where "hasStatus p (netTurns s p) (netClients s p) st0" "advances p (unread s p) st0 = Some st"
    using assms(1) by (auto simp: follows_def)
  then show ?thesis using assms(2,3) by (cases st0) (auto dest: advances_Asked)
qed

lemma follows_receive:
  fixes s :: network and p :: string and c :: PlayerClient and rs :: "Request list"
  assumes "follows s p st" "unread s p = ev # evs" "handleServerEvent srt (\<lambda>_. HttpStatus 200) True ev (netClients s p) = Some c"
  defines "s' \<equiv> s\<lparr>netClients := (netClients s)(p := c), netRead := (netRead s)(p := Suc (netRead s p)), netRequests := rs\<rparr>"
  shows "follows s' p st" "newRequests (netClients s p) c = ackOf p ev" "unread s' p = evs"
    and "q \<noteq> p \<Longrightarrow> follows s' q st' = follows s q st'" "q \<noteq> p \<Longrightarrow> unread s' q = unread s q" "readOk s \<Longrightarrow> readOk s'"
proof -
  obtain st0 st1 where st: "hasStatus p (netTurns s p) (netClients s p) st0" "advance p ev st0 = Some st1" "advances p evs st1 = Some st"
    using assms(1,2) by (auto simp: follows_def bind_eq_Some_conv)
  note ok = advance_ok [OF st(1,2) assms(3)]
  show "newRequests (netClients s p) c = ackOf p ev" using ok by simp
  show u: "unread s' p = evs" using arg_cong [OF assms(2), of tl] by (simp add: unread_def s'_def drop_Suc tl_drop)
  have "netTurns s' p = netTurns s p" "netClients s' p = c" by (simp_all add: s'_def)
  with ok st(3) u show "follows s' p st" by (auto simp: follows_def)
  show v: "unread s' q = unread s q" if "q \<noteq> p" for q using that by (simp add: unread_def s'_def)
  then show "follows s' q st' = follows s q st'" if "q \<noteq> p" using that by (intro follows_cong) (simp_all add: s'_def)
  have "Suc (netRead s p) \<le> length (streamOf (netAdmin s) p)"
    using assms(2) unfolding unread_def by (metis drop_eq_Nil list.distinct(1) not_less_eq_eq)
  then show "readOk s \<Longrightarrow> readOk s'" by (simp add: readOk_def s'_def)
qed

section \<open>The admin while it waits for acks\<close>

text \<open>The callbacks that are due count as run.\<close>

definition settled :: "nat \<Rightarrow> Admin \<Rightarrow> Admin" where
  "settled g a = a\<lparr>callbacksDue := [], remainingAcks := (remainingAcks a)(g := remainingAcks a g - int (length (callbacksDue a)))\<rparr>"

definition syncingAdmin :: "nat \<Rightarrow> int \<Rightarrow> string set \<Rightarrow> Admin \<Rightarrow> bool" where
  "syncingAdmin g n Q a \<longleftrightarrow> awaiting g n Q (settled g a) \<and> (\<forall>c \<in> set (callbacksDue a). syncOf a c = Some g) \<and>
     freshChans a \<and> \<not> mutexHeld a \<and> preemptiveAcks (expectedAcksList a) = [] \<and>
     pendingFors a = image_mset (\<lambda>q. syncAck q n) (mset_set Q)"

lemma awaiting_cong:
  "awaiting g n Q a \<Longrightarrow> expectedAcksList b = expectedAcksList a \<Longrightarrow> acksLoopRuns b = acksLoopRuns a \<Longrightarrow>
   callbacksDue b = callbacksDue a \<Longrightarrow> remainingAcks b g = remainingAcks a g \<Longrightarrow> syncOf b = syncOf a \<Longrightarrow> awaiting g n Q b"
  by (simp add: awaiting_def registered_def)

lemma syncing_ack:
  assumes "syncingAdmin g n Q a" "q \<in> Q" "handleAckPlayerDecisionSynced (Inr \<lparr>AckerPlayer = q, DecisionCounter = n\<rparr>) a = (r, a')"
  shows "syncingAdmin g n (Q - {q}) a'"
    and "\<exists>es c. a' = a\<lparr>expectedAcksList := es, callbacksDue := callbacksDue a @ [c]\<rparr>"
proof -
  let ?b = "settled g a" and ?es = "expectedAcksList a"
  have aw: "awaiting g n Q ?b" using assms(1) by (simp add: syncingAdmin_def)
  have b: "expectedAcksList ?b = ?es" "syncOf ?b = syncOf a" "acksLoopRuns ?b = acksLoopRuns a" "callbacksDue ?b = []"
    by (simp_all add: settled_def)
  obtain us p vs where l: "pendingAcks ?es = us @ p # vs" "pendingFor p = syncAck q n" "ackReceivedChan p \<in> waiting ?es"
    "syncOf a (ackReceivedChan p) = Some g"
    and w: "waitForAcks (syncAck q n) ?es = ?es\<lparr>pendingAcks := us @ vs, waiting := waiting ?es - {ackReceivedChan p},
       fired := fired ?es @ [OnAck (ackReceivedChan p)]\<rparr>"
    and e: "deliverSyncAck n q ?b = onSyncAck (ackReceivedChan p)
       (?b\<lparr>expectedAcksList := waitForAcks (syncAck q n) ?es, callbacksDue := [ackReceivedChan p]\<rparr>)"
    by (rule deliver_eq [OF aw assms(2), unfolded b])
  let ?c = "ackReceivedChan p" and ?w = "waitForAcks (syncAck q n) ?es"
  have run: "acksLoopRuns a" "\<not> stuck ?es" using aw by (simp_all add: awaiting_def b)
  have a': "a' = a\<lparr>expectedAcksList := ?w, callbacksDue := callbacksDue a @ [?c]\<rparr>"
    using assms(3) run l(4) by (simp add: handleAckPlayerDecisionSynced_def sendAck_def receiveAck_def w Let_def)
  then show "\<exists>es c. a' = a\<lparr>expectedAcksList := es, callbacksDue := callbacksDue a @ [c]\<rparr>" by blast
  have m: "map_get 0 (syncOf a) ?c = g" using l(4) by (simp add: map_get_def)
  have "awaiting g n (Q - {q}) (deliverSyncAck n q ?b)" using deliver_step [OF aw assms(2)] by blast
  then have "awaiting g n (Q - {q}) (settled g a')"
    unfolding e by (rule awaiting_cong) (simp_all add: a' onSyncAck_def settled_def m Let_def)
  moreover have "acksRefine a a'"
    using acksRefine_sendAck [of "syncAck q n" a] assms(3) run
    by (auto simp: handleAckPlayerDecisionSynced_def sendAck_def split: option.splits)
  then have "freshChans a'" using assms(1) by (simp add: acksRefine_def syncingAdmin_def)
  moreover have "finite Q" using aw by (simp add: awaiting_def)
  then have "add_mset (syncAck q n) (pendingFors a') = add_mset (syncAck q n) (image_mset (\<lambda>q. syncAck q n) (mset_set (Q - {q})))"
    using assms(1,2) l(1,2) mset_set.remove [of Q q] by (simp add: syncingAdmin_def a' w)
  then have "pendingFors a' = image_mset (\<lambda>q. syncAck q n) (mset_set (Q - {q}))" by simp
  ultimately show "syncingAdmin g n (Q - {q}) a'" using assms(1) l(4) by (auto simp: syncingAdmin_def a' w)
qed

lemma syncing_callback:
  assumes "syncingAdmin g n Q a" "c \<in> set (callbacksDue a)"
  shows "syncingAdmin g n Q (onSyncAck c a)"
    and "onSyncAck c a = a\<lparr>callbacksDue := remove1 c (callbacksDue a), remainingAcks := (remainingAcks a)(g := remainingAcks a g - 1),
      syncsDone := (if Q = {} \<and> callbacksDue a = [c] then Suc (syncsDone a) else syncsDone a)\<rparr>"
proof -
  have aw: "awaiting g n Q (settled g a)" "syncOf a c = Some g" using assms by (simp_all add: syncingAdmin_def)
  then have m: "map_get 0 (syncOf a) c = g" "finite Q" "remainingAcks a g = int (card Q) + int (length (callbacksDue a))"
    by (simp_all add: map_get_def awaiting_def settled_def)
  have l: "length (callbacksDue a) = Suc (length (remove1 c (callbacksDue a)))" using length_pos_if_in_set [OF assms(2)] assms(2) by (simp add: length_remove1)
  have "remove1 c (callbacksDue a) = [] \<longleftrightarrow> callbacksDue a = [c]" using assms(2) by (cases "callbacksDue a") (auto split: if_splits)
  moreover have "remainingAcks a g - 1 = 0 \<longleftrightarrow> card Q = 0 \<and> length (remove1 c (callbacksDue a)) = 0" using m(3) l by linarith
  then have "remainingAcks a g - 1 = 0 \<longleftrightarrow> Q = {} \<and> remove1 c (callbacksDue a) = []" using m(2) by simp
  ultimately show e: "onSyncAck c a = a\<lparr>callbacksDue := remove1 c (callbacksDue a), remainingAcks := (remainingAcks a)(g := remainingAcks a g - 1),
      syncsDone := (if Q = {} \<and> callbacksDue a = [c] then Suc (syncsDone a) else syncsDone a)\<rparr>"
    by (simp add: onSyncAck_def m(1) Let_def)
  have "awaiting g n Q (settled g (onSyncAck c a))"
    by (rule awaiting_cong [OF aw(1)]) (simp_all add: e settled_def l)
  then show "syncingAdmin g n Q (onSyncAck c a)" using assms(1) set_remove1_subset [of c "callbacksDue a"]
    by (auto simp: syncingAdmin_def e freshChans_def)
qed

lemma syncing_done: "syncingAdmin g n {} a \<Longrightarrow> callbacksDue a = [] \<Longrightarrow> calm a"
  by (simp add: syncingAdmin_def calm_def awaiting_def settled_def)

end
