(* ===== verification/NetworkRuns.thy ===== *)
theory NetworkRuns
  imports Network
begin

text \<open>
  What holds of the admin and its clients in every interleaving.  A turn goes through phases, and the
  phase fixes what the admin waits for, which requests are under way or will be once the clients have
  read their streams, and what every client will be waiting for then.  Every step keeps this.  The
  tables agree, no state is stuck while users finish their turns, and no run goes on for ever without
  turns being completed.
\<close>

section \<open>Phases\<close>

definition idleWith :: "sseEvent list \<Rightarrow> Admin \<Rightarrow> bool" where
  "idleWith es a \<longleftrightarrow> calm a \<and> sseControllerEvents a = es \<and> syncsDone a = 0 \<and> turnsDue a = 0"

text \<open>What the player whose turn it is is asked for.\<close>

definition turnStarts :: "TableState \<Rightarrow> bool" where
  "turnStarts st \<longleftrightarrow> st = StartOfTurn \<or> st = AwaitingWildDraw4ChallengeDecision"

text \<open>A request with the decisions of the player whose turn it is, which lead to the game \<open>g\<close>.\<close>

definition goodRequest :: "Admin \<Rightarrow> PlayerDecisionsRequest \<Rightarrow> Game \<Rightarrow> bool" where
  "goodRequest a req g \<longleftrightarrow> DecidingPlayer req = PlayerOfNextTurn (table a) \<and> DecisionEventCounter req = decisionEventsCompleted a \<and>
     (\<forall>d \<in> set (Decisions req). okDecision d) \<and> tables.rules (DecidingPlayer req) (Decisions req) (absTable (table a)) = (None, g) \<and> turnStarts (gPhase g)"

definition ackRequest :: "int \<Rightarrow> string \<Rightarrow> Request" where
  "ackRequest n q = PostAckDecisionSync \<lparr>AckerPlayer = q, DecisionCounter = n\<rparr>"

text \<open>The state of the admin, the requests and what each client will wait for.\<close>

inductive phase :: "Admin \<Rightarrow> Request multiset \<Rightarrow> (string \<Rightarrow> status) \<Rightarrow> bool" where
  serve: "idleWith [sseCommandSendServedCardsEventToAll t] a \<Longrightarrow> freshTable (table a) \<Longrightarrow> phase a {#} (\<lambda>_. Fresh)"
| announce: "idleWith [sseCommandSendChosenPlayerEventToAll] a \<Longrightarrow> phase a {#} (\<lambda>_. Idle (absTable (table a)))"
| ask: "idleWith [sseCommandSendChosenPlayerEventToAll] a \<Longrightarrow> streams ks a \<Longrightarrow>
    phase (dispatchChosenPlayer (\<lambda>_. True) ks (a\<lparr>sseControllerEvents := []\<rparr>)) {#}
      (\<lambda>q. if q = PlayerOfNextTurn (table a) then Asked (absTable (table a)) (decisionEventsCompleted a) else Watch (absTable (table a)))"
| posted: "idleWith [sseCommandSendChosenPlayerEventToAll] a \<Longrightarrow> streams ks a \<Longrightarrow> goodRequest a req g \<Longrightarrow>
    phase (dispatchChosenPlayer (\<lambda>_. True) ks (a\<lparr>sseControllerEvents := []\<rparr>)) {#PostDecisions req#}
      (\<lambda>q. if q = DecidingPlayer req then Idle g else Watch (absTable (table a)))"
| handled: "idleWith [sseCommandSyncPlayerDecisionEvent req] a \<Longrightarrow> goodRequest a req g \<Longrightarrow>
    phase a {#} (\<lambda>q. if q = DecidingPlayer req then Idle g else Watch (absTable (table a)))"
| syncing: "syncingAdmin g n Q a \<Longrightarrow> sseControllerEvents a = [] \<Longrightarrow> turnsDue a = 0 \<Longrightarrow>
    syncsDone a = (if Q = {} \<and> callbacksDue a = [] then 1 else 0) \<Longrightarrow>
    phase a (image_mset (ackRequest n) (mset_set Q)) (\<lambda>_. Idle (absTable (table a)))"
| finished: "calm a \<Longrightarrow> state a = DoneSyncingPlayerDecision \<Longrightarrow> sseControllerEvents a = [] \<Longrightarrow> syncsDone a = 0 \<Longrightarrow> turnsDue a = 1 \<Longrightarrow>
    phase a {#} (\<lambda>_. Idle (absTable (table a)))"

text \<open>What holds of the admin in all phases.\<close>

definition adminBase :: "Table \<Rightarrow> Admin \<Rightarrow> bool" where
  "adminBase t0 a \<longleftrightarrow> stepOk t0 (table a) \<and> turnStarts (TableState (table a)) \<and> \<not> mutexHeld a \<and> joinTasks a = [] \<and>
     \<not> DebugSignalNewTurnViaPrompt (userConfig a) \<and> dom (sseWriterForPlayer a) = set (PlayerNames t0) \<and>
     inj_on (sseWriterForPlayer a) (set (PlayerNames t0)) \<and> [] \<notin> set (PlayerNames t0) \<and> 2 \<le> length (PlayerNames t0)"

text \<open>What no step of the turn changes.\<close>

definition sameRun :: "Admin \<Rightarrow> Admin \<Rightarrow> bool" where
  "sameRun a a' \<longleftrightarrow> sseWriterForPlayer a' = sseWriterForPlayer a \<and> userConfig a' = userConfig a \<and> joinTasks a' = joinTasks a \<and>
     mutexHeld a' = mutexHeld a"

lemma adminBase_same: "adminBase t0 a \<Longrightarrow> sameRun a a' \<Longrightarrow> table a' = table a \<Longrightarrow> adminBase t0 a'"
  by (simp add: adminBase_def sameRun_def)

lemma adminBase_streams: "adminBase t0 a \<Longrightarrow> range_order ks (sseWriterForPlayer a) \<Longrightarrow> streams ks a"
  by (simp add: adminBase_def streams_def range_order_def)

lemma adminBase_player: "adminBase t0 a \<Longrightarrow> PlayerOfNextTurn (table a) \<in> set (PlayerNames t0)"
  using stepOkD(1,4) [of t0 "table a"] wf_gameD(3) [of "table a"] by (simp add: adminBase_def)

lemma adminBase_names: "adminBase t0 a \<Longrightarrow> PlayerNames (table a) = PlayerNames t0"
  using stepOkD(4) by (simp add: adminBase_def)

lemma adminBase_card:
  assumes "adminBase t0 a"
  shows "2 \<le> card (set (PlayerNames t0))"
proof -
  have "wf_seating (table a)" using assms wf_tableD(1) [OF stepOkD(2)] by (auto simp: adminBase_def)
  then show ?thesis using assms adminBase_names [OF assms] by (simp add: wf_seating_def distinct_card adminBase_def)
qed

section \<open>Steps of the admin\<close>

text \<open>An event to all players but \<open>x\<close>, and what it makes of the clients.\<close>

definition sends :: "string list \<Rightarrow> ServerEvent \<Rightarrow> string \<Rightarrow> Admin \<Rightarrow> Admin \<Rightarrow> bool" where
  "sends ks ev x a a' \<longleftrightarrow> sameRun a a' \<and> decisionEventsCompleted a' = decisionEventsCompleted a \<and>
     written a' = written a @ map (\<lambda>p. (map_get 0 (sseWriterForPlayer a) p, ev)) (filter (\<lambda>p. p \<noteq> x) ks)"

definition moves :: "string set \<Rightarrow> ServerEvent \<Rightarrow> string \<Rightarrow> (string \<Rightarrow> status) \<Rightarrow> (string \<Rightarrow> status) \<Rightarrow> bool" where
  "moves N ev x F F' \<longleftrightarrow> (\<forall>q \<in> N. if q = x then F' q = F q else advance q ev (F q) = Some (F' q))"

lemma calm_queue: "calm a \<Longrightarrow> calm (a\<lparr>sseControllerEvents := es\<rparr>)"
  by (simp add: calm_def freshChans_def)

lemma serve_step:
  fixes a :: Admin and ks :: "string list"
  assumes "idleWith [sseCommandSendServedCardsEventToAll t] a" "freshTable (table a)" "[] \<notin> N"
  defines "a' \<equiv> dispatchServedCards (\<lambda>_. True) ks (a\<lparr>sseControllerEvents := []\<rparr>)"
  shows "sends ks (ServedCardsEvent (table a)) [] a a'" "callbacksDue a' = []" "moves N (ServedCardsEvent (table a)) [] (\<lambda>_. Fresh) (\<lambda>_. Idle (absTable (table a)))"
    and "phase a' {#} (\<lambda>_. Idle (absTable (table a)))" "table a' = table a" "turnsDue a' = 0"
    "sseControllerEvents a' = [sseCommandSendChosenPlayerEventToAll]"
proof -
  have t: "table a' = table a" by (simp add: a'_def dispatchServedCards_def Let_def)
  have i: "idleWith [sseCommandSendChosenPlayerEventToAll] a'"
    using assms(1) by (simp add: a'_def idleWith_def dispatchServedCards_def send_all calm_def freshChans_def Let_def)
  then show "callbacksDue a' = []" "turnsDue a' = 0" "sseControllerEvents a' = [sseCommandSendChosenPlayerEventToAll]"
    by (simp_all add: idleWith_def calm_def)
  from i show "phase a' {#} (\<lambda>_. Idle (absTable (table a)))" using phase.announce [of a'] t by simp
  show "sends ks (ServedCardsEvent (table a)) [] a a'"
    by (simp add: sends_def sameRun_def a'_def dispatchServedCards_def send_all Let_def)
  show "moves N (ServedCardsEvent (table a)) [] (\<lambda>_. Fresh) (\<lambda>_. Idle (absTable (table a)))" using assms(2,3) by (auto simp: moves_def)
qed (simp add: a'_def dispatchServedCards_def Let_def)

lemma announce_step:
  fixes a :: Admin and ks :: "string list"
  assumes "idleWith [sseCommandSendChosenPlayerEventToAll] a" "streams ks a" "[] \<notin> N"
  defines "a' \<equiv> dispatchChosenPlayer (\<lambda>_. True) ks (a\<lparr>sseControllerEvents := []\<rparr>)"
    and "ev \<equiv> ChosenPlayerEvent (PlayerOfNextTurn (table a)) (decisionEventsCompleted a)" and "g \<equiv> absTable (table a)"
  shows "sends ks ev [] a a'" "table a' = table a" "syncsDone a' = 0" "turnsDue a' = 0" "callbacksDue a' = []" "sseControllerEvents a' = []"
    and "moves N ev [] (\<lambda>_. Idle g) (\<lambda>q. if q = PlayerOfNextTurn (table a) then Asked g (decisionEventsCompleted a) else Watch g)"
    and "phase a' {#} (\<lambda>q. if q = PlayerOfNextTurn (table a) then Asked g (decisionEventsCompleted a) else Watch g)"
proof -
  have c: "\<not> stuck (expectedAcksList a)" "callbacksDue a = []" "syncsDone a = 0" "turnsDue a = 0"
    using assms(1) by (simp_all add: idleWith_def calm_def)
  show "sends ks ev [] a a'" "table a' = table a" "syncsDone a' = 0" "turnsDue a' = 0" "callbacksDue a' = []" "sseControllerEvents a' = []"
    using c by (simp_all add: sends_def sameRun_def a'_def ev_def dispatchChosenPlayer_def send_all registerAck_def Let_def)
  show "moves N ev [] (\<lambda>_. Idle g) (\<lambda>q. if q = PlayerOfNextTurn (table a) then Asked g (decisionEventsCompleted a) else Watch g)"
    using assms(3) by (auto simp: moves_def ev_def)
  show "phase a' {#} (\<lambda>q. if q = PlayerOfNextTurn (table a) then Asked g (decisionEventsCompleted a) else Watch g)"
    unfolding a'_def g_def using assms(1,2) by (rule phase.ask)
qed

lemma dispatchDecision_joinTasks: "dispatchDecision srt (\<lambda>_. True) ks [] req a = Some a' \<Longrightarrow> joinTasks a' = joinTasks a"
  by (auto simp: dispatchDecision_def send_all receiveEarly_def syncAcks_same updatePromptWithStateInfo_def setState_def Let_def
    split: option.splits)

text \<open>The admin evaluates the decisions of a good request as the client did.\<close>

lemma goodRequest_eval:
  assumes "goodRequest a req g" "adminBase t0 a"
  obtains t where "EvalPlayerDecisionsNoTransferChan srt (DecidingPlayer req) (Decisions req) (table a) = Some (None, t)"
    "stepOk t0 t" "absTable t = g" "turnStarts (TableState t)"
proof -
  have r: "DecidingPlayer req = PlayerOfNextTurn (table a)" "\<forall>d \<in> set (Decisions req). okDecision d"
    "tables.rules (DecidingPlayer req) (Decisions req) (absTable (table a)) = (None, g)" "turnStarts (gPhase g)" using assms(1) unfolding goodRequest_def by blast+
  have b: "stepOk t0 (table a)" using assms(2) by (simp add: adminBase_def)
  have "DecidingPlayer req \<in> set (PlayerNames (table a))" using adminBase_player [OF assms(2)] adminBase_names [OF assms(2)] r(1) by simp
  then obtain t where t: "EvalPlayerDecisionsNoTransferChan srt (DecidingPlayer req) (Decisions req) (table a) = Some (None, t)"
      "stepOk (table a) t" "absTable t = g"
    using run_stepOk [OF stepOkD(1) [OF b] _ r(2), of "DecidingPlayer req" srt "[]"] r(3)
    by (auto simp: EvalPlayerDecisionsNoTransferChan_def)
  moreover have "turnStarts (TableState t)" using r(4) t(3) absTable_sel(8) by metis
  ultimately show ?thesis using that stepOk_trans [OF b] by blast
qed

lemma handled_step:
  fixes a :: Admin and ks :: "string list" and req :: PlayerDecisionsRequest
  assumes "idleWith [sseCommandSyncPlayerDecisionEvent req] a" "goodRequest a req g" "adminBase t0 a" "range_order ks (sseWriterForPlayer a)"
  defines "p \<equiv> DecidingPlayer req" and "n \<equiv> DecisionEventCounter req"
  obtains a' where "dispatchDecision srt (\<lambda>_. True) ks [] req (a\<lparr>sseControllerEvents := []\<rparr>) = Some a'"
    "sends ks (PlayerDecisionsSyncEvent req) p a a'" "adminBase t0 a'" "callbacksDue a' = []" "turnsDue a' = 0" "sseControllerEvents a' = []"
    "moves (set ks) (PlayerDecisionsSyncEvent req) p (\<lambda>q. if q = p then Idle g else Watch (absTable (table a))) (\<lambda>_. Idle g)"
    "phase a' (image_mset (ackRequest n) (mset_set (set ks - {p}))) (\<lambda>_. Idle g)"
proof -
  let ?b = "a\<lparr>sseControllerEvents := []\<rparr>"
  have c: "calm ?b" "syncsDone a = 0" "turnsDue a = 0" using assms(1) by (simp_all add: idleWith_def calm_queue)
  obtain t where t: "EvalPlayerDecisionsNoTransferChan srt p (Decisions req) (table ?b) = Some (None, t)" "stepOk t0 t" "absTable t = g"
    "turnStarts (TableState t)" using goodRequest_eval [OF assms(2,3), of srt] by (auto simp: p_def)
  have ks: "distinct ks" "set ks = set (PlayerNames t0)" using assms(3,4) by (auto simp: range_order_def adminBase_def)
  have p: "p \<in> set ks" using assms(2) adminBase_player [OF assms(3)] by (simp add: p_def ks(2) goodRequest_def)
  have u: "unregistered n (set ks) ?b" using c(1) by (simp add: calm_def unregistered_def)
  have es: "acksInv (expectedAcksList ?b)" "freshChans ?b" "\<not> stuck (expectedAcksList ?b)" "acksLoopRuns ?b" "callbacksDue ?b = []"
    using c(1) by (simp_all add: calm_def)
  obtain h a' where a': "dispatchDecision srt (\<lambda>_. True) ks [] req ?b = Some a'" "awaiting h n (set ks - {p}) a'"
    "table a' = t" "syncsDone a' = 0" "turnsDue a' = 0" "sseControllerEvents a' = []"
    "decisionEventsCompleted a' = decisionEventsCompleted a" "userConfig a' = userConfig a"
    using dispatchDecision_awaits [OF es ks(1) p [unfolded p_def] _ t(1) [unfolded p_def] u [unfolded n_def], of "\<lambda>_. True"] c(2,3)
    by (auto simp: p_def n_def)
  note net = dispatchDecision_net [OF c(1) t(1) [unfolded p_def] a'(1), folded p_def n_def]
  have r: "sameRun a a'" using net(2,3) a'(8) dispatchDecision_joinTasks [OF a'(1)] assms(3) by (simp add: sameRun_def adminBase_def)
  have due: "callbacksDue a' = []" using a'(2) by (simp add: awaiting_def)
  have "\<not> set ks \<subseteq> {p}" using adminBase_card [OF assms(3)] card_mono [of "{p}" "set ks"] by (auto simp: ks(2))
  then have ne: "set ks - {p} \<noteq> {}" by blast
  have "settled h a' = a'" using due by (simp add: settled_def)
  moreover have "pendingFors a' = image_mset (\<lambda>q. syncAck q n) (mset_set (set ks - {p}))"
    using net(6) ks(1) by (simp add: mset_set_set [symmetric] set_diff_eq)
  ultimately have "syncingAdmin h n (set ks - {p}) a'" using a'(2) due net(3-5) by (simp add: syncingAdmin_def)
  then have "phase a' (image_mset (ackRequest n) (mset_set (set ks - {p}))) (\<lambda>_. Idle (absTable (table a')))"
    by (rule phase.syncing) (use a'(4-6) ne in simp_all)
  moreover have "sends ks (PlayerDecisionsSyncEvent req) p a a'" using r net(1,2) a'(7) by (simp add: sends_def)
  moreover have "adminBase t0 a'" using assms(3) r a'(3) t(2,4) by (simp add: adminBase_def sameRun_def)
  moreover have "moves (set ks) (PlayerDecisionsSyncEvent req) p (\<lambda>q. if q = p then Idle g else Watch (absTable (table a))) (\<lambda>_. Idle g)"
    using assms(2) p ks(2) adminBase_names [OF assms(3)] by (auto simp: moves_def goodRequest_def p_def)
  ultimately show ?thesis using that a' t(3) due by simp
qed

lemma handleDecisions_accepts:
  assumes "handlePlayerDecisionsEvent (Inr req) a = (Responded StatusOK [], a')"
  shows "\<exists>es cs. a' = a\<lparr>expectedAcksList := es, callbacksDue := cs,
    sseControllerEvents := sseControllerEvents a @ [sseCommandSyncPlayerDecisionEvent req]\<rparr>"
  using assms by (auto simp: handlePlayerDecisionsEvent_def sendAck_def receiveAck_def Let_def
    split: if_splits option.splits)

text \<open>The request of the chosen player reaches the admin.\<close>

lemma posted_step:
  fixes a :: Admin and ks :: "string list"
  assumes "idleWith [sseCommandSendChosenPlayerEventToAll] a" "streams ks a" "goodRequest a req g"
  defines "a1 \<equiv> dispatchChosenPlayer (\<lambda>_. True) ks (a\<lparr>sseControllerEvents := []\<rparr>)"
  assumes "handlePlayerDecisionsEvent (Inr req) a1 = (r, a')"
  shows "r = Responded StatusOK []" "\<exists>es cs. a' = a1\<lparr>expectedAcksList := es, callbacksDue := cs,
      sseControllerEvents := [sseCommandSyncPlayerDecisionEvent req]\<rparr>" "callbacksDue a' = []"
    and "phase a' {#} (\<lambda>q. if q = DecidingPlayer req then Idle g else Watch (absTable (table a)))"
proof -
  have q: "DecidingPlayer req = PlayerOfNextTurn (table a)" "DecisionEventCounter req = decisionEventsCompleted a" and c: "calm a"
    using assms(1,3) unfolding goodRequest_def idleWith_def by blast+
  note st = chosen_stage [OF c q assms(2), folded a1_def]
  note an = announce_step(2-6) [OF assms(1,2), of "{}", folded a1_def]
  show r: "r = Responded StatusOK []" using st(4) assms(5) by simp
  show a': "\<exists>es cs. a' = a1\<lparr>expectedAcksList := es, callbacksDue := cs, sseControllerEvents := [sseCommandSyncPlayerDecisionEvent req]\<rparr>"
    using handleDecisions_accepts [OF assms(5) [unfolded r]] an(5) by simp
  have "calm (a'\<lparr>sseControllerEvents := []\<rparr>)" using st(5) assms(5) by simp
  then have c': "calm a'" by (simp add: calm_def freshChans_def)
  then show "callbacksDue a' = []" by (simp add: calm_def)
  have s: "table a' = table a" "decisionEventsCompleted a' = decisionEventsCompleted a" "syncsDone a' = 0" "turnsDue a' = 0"
    "sseControllerEvents a' = [sseCommandSyncPlayerDecisionEvent req]"
    using a' an st(6,7) assms(5) by auto
  have "idleWith [sseCommandSyncPlayerDecisionEvent req] a'" using c' s by (simp add: idleWith_def)
  moreover have "goodRequest a' req g" using assms(3) unfolding goodRequest_def s .
  ultimately show "phase a' {#} (\<lambda>q. if q = DecidingPlayer req then Idle g else Watch (absTable (table a)))"
    by (rule phase.handled [of req a' g, unfolded s(1)])
qed

section \<open>The invariant\<close>

text \<open>The requests that are under way, and the acks that clients will send once they have read their streams.\<close>

definition traffic :: "network \<Rightarrow> Request multiset" where
  "traffic s = mset (netRequests s) +
     (\<Sum>p \<in> dom (sseWriterForPlayer (netAdmin s)). mset (concat (map (ackOf p) (unread s p))))"

text \<open>A client that waits for the answer to its request has that request under way or its answer.\<close>

definition busyOk :: "network \<Rightarrow> bool" where
  "busyOk s \<longleftrightarrow> (\<forall>p r. netAnswers s p = Some r \<longrightarrow> r = HttpStatus 200 \<and> netBusy s p \<and> clientState (netClients s p) = WaitingForAdminToChoosePlayer) \<and>
     (\<forall>req. PostDecisions req \<in> set (netRequests s) \<longrightarrow> netBusy s (DecidingPlayer req) \<and> netAnswers s (DecidingPlayer req) = None \<and>
        clientState (netClients s (DecidingPlayer req)) = WaitingForAdminToChoosePlayer) \<and>
     (\<forall>p. netBusy s p \<longrightarrow> netAnswers s p \<noteq> None \<or> (\<exists>req. PostDecisions req \<in> set (netRequests s) \<and> DecidingPlayer req = p))"

text \<open>Nobody else takes part.\<close>

definition othersOk :: "network \<Rightarrow> bool" where
  "othersOk s \<longleftrightarrow> (\<forall>p. p \<notin> dom (sseWriterForPlayer (netAdmin s)) \<longrightarrow> length (asking (netClients s p)) = netTurns s p \<and> netAnswers s p = None)"

definition inPhase :: "(string \<Rightarrow> status) \<Rightarrow> network \<Rightarrow> bool" where
  "inPhase F s \<longleftrightarrow> phase (netAdmin s) (traffic s) F \<and> (\<forall>p \<in> dom (sseWriterForPlayer (netAdmin s)). follows s p (F p))"

definition netInv :: "Table \<Rightarrow> network \<Rightarrow> bool" where
  "netInv t0 s \<longleftrightarrow> adminBase t0 (netAdmin s) \<and> readOk s \<and> busyOk s \<and> othersOk s \<and> (\<exists>F. inPhase F s)"

text \<open>What is left to do before a turn is completed: every step but the last one of a turn makes it smaller.\<close>

fun eventWeight :: "nat \<Rightarrow> ServerEvent \<Rightarrow> nat" where
  "eventWeight k (ChosenPlayerEvent _ _) = 3 * k + 5"
| "eventWeight k (PlayerDecisionsSyncEvent _) = 3"
| "eventWeight k _ = 1"

fun commandWeight :: "nat \<Rightarrow> sseEvent \<Rightarrow> nat" where
  "commandWeight k (sseCommandSendServedCardsEventToAll _) = k + k * (3 * k + 5) + 2"
| "commandWeight k sseCommandSendChosenPlayerEventToAll = k * (3 * k + 5) + 1"
| "commandWeight k (sseCommandSyncPlayerDecisionEvent _) = k * 3 + 1"
| "commandWeight k _ = 0"

fun requestWeight :: "nat \<Rightarrow> Request \<Rightarrow> nat" where
  "requestWeight k (PostDecisions _) = 3 * k + 3"
| "requestWeight k _ = 2"

definition adminWeight :: "nat \<Rightarrow> Admin \<Rightarrow> nat" where
  "adminWeight k a = sum_list (map (commandWeight k) (sseControllerEvents a)) + length (callbacksDue a) + turnsDue a * (k * (3 * k + 5) + 2)"

definition clientWeight :: "nat \<Rightarrow> network \<Rightarrow> string \<Rightarrow> nat" where
  "clientWeight k s p = sum_list (map (eventWeight k) (unread s p)) + (length (asking (netClients s p)) - netTurns s p) * (3 * k + 4) +
     (if netAnswers s p = None then 0 else 1)"

definition netWeight :: "network \<Rightarrow> nat" where
  "netWeight s = (let N = dom (sseWriterForPlayer (netAdmin s)); k = card N in
     adminWeight k (netAdmin s) + sum_list (map (requestWeight k) (netRequests s)) + (\<Sum>p \<in> N. clientWeight k s p))"

text \<open>A step keeps the invariant, and completes a turn or leaves less to do.\<close>

definition goesOn :: "Table \<Rightarrow> network \<Rightarrow> network \<Rightarrow> bool" where
  "goesOn t0 s s' \<longleftrightarrow> netInv t0 s' \<and>
     (if decisionEventsCompleted (netAdmin s') = decisionEventsCompleted (netAdmin s) then netWeight s' < netWeight s
      else decisionEventsCompleted (netAdmin s') = decisionEventsCompleted (netAdmin s) + 1)"

section \<open>Steps of the network\<close>

lemma sum_singletons: "finite A \<Longrightarrow> (\<Sum>x \<in> A. {#f x#}) = image_mset f (mset_set A)"
  by (induction A rule: finite_induct) simp_all

lemma sum_but: "finite A \<Longrightarrow> (\<Sum>x \<in> A. if x = y then 0 else f x) = (\<Sum>x \<in> A - {y}. f x)"
  by (simp add: sum.If_cases Diff_eq Collect_neg_eq [symmetric])

lemma finite_players: "adminBase t0 a \<Longrightarrow> finite (dom (sseWriterForPlayer a))"
  by (simp add: adminBase_def)

text \<open>The admin sends an event.\<close>

lemma send_goesOn:
  assumes "netInv t0 s" "inPhase F s" "range_order ks (sseWriterForPlayer (netAdmin s))" "sends ks ev x (netAdmin s) a" "moves (set ks) ev x F F'"
    and "adminBase t0 a" "phase a (traffic s + (\<Sum>p \<in> set ks - {x}. mset (ackOf p ev))) F'"
    and "adminWeight (card (set ks)) a + card (set ks) * eventWeight (card (set ks)) ev < adminWeight (card (set ks)) (netAdmin s)"
  shows "goesOn t0 s (s\<lparr>netAdmin := a\<rparr>)"
proof -
  let ?s = "s\<lparr>netAdmin := a\<rparr>" and ?k = "card (set ks)"
  have w: "sseWriterForPlayer a = sseWriterForPlayer (netAdmin s)" "decisionEventsCompleted a = decisionEventsCompleted (netAdmin s)"
    "written a = written (netAdmin s) @ map (\<lambda>p. (map_get 0 (sseWriterForPlayer a) p, ev)) (filter (\<lambda>p. p \<noteq> x) ks)"
    using assms(4) by (simp_all add: sends_def sameRun_def)
  have N: "dom (sseWriterForPlayer (netAdmin s)) = set ks" using assms(3) by (auto simp: range_order_def)
  have i: "readOk s" "busyOk s" "othersOk s" "\<And>p. p \<in> set ks \<Longrightarrow> follows s p (F p)" using assms(1,2) by (auto simp: netInv_def inPhase_def N)
  have "streams ks a" using adminBase_streams [OF assms(6)] assms(3) w(1) by simp
  note u = unread_send [OF i(1) this w(1,3)]
  have "follows ?s p (F' p)" if "p \<in> set ks" for p
  proof (cases "p = x")
    case True
    then show ?thesis using i(4) [OF that] u(1) [OF that] assms(5) that by (simp add: follows_def moves_def)
  next
    case False
    then have "advance p ev (F p) = Some (F' p)" using assms(5) that by (auto simp: moves_def)
    from follows_event [OF i(4) [OF that] this] u(1) [OF that] False show ?thesis by simp
  qed
  moreover have "traffic ?s = traffic s + (\<Sum>p \<in> set ks - {x}. mset (ackOf p ev))"
  proof -
    have "(\<Sum>p \<in> set ks. mset (concat (map (ackOf p) (unread ?s p)))) =
        (\<Sum>p \<in> set ks. mset (concat (map (ackOf p) (unread s p))) + (if p = x then 0 else mset (ackOf p ev)))"
      by (rule sum.cong) (simp_all add: u(1))
    then show ?thesis by (simp add: traffic_def w(1) N sum.distrib sum_but)
  qed
  ultimately have "inPhase F' ?s" using assms(7) by (simp add: inPhase_def w(1) N)
  moreover have "busyOk ?s" "othersOk ?s" using i(2,3) by (simp_all add: busyOk_def othersOk_def w(1))
  ultimately have "netInv t0 ?s" using assms(6) u(2) by (auto simp: netInv_def)
  moreover have "netWeight ?s < netWeight s"
  proof -
    have "(\<Sum>p \<in> set ks. clientWeight ?k ?s p) \<le> (\<Sum>p \<in> set ks. clientWeight ?k s p + eventWeight ?k ev)"
      by (rule sum_mono) (simp add: clientWeight_def u(1))
    with assms(8) show ?thesis by (simp add: netWeight_def w(1) N sum.distrib Let_def)
  qed
  ultimately show ?thesis by (simp add: goesOn_def w(2))
qed

lemma control_goesOn:
  assumes "netInv t0 s" "sseControllerEvents (netAdmin s) = us @ e # vs" "range_order ks (sseWriterForPlayer (netAdmin s))"
    and "dispatchEventWithSSE srt (\<lambda>_. True) ks [] e ((netAdmin s)\<lparr>sseControllerEvents := us @ vs\<rparr>) = Some a"
  shows "goesOn t0 s (s\<lparr>netAdmin := a\<rparr>)"
proof -
  obtain F where F: "inPhase F s" using assms(1) by (auto simp: netInv_def)
  then have ph: "phase (netAdmin s) (traffic s) F" by (simp add: inPhase_def)
  have b: "adminBase t0 (netAdmin s)" using assms(1) by (simp add: netInv_def)
  have k: "streams ks (netAdmin s)" "[] \<notin> set ks" "distinct ks"
    using adminBase_streams [OF b assms(3)] assms(3) by (auto simp: streams_def range_order_def)
  note go = send_goesOn [OF assms(1) F assms(3)]
  from ph show ?thesis
  proof (cases rule: phase.cases)
    case (serve t)
    then have e: "e = sseCommandSendServedCardsEventToAll t" "us = []" "vs = []" "sseControllerEvents (netAdmin s) = [e]"
      "turnsDue (netAdmin s) = 0" using assms(2) by (auto simp: idleWith_def append_eq_Cons_conv)
    have a: "a = dispatchServedCards (\<lambda>_. True) ks ((netAdmin s)\<lparr>sseControllerEvents := []\<rparr>)" using assms(4) e by simp
    note st = serve_step(1,2,4-7) [OF serve(3,4) k(2), of ks, folded a]
    show ?thesis
    proof (rule go [OF st(1)])
      show "moves (set ks) (ServedCardsEvent (table (netAdmin s))) [] F (\<lambda>_. Idle (absTable (table (netAdmin s))))"
        unfolding serve(2) by (rule serve_step(3) [OF serve(3,4) k(2)])
      show "adminBase t0 a" using b st(1,4) by (auto simp: sends_def intro: adminBase_same)
    qed (use serve(1) st(2-6) e(1,4,5) in \<open>simp_all add: adminWeight_def\<close>)
  next
    case announce
    then have e: "e = sseCommandSendChosenPlayerEventToAll" "us = []" "vs = []" "sseControllerEvents (netAdmin s) = [e]"
      "turnsDue (netAdmin s) = 0" using assms(2) by (auto simp: idleWith_def append_eq_Cons_conv)
    have a: "a = dispatchChosenPlayer (\<lambda>_. True) ks ((netAdmin s)\<lparr>sseControllerEvents := []\<rparr>)" using assms(4) e by simp
    note st = announce_step [OF announce(3) k(1,2), folded a]
    let ?ev = "ChosenPlayerEvent (PlayerOfNextTurn (table (netAdmin s))) (decisionEventsCompleted (netAdmin s))"
    show ?thesis
    proof (rule go [OF st(1)])
      show "adminBase t0 a" using b st(1,2) by (auto simp: sends_def intro: adminBase_same)
      show "moves (set ks) ?ev [] F (\<lambda>q. if q = PlayerOfNextTurn (table (netAdmin s))
          then Asked (absTable (table (netAdmin s))) (decisionEventsCompleted (netAdmin s)) else Watch (absTable (table (netAdmin s))))"
        unfolding announce(2) by (rule st(7))
    qed (use announce(1) st(3-6,8) e(1,4,5) in \<open>simp_all add: adminWeight_def\<close>)
  next
    case (handled req g)
    then have e: "e = sseCommandSyncPlayerDecisionEvent req" "us = []" "vs = []" "sseControllerEvents (netAdmin s) = [e]"
      "turnsDue (netAdmin s) = 0" using assms(2) by (auto simp: idleWith_def append_eq_Cons_conv)
    obtain a' where st: "dispatchDecision srt (\<lambda>_. True) ks [] req ((netAdmin s)\<lparr>sseControllerEvents := []\<rparr>) = Some a'"
      "sends ks (PlayerDecisionsSyncEvent req) (DecidingPlayer req) (netAdmin s) a'" "adminBase t0 a'" "callbacksDue a' = []"
      "turnsDue a' = 0" "sseControllerEvents a' = []"
      "moves (set ks) (PlayerDecisionsSyncEvent req) (DecidingPlayer req)
         (\<lambda>q. if q = DecidingPlayer req then Idle g else Watch (absTable (table (netAdmin s)))) (\<lambda>_. Idle g)"
      "phase a' (image_mset (ackRequest (DecisionEventCounter req)) (mset_set (set ks - {DecidingPlayer req}))) (\<lambda>_. Idle g)"
      by (rule handled_step [OF handled(3,4) b assms(3)])
    have a: "a = a'" using assms(4) st(1) e by simp
    show ?thesis unfolding a
    proof (rule go [OF st(2)])
      show "moves (set ks) (PlayerDecisionsSyncEvent req) (DecidingPlayer req) F (\<lambda>_. Idle g)" unfolding handled(2) by (rule st(7))
      show "phase a' (traffic s + (\<Sum>p \<in> set ks - {DecidingPlayer req}. mset (ackOf p (PlayerDecisionsSyncEvent req)))) (\<lambda>_. Idle g)"
        using st(8) sum_singletons [of "set ks - {DecidingPlayer req}" "ackRequest (DecisionEventCounter req)"] handled(1)
        by (simp add: ackRequest_def)
    qed (use st e in \<open>simp_all add: adminWeight_def\<close>)
  qed (use assms(2) announce_step(6) k(2) in \<open>auto simp: idleWith_def\<close>)
qed

text \<open>The admin takes a request or goes on by itself.\<close>

lemma unread_admin:
  assumes "sseWriterForPlayer a = sseWriterForPlayer (netAdmin s)" "written a = written (netAdmin s)"
  shows "unread (s\<lparr>netAdmin := a, netRequests := rs, netAnswers := ans\<rparr>) = unread s"
  using assms by (simp add: fun_eq_iff unread_def streamOf_def)

lemma admin_netInv:
  fixes s :: network and a :: Admin and rs :: "Request list" and ans :: "string \<Rightarrow> HttpResult option"
  defines "s' \<equiv> s\<lparr>netAdmin := a, netRequests := rs, netAnswers := ans\<rparr>"
  assumes "netInv t0 s" "inPhase F s" "sameRun (netAdmin s) a" "table a = table (netAdmin s)" "written a = written (netAdmin s)"
    and "mset (netRequests s) = M + mset rs" "\<And>M'. traffic s = M + M' \<Longrightarrow> phase a M' F" "busyOk s'"
    and "\<And>p. ans p \<noteq> None \<Longrightarrow> netAnswers s p \<noteq> None \<or> p \<in> dom (sseWriterForPlayer a)"
  shows "netInv t0 s'"
proof -
  have w: "sseWriterForPlayer a = sseWriterForPlayer (netAdmin s)" using assms(4) by (simp add: sameRun_def)
  have u: "unread s' = unread s" unfolding s'_def using w assms(6) by (rule unread_admin)
  have "traffic s = M + traffic s'" using assms(7) by (simp add: traffic_def u) (simp add: w s'_def)
  then have "phase a (traffic s') F" by (rule assms(8))
  moreover have "follows s' p st = follows s p st" for p st by (rule follows_cong) (simp_all add: u, simp_all add: s'_def)
  ultimately have "inPhase F s'" using assms(3) w by (simp add: inPhase_def s'_def)
  moreover have "readOk s'" using assms(2,6) by (simp add: netInv_def readOk_def streamOf_def s'_def w)
  moreover have o: "othersOk s" using assms(2) by (simp add: netInv_def)
  have "length (asking (netClients s p)) = netTurns s p \<and> ans p = None" if "p \<notin> dom (sseWriterForPlayer a)" for p
    using that assms(10) [of p] o [unfolded othersOk_def, rule_format, of p] w by auto
  then have "othersOk s'" by (simp add: othersOk_def s'_def)
  moreover have "adminBase t0 a" using assms(2,4,5) by (auto simp: netInv_def intro: adminBase_same)
  ultimately show ?thesis using assms(9) by (auto simp: netInv_def s'_def)
qed

lemma traffic_request: "r \<in> set (netRequests s) \<Longrightarrow> r \<in># traffic s"
  by (simp add: traffic_def)

lemma syncing_answers: "busyOk s \<Longrightarrow> netRequests s = us @ PostAckDecisionSync m # vs \<Longrightarrow>
    busyOk (s\<lparr>netAdmin := a, netRequests := us @ vs, netAnswers := netAnswers s\<rparr>)"
  by (auto simp: busyOk_def)

lemma phase_syncingE:
  assumes "phase a M F" "PostAckDecisionSync m \<in># M \<or> callbacksDue a \<noteq> [] \<or> 0 < syncsDone a"
  obtains g n Q where "syncingAdmin g n Q a" "sseControllerEvents a = []" "turnsDue a = 0" "finite Q"
    "syncsDone a = (if Q = {} \<and> callbacksDue a = [] then 1 else 0)"
    "M = image_mset (ackRequest n) (mset_set Q)" "F = (\<lambda>_. Idle (absTable (table a)))"
  using assms(1)
proof (cases rule: phase.cases)
  case (syncing g n Q)
  then have "finite Q" by (simp add: syncingAdmin_def awaiting_def)
  with syncing that show ?thesis by blast
qed (use assms(2) announce_step(3,5) [of _ _ "{}"] in \<open>auto simp: idleWith_def calm_def\<close>)

lemma deliverAck_goesOn:
  assumes "netInv t0 s" "netRequests s = us @ PostAckDecisionSync m # vs" "handleAckPlayerDecisionSynced (Inr m) (netAdmin s) = (r, a)"
  shows "goesOn t0 s (s\<lparr>netAdmin := a, netRequests := us @ vs\<rparr>)"
proof -
  obtain F where F: "inPhase F s" using assms(1) by (auto simp: netInv_def)
  have m: "PostAckDecisionSync m \<in># traffic s" using assms(2) by (intro traffic_request) simp
  from F have "phase (netAdmin s) (traffic s) F" by (simp add: inPhase_def)
  then obtain g n Q where sy: "syncingAdmin g n Q (netAdmin s)" "sseControllerEvents (netAdmin s) = []" "turnsDue (netAdmin s) = 0"
    "finite Q" "syncsDone (netAdmin s) = (if Q = {} \<and> callbacksDue (netAdmin s) = [] then 1 else 0)"
    "traffic s = image_mset (ackRequest n) (mset_set Q)" "F = (\<lambda>_. Idle (absTable (table (netAdmin s))))"
    by (rule phase_syncingE [where m = m]) (use m in blast)+
  then obtain q where q: "q \<in> Q" "m = \<lparr>AckerPlayer = q, DecisionCounter = n\<rparr>" using m by (auto simp: ackRequest_def)
  note st = syncing_ack [OF sy(1) q(1) assms(3) [unfolded q(2)]]
  from st(2) obtain es c where a: "a = (netAdmin s)\<lparr>expectedAcksList := es, callbacksDue := callbacksDue (netAdmin s) @ [c]\<rparr>" by blast
  have ph: "phase a M' F" if "traffic s = {#ackRequest n q#} + M'" for M'
  proof -
    have "M' = image_mset (ackRequest n) (mset_set (Q - {q}))" using that sy(6) mset_set.remove [OF sy(4) q(1)] by simp
    moreover have "phase a (image_mset (ackRequest n) (mset_set (Q - {q}))) (\<lambda>_. Idle (absTable (table a)))"
      by (rule phase.syncing [OF st(1)]) (use sy(2,3,5) q(1) in \<open>auto simp: a\<close>)
    ultimately show ?thesis by (simp add: sy(7) a)
  qed
  let ?s = "s\<lparr>netAdmin := a, netRequests := us @ vs, netAnswers := netAnswers s\<rparr>"
  have e: "?s = s\<lparr>netAdmin := a, netRequests := us @ vs\<rparr>" by simp
  have "netInv t0 ?s"
  proof (rule admin_netInv [OF assms(1) F _ _ _ _ ph])
    show "mset (netRequests s) = {#ackRequest n q#} + mset (us @ vs)" by (simp add: assms(2) q(2) ackRequest_def)
    show "busyOk ?s" by (rule syncing_answers [OF _ assms(2)]) (use assms(1) in \<open>simp add: netInv_def\<close>)
  qed (simp_all add: a sameRun_def)
  moreover have "unread ?s = unread s" by (rule unread_admin) (simp_all add: a)
  then have "netWeight ?s < netWeight s"
    by (simp add: netWeight_def clientWeight_def Let_def) (simp add: a adminWeight_def assms(2))
  ultimately show ?thesis by (simp add: goesOn_def e) (simp add: a)
qed

lemma phase_postedE:
  assumes "phase a M F" "PostDecisions req \<in># M"
  obtains b ks g where "idleWith [sseCommandSendChosenPlayerEventToAll] b" "streams ks b" "goodRequest b req g"
    "a = dispatchChosenPlayer (\<lambda>_. True) ks (b\<lparr>sseControllerEvents := []\<rparr>)"
    "M = {#PostDecisions req#}" "F = (\<lambda>q. if q = DecidingPlayer req then Idle g else Watch (absTable (table b)))"
  using assms(1)
proof (cases rule: phase.cases)
  case (posted b ks req' g)
  then have "req' = req" using assms(2) by simp
  with posted that show ?thesis by blast
qed (use assms(2) in \<open>auto simp: ackRequest_def\<close>)

lemma deliverDecisions_goesOn:
  assumes "netInv t0 s" "netRequests s = us @ PostDecisions req # vs" "handlePlayerDecisionsEvent (Inr req) (netAdmin s) = (r, a)"
  shows "goesOn t0 s (s\<lparr>netAdmin := a, netRequests := us @ vs, netAnswers := (netAnswers s)(DecidingPlayer req := answerOf r)\<rparr>)"
    (is "goesOn t0 s ?s")
proof -
  obtain F where F: "inPhase F s" using assms(1) by (auto simp: netInv_def)
  have m: "PostDecisions req \<in># traffic s" using assms(2) by (intro traffic_request) simp
  from F have "phase (netAdmin s) (traffic s) F" by (simp add: inPhase_def)
  then obtain b ks g where po: "idleWith [sseCommandSendChosenPlayerEventToAll] b" "streams ks b" "goodRequest b req g"
    "netAdmin s = dispatchChosenPlayer (\<lambda>_. True) ks (b\<lparr>sseControllerEvents := []\<rparr>)"
    "traffic s = {#PostDecisions req#}" "F = (\<lambda>q. if q = DecidingPlayer req then Idle g else Watch (absTable (table b)))"
    using m by (rule phase_postedE)
  note st = posted_step [OF po(1-3) assms(3) [unfolded po(4)], folded po(4,6)]
  note an = announce_step(4-6) [OF po(1,2), of "{}", folded po(4)]
  from st(2) obtain es cs where a: "a = (netAdmin s)\<lparr>expectedAcksList := es, callbacksDue := cs,
    sseControllerEvents := [sseCommandSyncPlayerDecisionEvent req]\<rparr>" by blast
  have ans: "answerOf r = Some (HttpStatus 200)" by (simp add: st(1))
  have b: "adminBase t0 (netAdmin s)" using assms(1) by (simp add: netInv_def)
  have pN: "DecidingPlayer req \<in> dom (sseWriterForPlayer (netAdmin s))"
    using adminBase_player [OF b] po(3) announce_step(2) [OF po(1,2), of "{}", folded po(4)] b by (simp add: adminBase_def goodRequest_def)
  have bo: "busyOk s" using assms(1) by (simp add: netInv_def)
  have rq: "traffic s = mset us + (mset vs + {#PostDecisions req#}) + (traffic s - mset (netRequests s))" by (simp add: traffic_def assms(2))
  then have uv: "us = []" "vs = []" unfolding po(5) by (auto simp: union_is_single)
  have "netInv t0 ?s"
  proof (rule admin_netInv [OF assms(1) F, where M = "{#PostDecisions req#}"])
    show "phase a M' F" if "traffic s = {#PostDecisions req#} + M'" for M' using that po(5) st(4) by simp
    show "busyOk ?s" using bo assms(2) uv by (auto simp: busyOk_def ans)
    show "netAnswers s p \<noteq> None \<or> p \<in> dom (sseWriterForPlayer a)" if "((netAnswers s)(DecidingPlayer req := answerOf r)) p \<noteq> None" for p
      using that pN by (auto simp: a split: if_splits)
  qed (simp_all add: a sameRun_def assms(2))
  moreover have "unread ?s = unread s" by (rule unread_admin) (simp_all add: a)
  moreover have "netWeight ?s < netWeight s"
  proof -
    let ?N = "dom (sseWriterForPlayer (netAdmin s))"
    have fin: "finite ?N" using assms(1) finite_players by (auto simp: netInv_def)
    have "(\<Sum>p \<in> ?N. clientWeight (card ?N) ?s p) \<le> (\<Sum>p \<in> ?N. clientWeight (card ?N) s p + (if p = DecidingPlayer req then 1 else 0))"
      by (rule sum_mono) (simp add: clientWeight_def \<open>unread ?s = unread s\<close>)
    also have "\<dots> \<le> (\<Sum>p \<in> ?N. clientWeight (card ?N) s p) + 1" using fin by (simp add: sum.distrib)
    finally show ?thesis using an st(3) uv by (simp add: netWeight_def adminWeight_def assms(2) a Let_def)
  qed
  ultimately show ?thesis by (simp add: goesOn_def) (simp add: a)
qed

text \<open>The goroutines of the admin.\<close>

lemma goroutine_netInv:
  assumes "netInv t0 s" "inPhase F s" "sameRun (netAdmin s) a" "table a = table (netAdmin s)" "written a = written (netAdmin s)" "phase a (traffic s) F"
  shows "netInv t0 (s\<lparr>netAdmin := a\<rparr>)" "unread (s\<lparr>netAdmin := a\<rparr>) = unread s"
proof -
  have "netInv t0 (s\<lparr>netAdmin := a, netRequests := netRequests s, netAnswers := netAnswers s\<rparr>)"
    by (rule admin_netInv [OF assms(1-5), where M = "{#}"]) (use assms(1,6) in \<open>auto simp: netInv_def busyOk_def\<close>)
  then show "netInv t0 (s\<lparr>netAdmin := a\<rparr>)" by simp
  show "unread (s\<lparr>netAdmin := a\<rparr>) = unread s" using unread_same assms(3,5) by (simp add: sameRun_def)
qed

lemma callback_goesOn:
  assumes "netInv t0 s" "c \<in> set (callbacksDue (netAdmin s))"
  shows "goesOn t0 s (s\<lparr>netAdmin := onSyncAck c (netAdmin s)\<rparr>)"
proof -
  obtain F where F: "inPhase F s" using assms(1) by (auto simp: netInv_def)
  then have "phase (netAdmin s) (traffic s) F" by (simp add: inPhase_def)
  then obtain g n Q where sy: "syncingAdmin g n Q (netAdmin s)" "sseControllerEvents (netAdmin s) = []" "turnsDue (netAdmin s) = 0"
    "finite Q" "syncsDone (netAdmin s) = (if Q = {} \<and> callbacksDue (netAdmin s) = [] then 1 else 0)"
    "traffic s = image_mset (ackRequest n) (mset_set Q)" "F = (\<lambda>_. Idle (absTable (table (netAdmin s))))"
    by (rule phase_syncingE) (use assms(2) in auto)
  note st = syncing_callback [OF sy(1) assms(2)]
  let ?a = "onSyncAck c (netAdmin s)"
  have "remove1 c (callbacksDue (netAdmin s)) = [] \<longleftrightarrow> callbacksDue (netAdmin s) = [c]"
    using assms(2) by (cases "callbacksDue (netAdmin s)") auto
  then have "phase ?a (image_mset (ackRequest n) (mset_set Q)) (\<lambda>_. Idle (absTable (table ?a)))"
    by (intro phase.syncing [OF st(1)]) (use sy(2,3,5) assms(2) in \<open>auto simp: st(2)\<close>)
  then have "phase ?a (traffic s) F" by (simp add: sy(6,7) st(2))
  note inv = goroutine_netInv [OF assms(1) F _ _ _ this]
  have "netWeight (s\<lparr>netAdmin := ?a\<rparr>) < netWeight s"
    using length_pos_if_in_set [OF assms(2)] assms(2) inv(2)
    by (simp add: netWeight_def clientWeight_def Let_def sameRun_def st(2)) (simp add: adminWeight_def length_remove1)
  then show ?thesis using inv(1) by (simp add: goesOn_def sameRun_def st(2))
qed

lemma finish_goesOn:
  assumes "netInv t0 s" "0 < syncsDone (netAdmin s)"
  shows "goesOn t0 s (s\<lparr>netAdmin := finishSync (netAdmin s)\<rparr>)"
proof -
  obtain F where F: "inPhase F s" using assms(1) by (auto simp: netInv_def)
  then have "phase (netAdmin s) (traffic s) F" by (simp add: inPhase_def)
  then obtain g n Q where sy: "syncingAdmin g n Q (netAdmin s)" "sseControllerEvents (netAdmin s) = []" "turnsDue (netAdmin s) = 0"
    "finite Q" "syncsDone (netAdmin s) = (if Q = {} \<and> callbacksDue (netAdmin s) = [] then 1 else 0)"
    "traffic s = image_mset (ackRequest n) (mset_set Q)" "F = (\<lambda>_. Idle (absTable (table (netAdmin s))))"
    by (rule phase_syncingE) (use assms(2) in auto)
  then have Q: "Q = {}" "callbacksDue (netAdmin s) = []" "syncsDone (netAdmin s) = 1" using assms(2) by (auto split: if_splits)
  let ?a = "finishSync (netAdmin s)"
  have "calm (netAdmin s)" using syncing_done sy(1) Q(1,2) by blast
  then have "phase ?a {#} (\<lambda>_. Idle (absTable (table ?a)))"
    by (intro phase.finished) (use sy(2,3) Q(3) in \<open>simp_all add: finishSync_def calm_def freshChans_def Let_def\<close>)
  then have "phase ?a (traffic s) F" by (simp add: sy(6,7) Q(1) finishSync_def Let_def)
  then have "netInv t0 (s\<lparr>netAdmin := ?a\<rparr>)"
    by (intro goroutine_netInv [OF assms(1) F]) (simp_all add: finishSync_def sameRun_def Let_def)
  then show ?thesis by (simp add: goesOn_def finishSync_def Let_def)
qed

lemma newTurn_goesOn:
  assumes "netInv t0 s" "0 < turnsDue (netAdmin s)" "runNewTurn (netAdmin s) = Some a"
  shows "goesOn t0 s (s\<lparr>netAdmin := a\<rparr>)"
proof -
  obtain F where F: "inPhase F s" using assms(1) by (auto simp: netInv_def)
  then have "phase (netAdmin s) (traffic s) F" by (simp add: inPhase_def)
  then have fi: "calm (netAdmin s)" "state (netAdmin s) = DoneSyncingPlayerDecision" "sseControllerEvents (netAdmin s) = []"
    "syncsDone (netAdmin s) = 0" "turnsDue (netAdmin s) = 1" "traffic s = {#}" "F = (\<lambda>_. Idle (absTable (table (netAdmin s))))"
    by (cases rule: phase.cases; use assms(2) announce_step(4) [of _ _ "{}"] in \<open>force simp: idleWith_def\<close>)+
  have b: "\<not> DebugSignalNewTurnViaPrompt (userConfig (netAdmin s))" "TableState (table (netAdmin s)) \<noteq> HaveWinner"
    using assms(1) by (auto simp: netInv_def adminBase_def turnStarts_def)
  have a: "a = (setState PlayerChosenForTurn ((netAdmin s)\<lparr>turnsDue := 0\<rparr>))\<lparr>sseControllerEvents := [sseCommandSendChosenPlayerEventToAll]\<rparr>"
    using assms(3) b fi(2,3,5) by (simp add: runNewTurn_def Let_def)
  have "phase a {#} (\<lambda>_. Idle (absTable (table a)))"
    by (rule phase.announce) (use fi(1,4) in \<open>simp add: idleWith_def a calm_def freshChans_def\<close>)
  then have "phase a (traffic s) F" by (simp add: fi(6,7) a)
  note inv = goroutine_netInv [OF assms(1) F _ _ _ this]
  have "netWeight (s\<lparr>netAdmin := a\<rparr>) < netWeight s"
    using inv(2) fi(3,5) by (simp add: netWeight_def clientWeight_def Let_def sameRun_def a) (simp add: adminWeight_def)
  then show ?thesis using inv(1) by (simp add: goesOn_def sameRun_def a)
qed

text \<open>A client gets the answer to its request.\<close>

lemma answer_goesOn:
  fixes s :: network and p :: string and r :: HttpResult
  assumes "netInv t0 s" "netAnswers s p = Some r"
  defines "s' \<equiv> s\<lparr>netClients := (netClients s)(p := decisionsAnswered r (netClients s p)), netBusy := (netBusy s)(p := False),
    netAnswers := (netAnswers s)(p := None)\<rparr>"
  shows "goesOn t0 s s'"
proof -
  let ?N = "dom (sseWriterForPlayer (netAdmin s))"
  have i: "adminBase t0 (netAdmin s)" "readOk s" "busyOk s" "othersOk s" using assms(1) by (simp_all add: netInv_def)
  have "r = HttpStatus 200" "clientState (netClients s p) = WaitingForAdminToChoosePlayer" using i(3) assms(2) by (simp_all add: busyOk_def)
  then have "decisionsAnswered r (netClients s p) = netClients s p" by (simp add: decisionsAnswered_def)
  then have s': "s' = s\<lparr>netBusy := (netBusy s)(p := False), netAnswers := (netAnswers s)(p := None)\<rparr>" by (simp add: s'_def)
  have u: "unread s' = unread s" by (simp add: fun_eq_iff unread_def s')
  have "traffic s' = traffic s" by (simp add: traffic_def u) (simp add: s')
  moreover have "follows s' q st = follows s q st" for q st by (rule follows_cong) (simp_all add: u, simp_all add: s')
  moreover have "netAnswers s p \<noteq> None" using assms(2) by simp
  then have "busyOk s'" using i(3) by (auto simp: busyOk_def s')
  ultimately have "netInv t0 s'" using assms(1) by (simp add: netInv_def inPhase_def readOk_def othersOk_def) (simp add: s')
  moreover have "netWeight s' < netWeight s"
  proof -
    have "p \<in> ?N" using i(4) assms(2) by (auto simp: othersOk_def)
    then have "(\<Sum>q \<in> ?N. clientWeight (card ?N) s' q) < (\<Sum>q \<in> ?N. clientWeight (card ?N) s q)"
      by (intro sum_strict_mono_ex1) (use finite_players [OF i(1)] assms(2) in \<open>auto simp: clientWeight_def u, auto simp: s' split: if_splits\<close>)
    then show ?thesis by (simp add: netWeight_def Let_def) (simp add: s')
  qed
  ultimately show ?thesis by (simp add: goesOn_def s')
qed

text \<open>A client reads the next event of its stream.\<close>

fun asks :: "status \<Rightarrow> nat" where
  "asks (Asked _ _) = 1"
| "asks _ = 0"

lemma hasStatus_asks: "hasStatus p k c st \<Longrightarrow> length (asking c) - k = asks st"
  by (cases st) auto

lemma advance_weight:
  "advance p ev st = Some st' \<Longrightarrow>
     asks st' * (3 * k + 4) + sum_list (map (requestWeight k) (ackOf p ev)) < asks st * (3 * k + 4) + eventWeight k ev"
  by (cases "(p, ev, st)" rule: advance.cases) (auto split: if_splits option.splits prod.splits)

lemma unread_player: "unread s p \<noteq> [] \<Longrightarrow> p \<in> dom (sseWriterForPlayer (netAdmin s))"
  by (cases "sseWriterForPlayer (netAdmin s) p") (auto simp: unread_def streamOf_def)

lemma sum_one_less:
  fixes f g :: "'a \<Rightarrow> nat"
  assumes "finite A" "p \<in> A" "\<And>q. q \<in> A \<Longrightarrow> q \<noteq> p \<Longrightarrow> f q = g q" "f p + d < g p"
  shows "sum f A + d < sum g A"
proof -
  have "sum f (A - {p}) = sum g (A - {p})" using assms(3) by (intro sum.cong) auto
  then show ?thesis using assms(4) by (simp add: sum.remove [OF assms(1,2)])
qed

lemma receive_goesOn:
  fixes s :: network and p :: string and c :: PlayerClient
  assumes "netInv t0 s" "\<not> netBusy s p" "unread s p = ev # evs"
    and "handleServerEvent srt (\<lambda>_. HttpStatus 200) True ev (netClients s p) = Some c"
  defines "s' \<equiv> s\<lparr>netClients := (netClients s)(p := c), netRead := (netRead s)(p := Suc (netRead s p)),
    netRequests := netRequests s @ newRequests (netClients s p) c\<rparr>"
  shows "goesOn t0 s s'"
proof -
  let ?N = "dom (sseWriterForPlayer (netAdmin s))"
  let ?k = "card ?N"
  obtain F where F: "phase (netAdmin s) (traffic s) F" "\<And>q. q \<in> ?N \<Longrightarrow> follows s q (F q)"
    using assms(1) by (auto simp: netInv_def inPhase_def)
  have i: "adminBase t0 (netAdmin s)" "readOk s" "busyOk s" "othersOk s" using assms(1) by (simp_all add: netInv_def)
  have p: "p \<in> ?N" using assms(3) by (intro unread_player) simp
  note fin = finite_players [OF i(1)]
  note a = follows_receive(2) [OF F(2) [OF p] assms(3,4)]
  note r = follows_receive(1,3-6) [OF F(2) [OF p] assms(3,4), where rs = "netRequests s @ newRequests (netClients s p) c", folded s'_def]
  have fl: "follows s' q (F q)" if "q \<in> ?N" for q using r(1,3) F(2) [OF that] by (cases "q = p") simp_all
  have tr: "traffic s' = traffic s"
  proof -
    let ?f = "\<lambda>s q. mset (concat (map (ackOf q) (unread s q)))"
    have "sum (?f s') (?N - {p}) = sum (?f s) (?N - {p})" by (rule sum.cong) (simp_all add: r(4))
    then have "sum (?f s) ?N = mset (ackOf p ev) + sum (?f s') ?N" by (simp add: sum.remove [OF fin p] r(2) assms(3))
    then show ?thesis by (simp add: traffic_def) (simp add: s'_def a)
  qed
  have np: "PostDecisions req \<notin> set (ackOf p ev)" for req by (cases ev) simp_all
  have "busyOk s'" using i(3) assms(2) np by (auto simp: busyOk_def s'_def a)
  moreover have "othersOk s'" using i(4) p by (auto simp: othersOk_def s'_def)
  ultimately have inv: "netInv t0 s'" using i(1) r(5) [OF i(2)] fl F(1) tr by (auto simp: netInv_def inPhase_def) (auto simp: s'_def)
  obtain st0 st1 where st: "hasStatus p (netTurns s p) (netClients s p) st0" "advance p ev st0 = Some st1"
    using F(2) [OF p] assms(3) by (auto simp: follows_def bind_eq_Some_conv)
  note as = hasStatus_asks [OF st(1)] hasStatus_asks [OF conjunct1 [OF advance_ok [OF st assms(4)]]]
  have "clientWeight ?k s' p + sum_list (map (requestWeight ?k) (ackOf p ev)) < clientWeight ?k s p"
    using advance_weight [OF st(2), of ?k] as by (simp add: clientWeight_def r(2) assms(3)) (auto simp: s'_def)
  moreover have "clientWeight ?k s' q = clientWeight ?k s q" if "q \<noteq> p" for q
    using that by (simp add: clientWeight_def r(4)) (simp add: s'_def)
  ultimately have "(\<Sum>q \<in> ?N. clientWeight ?k s' q) + sum_list (map (requestWeight ?k) (ackOf p ev)) < (\<Sum>q \<in> ?N. clientWeight ?k s q)"
    by (intro sum_one_less [OF fin p]) simp_all
  then have "netWeight s' < netWeight s" by (simp add: netWeight_def Let_def) (simp add: s'_def a)
  with inv show ?thesis by (simp add: goesOn_def s'_def)
qed

text \<open>A user finishes a turn.\<close>

lemma phase_askE:
  assumes "phase a M F" "F p = Asked g n"
  obtains b ks where "idleWith [sseCommandSendChosenPlayerEventToAll] b" "streams ks b" "p = PlayerOfNextTurn (table b)"
    "a = dispatchChosenPlayer (\<lambda>_. True) ks (b\<lparr>sseControllerEvents := []\<rparr>)" "table a = table b"
    "M = {#}" "n = decisionEventsCompleted b" "g = absTable (table b)"
    "F = (\<lambda>q. if q = p then Asked (absTable (table b)) n else Watch (absTable (table b)))"
  using assms(1)
proof (cases rule: phase.cases)
  case (ask b ks)
  then have "p = PlayerOfNextTurn (table b)" "n = decisionEventsCompleted b" "g = absTable (table b)" using assms(2) by (auto split: if_splits)
  with ask announce_step(2) [OF ask(4,5), of "{}"] that show ?thesis by blast
qed (use assms(2) in \<open>auto split: if_splits\<close>)

lemma decide_goesOn:
  fixes s :: network and p :: string and c :: PlayerClient
  assumes "netInv t0 s" "\<not> netBusy s p" "asking (netClients s p) = ns @ n # ms" "length ns = netTurns s p"
    and "decides srt cmds (netClients s p)" "postUserDecisions srt cmds n (netClients s p) = Some (True, c)"
  defines "s' \<equiv> s\<lparr>netClients := (netClients s)(p := c), netTurns := (netTurns s)(p := Suc (netTurns s p)),
    netBusy := (netBusy s)(p := True), netRequests := netRequests s @ newRequests (netClients s p) c\<rparr>"
  shows "goesOn t0 s s'"
proof -
  let ?N = "dom (sseWriterForPlayer (netAdmin s))" and ?t = "table (netAdmin s)"
  let ?k = "card ?N"
  obtain F where F: "phase (netAdmin s) (traffic s) F" "\<And>q. q \<in> ?N \<Longrightarrow> follows s q (F q)"
    using assms(1) by (auto simp: netInv_def inPhase_def)
  have i: "adminBase t0 (netAdmin s)" "readOk s" "busyOk s" "othersOk s" using assms(1) by (simp_all add: netInv_def)
  have p: "p \<in> ?N" using i(4) assms(3,4) by (force simp: othersOk_def)
  from follows_Asked [OF F(2) [OF p] assms(3,4)] obtain g where g: "unread s p = []" "F p = Asked g n" by blast
  obtain b ks where b: "idleWith [sseCommandSendChosenPlayerEventToAll] b" "streams ks b" "p = PlayerOfNextTurn (table b)"
    "netAdmin s = dispatchChosenPlayer (\<lambda>_. True) ks (b\<lparr>sseControllerEvents := []\<rparr>)" "?t = table b" "traffic s = {#}"
    "n = decisionEventsCompleted b" "g = absTable (table b)"
    "F = (\<lambda>q. if q = p then Asked (absTable (table b)) n else Watch (absTable (table b)))" by (rule phase_askE [OF F(1) g(2)])
  have "hasStatus p (netTurns s p) (netClients s p) (Asked g n)" using follows_unread [OF F(2) [OF p] g(1)] g(2) by simp
  then have c: "inStep ?t p (netClients s p)" "length (asking (netClients s p)) = Suc (netTurns s p)"
    by (auto simp: inStep_def inGame_def b(5,8))
  have "p \<in> set (PlayerNames ?t)" using p i(1) adminBase_names [OF i(1)] by (simp add: adminBase_def)
  then obtain ds url where d: "sentRequests c = sentRequests (netClients s p) @ [(url, PostDecisions \<lparr>Decisions = ds, DecidingPlayer = p, DecisionEventCounter = n\<rparr>)]"
    "\<forall>d \<in> set ds. okDecision d" "tables.rules p ds (absTable ?t) = (None, absTable (ctable c))" "localName c = p"
    "clientState c = WaitingForAdminToChoosePlayer" "wf_game (ctable c)" "asking c = asking (netClients s p)"
    "\<not> NeedMoreUserDecisionToFinishTurn (ctable c)"
    by (rule post_stage [OF c(1) _ assms(5) refl refl, of n]) (use assms(6) in auto)
  define req where "req = \<lparr>Decisions = ds, DecidingPlayer = p, DecisionEventCounter = n\<rparr>"
  have rq: "newRequests (netClients s p) c = [PostDecisions req]" by (simp add: newRequests_def d(1) req_def)
  let ?F = "\<lambda>q. if q = DecidingPlayer req then Idle (absTable (ctable c)) else Watch (absTable (table b))"
  have "gPhase (absTable ?t) \<noteq> HaveWinner" using i(1) by (auto simp: adminBase_def turnStarts_def)
  then have "TableState (ctable c) \<noteq> HaveWinner" using rules_no_winner [OF _ d(3)] absTable_sel(8) by metis
  then have "turnStarts (TableState (ctable c))"
    using d(8) by (cases "TableState (ctable c)") (simp_all add: turnStarts_def NeedMoreUserDecisionToFinishTurn_def)
  then have "goodRequest b req (absTable (ctable c))" using d(2,3) b(3,5,7) by (simp add: goodRequest_def req_def)
  then have ph: "phase (netAdmin s) {#PostDecisions req#} ?F" unfolding b(4) by (rule phase.posted [OF b(1,2)])
  have u: "unread s' = unread s" by (simp add: fun_eq_iff unread_def s'_def)
  have "follows s' q (?F q)" if "q \<in> ?N" for q
  proof (cases "q = p")
    case True
    have "hasStatus p (netTurns s' p) (netClients s' p) (Idle (absTable (ctable c)))" using c(2) d(4-7) by (simp add: inGame_def s'_def)
    then show ?thesis using g(1) True by (auto simp: follows_def u req_def)
  next
    case False
    have "follows s' q (F q) = follows s q (F q)" by (rule follows_cong) (use False in \<open>simp_all add: u, simp_all add: s'_def\<close>)
    then show ?thesis using F(2) [OF that] False by (simp add: b(9) req_def)
  qed
  moreover have "traffic s' = {#PostDecisions req#}" using b(6) by (simp add: traffic_def u) (simp add: s'_def rq)
  moreover have a: "netAdmin s' = netAdmin s" by (simp add: s'_def)
  ultimately have pf: "inPhase ?F s'" using ph unfolding inPhase_def a by (intro conjI ballI) simp_all
  have "netRequests s = []" using b(6) by (simp add: traffic_def)
  moreover have "netAnswers s p = None" using i(3) assms(2) by (cases "netAnswers s p") (auto simp: busyOk_def)
  ultimately have "busyOk s'" using i(3) d(5) by (auto simp: busyOk_def s'_def rq req_def)
  moreover have "othersOk s'" "readOk s'" using i(2,4) p by (auto simp: othersOk_def readOk_def s'_def)
  ultimately have "netInv t0 s'" using i(1) pf by (auto simp: netInv_def s'_def)
  moreover have "(\<Sum>q \<in> ?N. clientWeight ?k s' q) + sum_list (map (requestWeight ?k) [PostDecisions req]) < (\<Sum>q \<in> ?N. clientWeight ?k s q)"
    by (rule sum_one_less [OF finite_players [OF i(1)] p]) (use c(2) d(7) in \<open>auto simp: clientWeight_def u, auto simp: s'_def\<close>)
  then have "netWeight s' < netWeight s" by (simp add: netWeight_def Let_def) (simp add: s'_def rq)
  ultimately show ?thesis by (simp add: goesOn_def s'_def)
qed

text \<open>All steps.\<close>

lemma netStep_goesOn: "netStep s s' \<Longrightarrow> netInv t0 s \<Longrightarrow> goesOn t0 s s'"
proof (induction rule: netStep.induct)
  case (control s us e vs ks srt a)
  then show ?case using control_goesOn by blast
next
  case (receive s p ev evs srt c)
  then show ?case using receive_goesOn by blast
next
  case (decide s p ns n ms srt cmds c)
  then show ?case using decide_goesOn by blast
qed (blast intro: deliverDecisions_goesOn deliverAck_goesOn answer_goesOn callback_goesOn finish_goesOn newTurn_goesOn)+

section \<open>Runs\<close>

text \<open>The admin has dealt and everybody waits for the cards; no turn is under way.\<close>

definition readyNetwork :: "session \<Rightarrow> bool" where
  "readyNetwork r \<longleftrightarrow> readySession r \<and> syncsDone (fst r) = 0 \<and> turnsDue (fst r) = 0 \<and> joinTasks (fst r) = []"

lemma start_netInv:
  assumes "readyNetwork r"
  shows "netInv (table (fst r)) (startNetwork r)"
proof -
  obtain a cs where r: "r = (a, cs)" by fastforce
  let ?s = "startNetwork r"
  have i: "calm a" "sseControllerEvents a = [sseCommandSendServedCardsEventToAll (table a)]" "\<not> DebugSignalNewTurnViaPrompt (userConfig a)"
    "wf_game (table a)" "TableState (table a) = StartOfTurn" "WinnerPlayerName (table a) = []" "RequiredNumberBeforeWild4 (table a) = 0"
    "dom (sseWriterForPlayer a) = set (PlayerNames (table a))" "inj_on (sseWriterForPlayer a) (set (PlayerNames (table a)))"
    "[] \<notin> set (PlayerNames (table a))" "2 \<le> length (PlayerNames (table a))" "syncsDone a = 0" "turnsDue a = 0" "joinTasks a = []"
    "\<forall>p \<in> set (PlayerNames (table a)). clientState (cs p) = WaitingForAdminToServeCards \<and> (\<exists>srt. ctable (cs p) = NewTable srt p)"
    using assms by (simp_all add: r readyNetwork_def readySession_def)
  have s: "netAdmin ?s = a" "netClients ?s = cs" "netRequests ?s = []" "netAnswers ?s = (\<lambda>_. None)" "netBusy ?s = (\<lambda>_. False)"
    "netTurns ?s = (\<lambda>p. length (asking (cs p)))" by (simp_all add: startNetwork_def r)
  have u: "unread ?s p = []" for p by (simp add: unread_def startNetwork_def r)
  have "idleWith [sseCommandSendServedCardsEventToAll (table a)] a" using i by (simp add: idleWith_def)
  then have "phase a {#} (\<lambda>_. Fresh)" by (rule phase.serve) (use i in \<open>simp add: freshTable_def\<close>)
  moreover have "follows ?s p Fresh" if "p \<in> set (PlayerNames (table a))" for p
    using i(15) that by (simp add: follows_def u s exI [where x = Fresh])
  ultimately have "inPhase (\<lambda>_. Fresh) ?s" by (simp add: inPhase_def traffic_def u s i(8))
  moreover have "adminBase (table a) a" "readOk ?s" using i by (simp_all add: adminBase_def turnStarts_def calm_def readOk_def startNetwork_def r)
  moreover have "busyOk ?s" "othersOk ?s" by (simp_all add: busyOk_def othersOk_def s)
  ultimately show ?thesis unfolding netInv_def s(1) by (auto simp: r)
qed

interpretation networks: invariant_system "\<lambda>s. \<exists>r. readyNetwork r \<and> table (fst r) = t0 \<and> s = startNetwork r" netStep "netInv t0" for t0
  using start_netInv netStep_goesOn by unfold_locales (auto simp: goesOn_def)

lemma reachable_netInv: "readyNetwork r \<Longrightarrow> netStep\<^sup>*\<^sup>* (startNetwork r) s \<Longrightarrow> netInv (table (fst r)) s"
  by (rule networks.reachable_inv) blast+

text \<open>Between two turns only so many steps are possible.\<close>

lemma steps_weight:
  assumes "(netStep ^^ m) s s'" "netInv t0 s"
  shows "decisionEventsCompleted (netAdmin s) \<le> decisionEventsCompleted (netAdmin s') \<and>
    (decisionEventsCompleted (netAdmin s') = decisionEventsCompleted (netAdmin s) \<longrightarrow> m + netWeight s' \<le> netWeight s)"
  using assms(1)
proof (induction m arbitrary: s')
  case (Suc m)
  then obtain x where x: "(netStep ^^ m) s x" "netStep x s'" by auto
  have "netInv t0 x" using networks.steps_inv [OF relpowp_imp_rtranclp [OF x(1)] assms(2)] .
  with netStep_goesOn [OF x(2)] have g: "if decisionEventsCompleted (netAdmin s') = decisionEventsCompleted (netAdmin x)
      then netWeight s' < netWeight x else decisionEventsCompleted (netAdmin s') = decisionEventsCompleted (netAdmin x) + 1"
    unfolding goesOn_def by blast
  show ?case using g Suc.IH [OF x(1)] by (cases "decisionEventsCompleted (netAdmin s') = decisionEventsCompleted (netAdmin x)") auto
qed simp

text \<open>A command that is turned into a decision the rules accept.\<close>

lemma evalReplCommand_accepts:
  assumes "wf_game (ctable c)" "localName c \<in> set (PlayerNames (ctable c))" "commandDecision cmd (ctable c) = Some (Inr d)" "okDecision d"
    and "ruleStep (localName c) d (absTable (ctable c)) = (None, g)"
  obtains d' c' where "evalReplCommandOnTable srt cmd c = Some ((d', None), c')" "stepOk (ctable c) (ctable c')" "absTable (ctable c') = g"
proof -
  obtain d' e ch t where "EvalPlayerDecision srt (localName c) d (gameEvents c) (ctable c) = Some ((d', e), ch, t)"
    "stepOk (ctable c) t" "(e, absTable t) = ruleStep (localName c) d (absTable (ctable c))"
    using EvalPlayerDecision_step [OF assms(1,2,4)] by blast
  then show ?thesis using assms(3,5) by (intro that [of d' "c\<lparr>ctable := t, gameEvents := ch\<rparr>"]) (simp_all add: evalReplCommandOnTable_def)
qed

text \<open>Four cards are enough to finish a turn: by drawing and passing, or by not challenging.\<close>

lemma draw_shows_no_win:
  assumes "evalReplCommandOnTable srt (NewReplCommand CmdDrawCard p) c = Some (r, c')" "\<not> winShown c"
  shows "\<not> winShown c'"
  using assms by (auto simp: evalReplCommandOnTable_def commandDecision_def NewReplCommand_def decisionOf_def EvalPlayerDecision_def
    evalPullFromDeck_def pullCardFromDeckToPlayerHand_def winShown_def Let_def Option.bind_eq_Some_conv
    split: option.splits if_splits prod.splits)

lemma uiTakes_one: "\<not> winShown c \<Longrightarrow> uiTakes srt [cmd] c"
  by (simp add: uiTakes_def)

lemma can_finish:
  assumes "\<not> winShown c" "wf_game (ctable c)" "localName c \<in> set (PlayerNames (ctable c))" "turnStarts (TableState (ctable c))" "4 \<le> length (DrawDeck (ctable c))"
  shows "\<exists>cmds. decides srt cmds c \<and> uiTakes srt cmds c"
proof (cases "TableState (ctable c) = StartOfTurn")
  case True
  let ?draw = "NewReplCommand CmdDrawCard (localName c)" and ?pass = "NewReplCommand CmdPass (localName c)"
  let ?g = "absTable (ctable c)" and ?pull = "decisionOf PlayerDecisionPullFromDeck"
  have deck: "gDeck ?g \<noteq> []" using assms(5) by auto
  have r1: "ruleStep (localName c) ?pull ?g = (None, (giveCards 1 (localName c) ?g)\<lparr>gPhase := AwaitingDropOrPass\<rparr>)"
    using True deck by (simp add: ruleStep_def decisionOf_def)
  obtain d1 c1 where c1: "evalReplCommandOnTable srt ?draw c = Some ((d1, None), c1)" "stepOk (ctable c) (ctable c1)"
    "absTable (ctable c1) = (giveCards 1 (localName c) ?g)\<lparr>gPhase := AwaitingDropOrPass\<rparr>"
    by (rule evalReplCommand_accepts [OF assms(2,3) _ _ r1, where cmd = ?draw])
      (simp_all add: commandDecision_def NewReplCommand_def okDecision_def decisionOf_def)
  have t1: "wf_game (ctable c1)" "localName c1 = localName c" "localName c1 \<in> set (PlayerNames (ctable c1))"
    using stepOkD [OF c1(2)] assms(3) by simp_all
  have s1: "TableState (ctable c1) = AwaitingDropOrPass" using arg_cong [OF c1(3), of gPhase] by simp
  let ?p = "decisionOf PlayerDecisionPass"
  have r2: "ruleStep (localName c1) ?p (absTable (ctable c1)) = (None, turnTo 1 (localName c1) StartOfTurn (absTable (ctable c1)))"
    using s1 by (simp add: ruleStep_def decisionOf_def)
  obtain d2 c2 where c2: "evalReplCommandOnTable srt ?pass c1 = Some ((d2, None), c2)"
    "absTable (ctable c2) = turnTo 1 (localName c1) StartOfTurn (absTable (ctable c1))"
    by (rule evalReplCommand_accepts [OF t1(1,3) _ _ r2, where cmd = ?pass])
      (simp_all add: commandDecision_def NewReplCommand_def okDecision_def decisionOf_def)
  have "TableState (ctable c2) = StartOfTurn" using arg_cong [OF c2(2), of gPhase] by (simp add: turnTo_def)
  with s1 c1(1) c2(1) have "decides srt [?draw, ?pass] c"
    by (simp add: decides_def okCommand_def NeedMoreUserDecisionToFinishTurn_def NewReplCommand_def Let_def)
  moreover have "uiTakes srt [?draw, ?pass] c"
    using assms(1) c1(1) draw_shows_no_win [OF c1(1) assms(1)] by (auto simp: uiTakes_def less_Suc_eq Let_def)
  ultimately show ?thesis by blast
next
  case False
  then have ph: "TableState (ctable c) = AwaitingWildDraw4ChallengeDecision" using assms(4) by (simp add: turnStarts_def)
  let ?cmd = "NewReplCommand CmdNoChallenge (localName c)" and ?g = "absTable (ctable c)"
  let ?d = "(decisionOf PlayerDecisionDontChallenge)\<lparr>WildCardChosenColor := RequiredColorOfCurrentTurn (ctable c)\<rparr>"
  have r1: "ruleStep (localName c) ?d ?g = (None, turnTo 1 (localName c) StartOfTurn (giveCards 4 (localName c) ?g))"
    using ph assms(5) by (simp add: ruleStep_def decisionOf_def drawFour_def)
  obtain d1 c1 where c1: "evalReplCommandOnTable srt ?cmd c = Some ((d1, None), c1)"
    "absTable (ctable c1) = turnTo 1 (localName c) StartOfTurn (giveCards 4 (localName c) ?g)"
    by (rule evalReplCommand_accepts [OF assms(2,3) _ _ r1, where cmd = ?cmd])
      (simp_all add: commandDecision_def NewReplCommand_def okDecision_def decisionOf_def)
  have "TableState (ctable c1) = StartOfTurn" using arg_cong [OF c1(2), of gPhase] by (simp add: turnTo_def)
  with c1(1) have "decides srt [?cmd] c"
    by (simp add: decides_def okCommand_def NeedMoreUserDecisionToFinishTurn_def NewReplCommand_def Let_def)
  with uiTakes_one [OF assms(1)] show ?thesis by blast
qed

text \<open>Users who are asked can finish.\<close>

definition usersFinish :: "network \<Rightarrow> bool" where
  "usersFinish s \<longleftrightarrow> (\<forall>p ns n. asking (netClients s p) = ns @ [n] \<longrightarrow> length ns = netTurns s p \<longrightarrow>
     (\<exists>srt cmds. decides srt cmds (netClients s p) \<and> uiTakes srt cmds (netClients s p)))"

lemma deck_usersFinish:
  assumes "netInv t0 s" "4 \<le> length (DrawDeck (table (netAdmin s)))" "\<forall>p \<in> set (PlayerNames t0). \<not> winShown (netClients s p)"
  shows "usersFinish s"
  unfolding usersFinish_def
proof (intro allI impI)
  fix p ns n assume a: "asking (netClients s p) = ns @ [n]" "length ns = netTurns s p"
  obtain F where F: "phase (netAdmin s) (traffic s) F" "\<And>q. q \<in> dom (sseWriterForPlayer (netAdmin s)) \<Longrightarrow> follows s q (F q)"
    using assms(1) by (auto simp: netInv_def inPhase_def)
  have b: "adminBase t0 (netAdmin s)" "othersOk s" using assms(1) by (simp_all add: netInv_def)
  have p: "p \<in> dom (sseWriterForPlayer (netAdmin s))" using b(2) a by (force simp: othersOk_def)
  from follows_Asked [OF F(2) [OF p] a] obtain g where g: "unread s p = []" "F p = Asked g n" by blast
  have "g = absTable (table (netAdmin s))" by (rule phase_askE [OF F(1) g(2)]) simp
  then have c: "localName (netClients s p) = p" "wf_game (ctable (netClients s p))" "absTable (ctable (netClients s p)) = absTable (table (netAdmin s))"
    using follows_unread [OF F(2) [OF p] g(1)] g(2) by (auto simp: inGame_def)
  have d: "DrawDeck (ctable (netClients s p)) = DrawDeck (table (netAdmin s))" using arg_cong [OF c(3), of gDeck] by simp
  have ph: "TableState (ctable (netClients s p)) = TableState (table (netAdmin s))" using arg_cong [OF c(3), of gPhase] by simp
  have "PlayerNames (ctable (netClients s p)) = PlayerNames t0" using arg_cong [OF c(3), of gNames] adminBase_names [OF b(1)] by simp
  moreover have "\<not> winShown (netClients s p)" using b(1) p assms(3) by (simp add: adminBase_def)
  ultimately have "\<exists>cmds. decides (\<lambda>_. []) cmds (netClients s p) \<and> uiTakes (\<lambda>_. []) cmds (netClients s p)"
    using b(1) p assms(2) by (intro can_finish [OF _ c(2)]) (simp_all add: c(1) d ph adminBase_def)
  then show "\<exists>srt cmds. decides srt cmds (netClients s p) \<and> uiTakes srt cmds (netClients s p)" by blast
qed

lemma client_enabled:
  assumes "netInv t0 s" "follows s p st" "unread s p \<noteq> [] \<or> netBusy s p" "\<And>req. PostDecisions req \<notin> set (netRequests s)"
  shows "\<exists>s'. netStep s s'"
proof (cases "netBusy s p")
  case True
  then obtain r where "netAnswers s p = Some r" using assms(1,4) by (force simp: netInv_def busyOk_def)
  then show ?thesis by (blast intro: netStep.answer)
next
  case False
  with assms(3) obtain ev evs where ev: "unread s p = ev # evs" by (cases "unread s p") auto
  with assms(2) obtain st0 st1 where "hasStatus p (netTurns s p) (netClients s p) st0" "advance p ev st0 = Some st1"
    by (auto simp: follows_def bind_eq_Some_conv)
  from advance_enabled [OF this] False ev show ?thesis by (blast intro: netStep.receive)
qed

lemma control_enabled:
  assumes "netInv t0 s" "sseControllerEvents (netAdmin s) = [e]"
    and "\<And>ks. range_order ks (sseWriterForPlayer (netAdmin s)) \<Longrightarrow>
      \<exists>srt a. dispatchEventWithSSE srt (\<lambda>_. True) ks [] e ((netAdmin s)\<lparr>sseControllerEvents := []\<rparr>) = Some a"
  shows "\<exists>s'. netStep s s'"
proof -
  have b: "adminBase t0 (netAdmin s)" using assms(1) by (simp add: netInv_def)
  obtain ks where ks: "range_order ks (sseWriterForPlayer (netAdmin s))"
    using finite_distinct_list [OF finite_players [OF b]] by (auto simp: range_order_def)
  obtain srt a where "dispatchEventWithSSE srt (\<lambda>_. True) ks [] e ((netAdmin s)\<lparr>sseControllerEvents := [] @ []\<rparr>) = Some a"
    using assms(3) [OF ks] unfolding append_Nil by blast
  with netStep.control [of s "[]" e "[]", OF _ _ _ ks this] b assms(2) show ?thesis by (auto simp: adminBase_def)
qed

lemma ask_enabled:
  assumes "netInv t0 s" "usersFinish s" "phase (netAdmin s) (traffic s) F" "F p = Asked g n" "p \<in> dom (sseWriterForPlayer (netAdmin s))"
    and "follows s p (F p)"
  shows "\<exists>s'. netStep s s'"
proof (cases "unread s p \<noteq> [] \<or> netBusy s p")
  case True
  have "traffic s = {#}" by (rule phase_askE [OF assms(3,4)])
  then show ?thesis using client_enabled [OF assms(1,6) True] by (simp add: traffic_def)
next
  case False
  then have u: "unread s p = []" "\<not> netBusy s p" by simp_all
  have "hasStatus p (netTurns s p) (netClients s p) (Asked g n)" using follows_unread [OF assms(6) u(1)] assms(4) by simp
  then obtain ns where c: "inGame p g (netClients s p)" "clientState (netClients s p) = WaitingForAdminToChoosePlayer"
    "asking (netClients s p) = ns @ n # []" "length ns = netTurns s p" by auto
  then obtain srt cmds where d: "decides srt cmds (netClients s p)" "uiTakes srt cmds (netClients s p)"
    using assms(2) unfolding usersFinish_def by blast
  let ?t = "table (netAdmin s)"
  have "g = absTable ?t" by (rule phase_askE [OF assms(3,4)]) simp
  then have "inStep ?t p (netClients s p)" using c(1,2) by (simp add: inStep_def inGame_def)
  moreover have "p \<in> set (PlayerNames ?t)"
    using assms(1,5) adminBase_names [of t0 "netAdmin s"] by (simp add: netInv_def adminBase_def)
  ultimately obtain c' where "postUserDecisions srt cmds n (netClients s p) = Some (True, c')"
    using post_stage [OF _ _ d(1) refl refl, of ?t p n] by metis
  with u(2) c(3,4) d show ?thesis by (blast intro: netStep.decide)
qed

lemma syncing_enabled:
  assumes "netInv t0 s" "inPhase F s" "traffic s = image_mset (ackRequest n) (mset_set Q)" "q \<in> Q" "finite Q"
  shows "\<exists>s'. netStep s s'"
proof (cases "netRequests s")
  case Nil
  have "ackRequest n q \<in># traffic s" using assms(3-5) by simp
  then obtain p where p: "p \<in> dom (sseWriterForPlayer (netAdmin s))" "ackRequest n q \<in> set (concat (map (ackOf p) (unread s p)))"
    using finite_players [of t0 "netAdmin s"] assms(1) Nil by (auto simp: traffic_def netInv_def set_mset_sum)
  then have "unread s p \<noteq> []" "follows s p (F p)" using assms(2) by (auto simp: inPhase_def)
  then show ?thesis using client_enabled [OF assms(1)] Nil by auto
next
  case (Cons r rs)
  then have "r \<in># traffic s" by (intro traffic_request) simp
  then obtain x where "r = ackRequest n x" using assms(3,5) by auto
  moreover obtain y a where "handleAckPlayerDecisionSynced (Inr \<lparr>AckerPlayer = x, DecisionCounter = n\<rparr>) (netAdmin s) = (y, a)" by fastforce
  ultimately show ?thesis using netStep.deliverAck [of s "[]"] Cons unfolding ackRequest_def append_Nil by blast
qed

lemma traffic_decisions:
  assumes "adminBase t0 (netAdmin s)" "PostDecisions req \<in># traffic s"
  shows "PostDecisions req \<in> set (netRequests s)"
proof -
  have "PostDecisions req \<notin> set (ackOf p ev)" for p ev by (cases ev) simp_all
  then show ?thesis using assms(2) finite_players [OF assms(1)] by (auto simp: traffic_def set_mset_sum)
qed

lemma netInv_enabled:
  assumes "netInv t0 s" "usersFinish s"
  shows "\<exists>s'. netStep s s'"
proof -
  obtain F where F: "inPhase F s" using assms(1) by (auto simp: netInv_def)
  then have ph: "phase (netAdmin s) (traffic s) F" by (simp add: inPhase_def)
  have b: "adminBase t0 (netAdmin s)" using assms(1) by (simp add: netInv_def)
  have m: "\<not> mutexHeld (netAdmin s)" using b by (simp add: adminBase_def)
  from ph show ?thesis
  proof (cases rule: phase.cases)
    case (serve t)
    then show ?thesis by (intro control_enabled [OF assms(1)]) (auto simp: idleWith_def)
  next
    case announce
    then show ?thesis by (intro control_enabled [OF assms(1)]) (auto simp: idleWith_def)
  next
    case (ask a ks)
    let ?p = "PlayerOfNextTurn (table a)"
    have "?p \<in> dom (sseWriterForPlayer (netAdmin s))"
      using adminBase_player [OF b] b announce_step(2) [OF ask(4,5), of "{}"] ask(1) by (simp add: adminBase_def)
    moreover from this have "follows s ?p (F ?p)" using F unfolding inPhase_def by blast
    moreover have "F ?p = Asked (absTable (table a)) (decisionEventsCompleted a)" by (simp add: ask(3))
    ultimately show ?thesis using ask_enabled [OF assms ph] by blast
  next
    case (posted a ks req g)
    then have "PostDecisions req \<in> set (netRequests s)" using traffic_decisions [OF b] by simp
    then obtain us vs where "netRequests s = us @ PostDecisions req # vs" by (meson split_list)
    moreover obtain r a' where "handlePlayerDecisionsEvent (Inr req) (netAdmin s) = (r, a')" by fastforce
    ultimately show ?thesis by (blast intro: netStep.deliverDecisions)
  next
    case (handled req g)
    show ?thesis
    proof (rule control_enabled [OF assms(1)])
      show "sseControllerEvents (netAdmin s) = [sseCommandSyncPlayerDecisionEvent req]" using handled(3) by (simp add: idleWith_def)
      show "\<exists>srt a. dispatchEventWithSSE srt (\<lambda>_. True) ks [] (sseCommandSyncPlayerDecisionEvent req) ((netAdmin s)\<lparr>sseControllerEvents := []\<rparr>) = Some a"
        if "range_order ks (sseWriterForPlayer (netAdmin s))" for ks
        by (rule handled_step [OF handled(3,4) b that]) auto
    qed
  next
    case (syncing g n Q)
    then have fin: "finite Q" by (simp add: syncingAdmin_def awaiting_def)
    consider (due) "callbacksDue (netAdmin s) \<noteq> []" | (acks) "Q \<noteq> {}" | (finish) "syncsDone (netAdmin s) = 1" using syncing(6) by (auto split: if_splits)
    then show ?thesis
    proof cases
      case due
      then have "hd (callbacksDue (netAdmin s)) \<in> set (callbacksDue (netAdmin s))" by simp
      then show ?thesis by (blast intro: netStep.callback)
    next
      case acks
      then show ?thesis using syncing_enabled [OF assms(1) F syncing(1) _ fin] by blast
    next
      case finish
      then show ?thesis using netStep.finish [OF m] by auto
    qed
  next
    case finished
    then have "runNewTurn (netAdmin s) \<noteq> None" by (simp add: runNewTurn_def Let_def)
    then obtain a where "runNewTurn (netAdmin s) = Some a" by blast
    with netStep.newTurn [OF m _ this] finished show ?thesis by auto
  qed
qed

text \<open>The table of a client that has read its stream.\<close>

lemma follows_table:
  assumes "follows s p st" "unread s p = []" "clientState (netClients s p) \<noteq> WaitingForAdminToServeCards" "st \<in> {Fresh, Idle g, Watch g, Asked g n}"
  shows "wf_game (ctable (netClients s p)) \<and> absTable (ctable (netClients s p)) = g"
proof -
  have "hasStatus p (netTurns s p) (netClients s p) st" using follows_unread [OF assms(1,2)] .
  with assms(3,4) show ?thesis by (auto simp: inGame_def)
qed

lemma netInv_tables:
  assumes "netInv t0 s" "p \<in> set (PlayerNames t0)" "unread s p = []" "clientState (netClients s p) \<noteq> WaitingForAdminToServeCards"
  shows "wf_game (ctable (netClients s p)) \<and> (absTable (ctable (netClients s p)) = absTable (table (netAdmin s)) \<or>
    (\<exists>req. DecidingPlayer req = p \<and> (PostDecisions req \<in> set (netRequests s) \<or>
        sseCommandSyncPlayerDecisionEvent req \<in> set (sseControllerEvents (netAdmin s))) \<and>
      tables.rules p (Decisions req) (absTable (table (netAdmin s))) = (None, absTable (ctable (netClients s p)))))"
    (is "_ \<and> (?same \<or> ?ahead)")
proof -
  obtain F where F: "inPhase F s" using assms(1) by (auto simp: netInv_def)
  have b: "adminBase t0 (netAdmin s)" using assms(1) by (simp add: netInv_def)
  have f: "follows s p (F p)" using F assms(2) b by (auto simp: inPhase_def adminBase_def)
  note tab = follows_table [OF f assms(3,4)]
  from F have "phase (netAdmin s) (traffic s) F" by (simp add: inPhase_def)
  then show ?thesis
  proof (cases rule: phase.cases)
    case (ask a ks)
    then have "table (netAdmin s) = table a" using announce_step(2) [OF ask(4,5), of "{}"] by simp
    then show ?thesis using tab [of "absTable (table a)" "decisionEventsCompleted a"] by (auto simp: ask(3))
  next
    case (posted a ks req g)
    have t: "table (netAdmin s) = table a" using announce_step(2) [OF posted(4,5), of "{}"] posted(1) by simp
    have "PostDecisions req \<in> set (netRequests s)" using traffic_decisions [OF b] posted(2) by simp
    moreover have "tables.rules (DecidingPlayer req) (Decisions req) (absTable (table a)) = (None, g)"
      using posted(6) unfolding goodRequest_def by blast
    ultimately show ?thesis using tab [of g] tab [of "absTable (table a)"]
      by (cases "p = DecidingPlayer req") (auto simp: posted(3) t)
  next
    case (handled req g)
    have "sseCommandSyncPlayerDecisionEvent req \<in> set (sseControllerEvents (netAdmin s))" using handled(3) by (simp add: idleWith_def)
    moreover have "tables.rules (DecidingPlayer req) (Decisions req) (absTable (table (netAdmin s))) = (None, g)"
      using handled(4) unfolding goodRequest_def by blast
    ultimately show ?thesis using tab [of g] tab [of "absTable (table (netAdmin s))"]
      by (cases "p = DecidingPlayer req") (auto simp: handled(2))
  qed (use tab [of "absTable (table (netAdmin s))"] in auto)
qed

section \<open>A concrete network\<close>

definition demoReady :: session where
  "demoReady = (demoAdmin\<lparr>sseControllerEvents := [sseCommandSendServedCardsEventToAll demoTable]\<rparr>,
     \<lambda>p. (demoClientOf p)\<lparr>clientState := WaitingForAdminToServeCards\<rparr>)"

lemma demoReady_ok: "readyNetwork demoReady"
proof -
  have "WinnerPlayerName demoTable = []" "RequiredNumberBeforeWild4 demoTable = 0" by (simp_all add: demoTable_def createNewTable_def)
  moreover have "syncsDone demoAdmin = 0" "turnsDue demoAdmin = 0" "joinTasks demoAdmin = []"
    by (simp_all add: demoAdmin_def NewAdmin_def RunServer_def)
  ultimately show ?thesis using calm_demoAdmin demo_streams(2,3)
    by (auto simp: readyNetwork_def demoReady_def readySession_def demoClientOf_def NewPlayerClient_def demoConfig_def)
qed

text \<open>The admin sends the cards, and one client has received them.\<close>

definition demoSent :: network where
  "demoSent = (startNetwork demoReady)\<lparr>netAdmin := dispatchServedCards (\<lambda>_. True) [''al'', ''bob'', ''cy'']
     ((fst demoReady)\<lparr>sseControllerEvents := []\<rparr>)\<rparr>"

definition demoServed :: network where
  "demoServed = (let c = the (handleServerEvent (\<lambda>_. []) (\<lambda>_. HttpStatus 200) True (ServedCardsEvent demoTable) (netClients demoSent ''bob''))
     in demoSent\<lparr>netClients := (netClients demoSent)(''bob'' := c), netRead := (netRead demoSent)(''bob'' := Suc (netRead demoSent ''bob'')),
          netRequests := netRequests demoSent @ newRequests (netClients demoSent ''bob'') c\<rparr>)"

lemma demo_written: "written demoAdmin = []"
  by (simp add: demoAdmin_def NewAdmin_def RunServer_def)

lemma demo_sends: "netStep (startNetwork demoReady) demoSent"
proof -
  have m: "\<not> mutexHeld (netAdmin (startNetwork demoReady))" "joinTasks (netAdmin (startNetwork demoReady)) = []"
    "sseControllerEvents (netAdmin (startNetwork demoReady)) = [] @ sseCommandSendServedCardsEventToAll demoTable # []"
    "range_order [''al'', ''bob'', ''cy''] (sseWriterForPlayer (netAdmin (startNetwork demoReady)))"
    using demo_streams(1) demoReady_ok by (simp_all add: startNetwork_def demoReady_def readyNetwork_def)
  from netStep.control [OF m, of "\<lambda>_. []"] show ?thesis by (simp add: demoSent_def startNetwork_def)
qed

lemma demo_unread: "unread demoSent ''bob'' = [ServedCardsEvent demoTable]"
  by (simp add: unread_def streamOf_def demoSent_def startNetwork_def demoReady_def dispatchServedCards_def send_all map_get_def demo_written Let_def)

lemma demo_receives: "netStep demoSent demoServed" "unread demoServed ''bob'' = []" "netRequests demoServed = []"
    "sseControllerEvents (netAdmin demoServed) = [sseCommandSendChosenPlayerEventToAll]"
    "clientState (netClients demoServed ''bob'') = WaitingForAdminToChoosePlayer"
proof -
  have b: "netClients demoSent ''bob'' = (demoClientOf ''bob'')\<lparr>clientState := WaitingForAdminToServeCards\<rparr>" "\<not> netBusy demoSent ''bob''"
    "netRequests demoSent = []" "sseControllerEvents (netAdmin demoSent) = [sseCommandSendChosenPlayerEventToAll]"
    by (simp_all add: demoSent_def startNetwork_def demoReady_def dispatchServedCards_def Let_def)
  then obtain c where c: "handleServerEvent (\<lambda>_. []) (\<lambda>_. HttpStatus 200) True (ServedCardsEvent demoTable) (netClients demoSent ''bob'') = Some c"
    "clientState c = WaitingForAdminToChoosePlayer" "newRequests (netClients demoSent ''bob'') c = []"
    by (auto simp: newRequests_def sendCommandToUI_def Let_def)
  have d: "demoServed = demoSent\<lparr>netClients := (netClients demoSent)(''bob'' := c),
      netRead := (netRead demoSent)(''bob'' := Suc (netRead demoSent ''bob'')),
      netRequests := netRequests demoSent @ newRequests (netClients demoSent ''bob'') c\<rparr>"
    unfolding demoServed_def c(1) Let_def option.sel by (rule refl)
  show "netStep demoSent demoServed" unfolding d by (rule netStep.receive [OF b(2) demo_unread c(1)])
  show "unread demoServed ''bob'' = []" using arg_cong [OF demo_unread, of tl]
    by (simp add: unread_def d drop_Suc tl_drop)
  show "netRequests demoServed = []" "sseControllerEvents (netAdmin demoServed) = [sseCommandSendChosenPlayerEventToAll]"
    "clientState (netClients demoServed ''bob'') = WaitingForAdminToChoosePlayer" using b(3,4) c(2,3) by (simp_all add: d)
qed

section \<open>Properties\<close>

text \<open>C6. The tables agree in every interleaving: when the admin has dealt and at least two clients wait
  for the cards, then in every state that the admin, the clients and the network can reach, in whatever
  order requests arrive, events are read, users type and goroutines run, while no message is lost, no ack
  times out or precedes its registration, and turns are finished only as the deck can pay their
  challenges, the admin's table is one of a
  game with the cards that were dealt; and a client that has read its stream and has its cards has the
  admin's table up to the order of hands, or is the player whose decisions are on their way to the
  admin's table, and then has what the rules make of the admin's table by them.\<close>

theorem network_tables_agree:
  assumes "readyNetwork r" "netStep\<^sup>*\<^sup>* (startNetwork r) s" "p \<in> set (PlayerNames (table (fst r)))"
    and "unread s p = []" "clientState (netClients s p) \<noteq> WaitingForAdminToServeCards"
  shows "wf_game (table (netAdmin s)) \<and> tableCards (table (netAdmin s)) = tableCards (table (fst r)) \<and> wf_game (ctable (netClients s p)) \<and>
    (absTable (ctable (netClients s p)) = absTable (table (netAdmin s)) \<or>
     (\<exists>req. DecidingPlayer req = p \<and> (PostDecisions req \<in> set (netRequests s) \<or>
         sseCommandSyncPlayerDecisionEvent req \<in> set (sseControllerEvents (netAdmin s))) \<and>
       tables.rules p (Decisions req) (absTable (table (netAdmin s))) = (None, absTable (ctable (netClients s p)))))"
proof -
  note i = reachable_netInv [OF assms(1,2)]
  then have "stepOk (table (fst r)) (table (netAdmin s))" by (simp add: netInv_def adminBase_def)
  with stepOkD(1,3) netInv_tables [OF i assms(3-5)] show ?thesis by blast
qed

theorem network_tables_agree_witness:
  "absTable (ctable (netClients demoServed ''bob'')) = absTable (table (netAdmin demoServed)) \<and> tableCards (table (netAdmin demoServed)) = tableCards demoTable"
proof -
  have r: "netStep\<^sup>*\<^sup>* (startNetwork demoReady) demoServed" using demo_sends demo_receives(1) by auto
  have p: "''bob'' \<in> set (PlayerNames (table (fst demoReady)))" "table (fst demoReady) = demoTable" by (simp_all add: demoReady_def)
  from network_tables_agree [OF demoReady_ok r p(1) demo_receives(2)] demo_receives(3-5) p(2) show ?thesis by auto
qed

text \<open>C7. Nothing gets stuck before a win: in every such state in which no interface has shown a win and the
  draw deck still has four cards, the admin, a client or the network can take a step; a user who is asked
  can type commands that finish the turn.\<close>

theorem network_no_deadlock:
  assumes "readyNetwork r" "netStep\<^sup>*\<^sup>* (startNetwork r) s" "4 \<le> length (DrawDeck (table (netAdmin s)))"
    and "\<forall>p \<in> set (PlayerNames (table (fst r))). \<not> winShown (netClients s p)"
  shows "\<exists>s'. netStep s s'"
proof -
  note i = reachable_netInv [OF assms(1,2)]
  show ?thesis by (rule netInv_enabled [OF i deck_usersFinish [OF i assms(3,4)]])
qed

theorem network_no_deadlock_witness: "\<exists>s'. netStep demoServed s'"
proof -
  have r: "netStep\<^sup>*\<^sup>* (startNetwork demoReady) demoServed" using demo_sends demo_receives(1) by auto
  have d: "4 \<le> length (DrawDeck (table (netAdmin demoServed)))"
    by (simp add: demoServed_def demoSent_def startNetwork_def demoReady_def dispatchServedCards_def Let_def)
  have "gameEvents (netClients demoSent p) = []" for p
    by (simp add: demoSent_def startNetwork_def demoReady_def demoClientOf_def NewPlayerClient_def)
  then have "gameEvents (netClients demoServed p) = []" for p
    by (simp add: demoServed_def sendCommandToUI_def Let_def)
  then have "\<forall>p \<in> set (PlayerNames (table (fst demoReady))). \<not> winShown (netClients demoServed p)" by (simp add: winShown_def)
  from network_no_deadlock [OF demoReady_ok r d this] show ?thesis .
qed

text \<open>C8. No exchange of messages repeats without completing turns: from every such state, a run that completes
  no turn has at most as many steps as the commands, events, requests, answers and questions that are left
  weigh.  All the typing of a turn is one step here, which is taken when the turn is finished; that the run
  does not stop short is a matter of deadlocks.\<close>

theorem network_turns_complete:
  assumes "readyNetwork r" "netStep\<^sup>*\<^sup>* (startNetwork r) s" "(netStep ^^ m) s s'"
  shows "decisionEventsCompleted (netAdmin s) < decisionEventsCompleted (netAdmin s') \<or> m + netWeight s' \<le> netWeight s"
  using steps_weight [OF assms(3) reachable_netInv [OF assms(1,2)]] by auto

theorem network_turns_complete_witness: "2 + netWeight demoServed \<le> netWeight (startNetwork demoReady)"
proof -
  have r: "(netStep ^^ 2) (startNetwork demoReady) demoServed" using demo_sends demo_receives(1) by (auto simp: numeral_2_eq_2)
  have "decisionEventsCompleted (netAdmin demoServed) = decisionEventsCompleted (netAdmin (startNetwork demoReady))"
    by (simp add: demoServed_def demoSent_def startNetwork_def demoReady_def dispatchServedCards_def Let_def)
  with network_turns_complete [OF demoReady_ok _ r] show ?thesis by auto
qed

end
