(* ===== verification/Stall.thy ===== *)
theory Stall
  imports Session
begin

text \<open>
  Three ways in which a game stops.  An ack can overtake its registration: the controller sends the decisions to the clients before it
  registers the acks it waits for, and the handler of acks takes no lock of the server, so that a fast
  client's ack can arrive in between.  The registration then finds the ack and starts no callback, the
  count of missing acks never reaches zero, and the game stops.  And the draw deck can run out: the
  discarded pile is never turned over, and a player who can neither play nor draw cannot end a turn.
  And a second request with decisions is taken as long as the controller has not dealt with the first;
  its sync can begin while the goroutine that starts the next turn waits, and that one then ends the server.
\<close>

section \<open>Callbacks that can still run\<close>

definition liveChans :: "nat \<Rightarrow> Admin \<Rightarrow> nat set" where
  "liveChans g a = {c \<in> waiting (expectedAcksList a) \<union> set (callbacksDue a). syncOf a c = Some g}"

text \<open>All callbacks that can still run are of the sync \<open>g\<close>, and they are too few.\<close>

definition stalledAcks :: "nat \<Rightarrow> Admin \<Rightarrow> bool" where
  "stalledAcks g a \<longleftrightarrow> finite (waiting (expectedAcksList a)) \<and> distinct (callbacksDue a) \<and>
     waiting (expectedAcksList a) \<inter> set (callbacksDue a) = {} \<and> (\<forall>c \<in> set (callbacksDue a). syncOf a c = Some g) \<and>
     (\<forall>c \<in> waiting (expectedAcksList a). syncOf a c = Some g \<or> syncOf a c = None) \<and>
     int (card (liveChans g a)) < remainingAcks a g"

text \<open>The game waits for the sync \<open>g\<close>, in vain.\<close>

definition stalled :: "nat \<Rightarrow> Table \<Rightarrow> int \<Rightarrow> Admin \<Rightarrow> bool" where
  "stalled g t n a \<longleftrightarrow> stalledAcks g a \<and> state a = SyncingPlayerDecision \<and> table a = t \<and> decisionEventsCompleted a = n \<and>
     sseControllerEvents a = [] \<and> joinTasks a = [] \<and> syncsDone a = 0 \<and> turnsDue a = 0"

lemma finite_live: "stalledAcks g a \<Longrightarrow> finite (liveChans g a)"
  by (simp add: stalledAcks_def liveChans_def)

text \<open>Fewer callbacks can run.\<close>

lemma stalledAcks_mono:
  assumes "stalledAcks g a" "syncOf b = syncOf a" "remainingAcks b = remainingAcks a"
    and "waiting (expectedAcksList b) \<subseteq> waiting (expectedAcksList a)" "distinct (callbacksDue b)"
    and "set (callbacksDue b) \<subseteq> set (callbacksDue a) \<union> (waiting (expectedAcksList a) - waiting (expectedAcksList b))"
    and "\<forall>c \<in> set (callbacksDue b). syncOf a c \<noteq> None"
  shows "stalledAcks g b"
proof -
  have l: "liveChans g b \<subseteq> liveChans g a" using assms(2,4,6) by (auto simp: liveChans_def)
  have "\<forall>c \<in> set (callbacksDue b). syncOf a c = Some g" using assms(1,6,7) by (fastforce simp: stalledAcks_def)
  moreover have "waiting (expectedAcksList b) \<inter> set (callbacksDue b) = {}" using assms(1,4,6) by (auto simp: stalledAcks_def)
  moreover have "finite (waiting (expectedAcksList b))" using assms(1,4) finite_subset by (auto simp: stalledAcks_def)
  moreover have "int (card (liveChans g b)) < remainingAcks a g"
    using assms(1) card_mono [OF finite_live [OF assms(1)] l] by (simp add: stalledAcks_def)
  ultimately show ?thesis using assms(1-5) by (auto simp: stalledAcks_def)
qed

lemma stalled_sendAck:
  assumes "stalled g t n a" "sendAck ack a = Some b"
  shows "stalled g t n b"
proof -
  let ?es = "expectedAcksList a" and ?d = "deleteFirst (\<lambda>p. ackEqual (pendingFor p) ack) (pendingAcks (expectedAcksList a))"
  have b: "b = receiveAck ack a" using assms(2) by (simp add: sendAck_def split: if_splits)
  have st: "stalledAcks g a" using assms(1) by (simp add: stalled_def)
  have "stalledAcks g b"
  proof (cases "\<exists>p rest. ?d = Some (p, rest) \<and> ackReceivedChan p \<in> waiting ?es")
    case True
    then obtain p rest where p: "?d = Some (p, rest)" "ackReceivedChan p \<in> waiting ?es" by blast
    let ?c = "ackReceivedChan p"
    have b': "expectedAcksList b = ?es\<lparr>pendingAcks := rest, waiting := waiting ?es - {?c}, fired := fired ?es @ [OnAck ?c]\<rparr>"
      "callbacksDue b = callbacksDue a @ (if syncOf a ?c = None then [] else [?c])" "syncOf b = syncOf a" "remainingAcks b = remainingAcks a"
      using p by (auto simp: b receiveAck_def waitForAcks_def Let_def)
    show ?thesis by (rule stalledAcks_mono [OF st b'(3,4)]) (use st p(2) in \<open>auto simp: b' stalledAcks_def\<close>)
  next
    case False
    then have b': "waiting (expectedAcksList b) = waiting ?es" "callbacksDue b = callbacksDue a" "syncOf b = syncOf a"
      "remainingAcks b = remainingAcks a"
      by (auto simp: b receiveAck_def waitForAcks_def Let_def split: option.split)
    show ?thesis by (rule stalledAcks_mono [OF st b'(3,4)]) (use st in \<open>auto simp: b' stalledAcks_def\<close>)
  qed
  then show ?thesis using assms(1) by (simp add: stalled_def b receiveAck_def Let_def)
qed

lemma stalled_callback:
  assumes "stalled g t n a" "c \<in> set (callbacksDue a)"
  shows "stalled g t n (onSyncAck c a)"
proof -
  have st: "stalledAcks g a" using assms(1) by (simp add: stalled_def)
  then have c: "syncOf a c = Some g" "distinct (callbacksDue a)" "c \<notin> waiting (expectedAcksList a)" "c \<in> liveChans g a"
    using assms(2) by (auto simp: stalledAcks_def liveChans_def)
  then have m: "map_get 0 (syncOf a) c = g" by (simp add: map_get_def)
  have k: "card (liveChans g a) = Suc (card (liveChans g a - {c}))" using finite_live [OF st] c(4) by (rule card.remove)
  then have r: "remainingAcks a g - 1 \<noteq> 0" using st by (auto simp: stalledAcks_def)
  have e: "onSyncAck c a = a\<lparr>remainingAcks := (remainingAcks a)(g := remainingAcks a g - 1), callbacksDue := remove1 c (callbacksDue a)\<rparr>"
    using r by (simp add: onSyncAck_def m Let_def)
  have "liveChans g (onSyncAck c a) = liveChans g a - {c}" using c(2,3) by (auto simp: liveChans_def e)
  then have "stalledAcks g (onSyncAck c a)" using st k c(2) by (auto simp: stalledAcks_def e)
  then show ?thesis using assms(1) by (simp add: stalled_def e)
qed

lemma stalled_step: "serverStep ready decision a b \<Longrightarrow> stalled g t n a \<Longrightarrow> stalled g t n b"
proof (induction rule: serverStep.induct)
  case (join a body w)
  then show ?case by (simp add: handleAddNewPlayerAndCreateSSE_def stalled_def stalledAcks_def liveChans_def Let_def)
next
  case (ackAdded a body)
  then show ?case by (auto simp: handleAckNewPlayerAdded_def split: sum.split option.split intro: stalled_sendAck)
next
  case (ackSynced a body)
  then show ?case by (auto simp: handleAckPlayerDecisionSynced_def split: sum.split option.split intro: stalled_sendAck)
next
  case (setReady body a ks spare rnd addrOk)
  then have "snd (handleSetReady spare rnd ks addrOk body a) = a" by (simp add: handleSetReady_def stalled_def)
  with setReady(3) show ?case by simp
next
  case (decisions dec a)
  have "snd (handlePlayerDecisionsEvent dec a) = a" using decisions(2) by (simp add: handlePlayerDecisionsEvent_def stalled_def)
  with decisions(2) show ?case by simp
next
  case (timeout ch a)
  have st: "stalledAcks g a" using timeout(2) by (simp add: stalled_def)
  have "stalledAcks g (a\<lparr>expectedAcksList := ackTimeout ch (expectedAcksList a)\<rparr>)"
    by (rule stalledAcks_mono [OF st]) (use st in \<open>auto simp: ackTimeout_def stalledAcks_def\<close>)
  with timeout(2) show ?case by (simp add: stalled_def)
next
  case (callback c a)
  then show ?case using stalled_callback by blast
qed (simp_all add: stalled_def)

section \<open>An early ack\<close>

text \<open>Registrations of the sync \<open>g\<close> that wait.\<close>

definition waitsOnly :: "nat \<Rightarrow> Admin \<Rightarrow> bool" where
  "waitsOnly g a \<longleftrightarrow> \<not> stuck (expectedAcksList a) \<and> freshChans a \<and> callbacksDue a = [] \<and> finite (waiting (expectedAcksList a)) \<and>
     (\<forall>c \<in> waiting (expectedAcksList a). syncOf a c = Some g)"

lemma waitsOnly_registerAck:
  assumes "waitsOnly g a"
  shows "waitsOnly g (registerAck (Some g) ack a)"
proof -
  have f: "freshChans (registerAck (Some g) ack a)" using acksRefine_registerAck assms unfolding acksRefine_def waitsOnly_def by blast
  have "c \<noteq> nextChan a" if "c \<in> waiting (expectedAcksList a)" for c using that assms by (auto simp: waitsOnly_def freshChans_def usedChans_def)
  with f assms show ?thesis
    by (auto simp: waitsOnly_def registerAck_def addPending_def Let_def split: option.splits)
qed

lemma registerAck_early:
  assumes "waitsOnly g a"
  shows "if ack \<in> set (preemptiveAcks (expectedAcksList a))
    then waiting (expectedAcksList (registerAck (Some g) ack a)) = waiting (expectedAcksList a)
    else card (waiting (expectedAcksList (registerAck (Some g) ack a))) \<le> Suc (card (waiting (expectedAcksList a))) \<and>
      preemptiveAcks (expectedAcksList (registerAck (Some g) ack a)) = preemptiveAcks (expectedAcksList a)"
proof (cases "ack \<in> set (preemptiveAcks (expectedAcksList a))")
  case True
  then have "deleteFirst (\<lambda>x. ackEqual x ack) (preemptiveAcks (expectedAcksList a)) \<noteq> None"
    unfolding deleteFirst_None by (auto simp: ackEqual_eq)
  with True assms show ?thesis by (auto simp: waitsOnly_def registerAck_def addPending_def Let_def)
next
  case False
  with assms show ?thesis using card_insert_le_m1 [of "Suc (card (waiting (expectedAcksList a)))"]
    by (simp add: waitsOnly_def registerAck_clear card_insert_if)
qed

lemma syncAcks_early:
  "waitsOnly g a \<Longrightarrow> waitsOnly g (syncAcks g req ks a) \<and> card (waiting (expectedAcksList (syncAcks g req ks a))) +
      (if \<exists>q \<in> set ks. q \<noteq> DecidingPlayer req \<and> syncAck q (DecisionEventCounter req) \<in> set (preemptiveAcks (expectedAcksList a)) then 1 else 0)
      \<le> card (waiting (expectedAcksList a)) + length (filter (\<lambda>q. q \<noteq> DecidingPlayer req) ks)"
proof (induction ks arbitrary: a)
  case (Cons q0 ks)
  show ?case
  proof (cases "q0 = DecidingPlayer req")
    case True
    with Cons.IH [OF Cons.prems] show ?thesis by auto
  next
    case False
    let ?ack = "syncAck q0 (DecisionEventCounter req)"
    from Cons.IH [OF waitsOnly_registerAck [OF Cons.prems, of ?ack]] registerAck_early [OF Cons.prems, of ?ack] False
    show ?thesis by (auto split: if_splits)
  qed
qed simp

lemma receiveEarly_preempts:
  "acksLoopRuns a \<Longrightarrow> \<not> stuck (expectedAcksList a) \<Longrightarrow> pendingAcks (expectedAcksList a) = [] \<Longrightarrow>
     receiveEarly early a = a\<lparr>expectedAcksList := (expectedAcksList a)\<lparr>preemptiveAcks := preemptiveAcks (expectedAcksList a) @ early\<rparr>\<rparr>"
proof (induction early arbitrary: a)
  case (Cons ack early)
  have "sendAck ack a = Some (a\<lparr>expectedAcksList := (expectedAcksList a)\<lparr>preemptiveAcks := preemptiveAcks (expectedAcksList a) @ [ack]\<rparr>\<rparr>)"
    using Cons.prems by (simp add: sendAck_def receiveAck_def waitForAcks_def Let_def)
  with Cons show ?case by (simp add: receiveEarly_def)
qed (simp add: receiveEarly_def)

lemma dispatch_stalls:
  assumes "calm a" "sseControllerEvents a = []" "joinTasks a = []" "syncsDone a = 0" "turnsDue a = 0" "DecidingPlayer req \<in> set ks"
    and "EvalPlayerDecisionsNoTransferChan srt (DecidingPlayer req) (Decisions req) (table a) = Some (None, t)"
    and "q \<in> set ks" "q \<noteq> DecidingPlayer req" "syncAck q (DecisionEventCounter req) \<in> set early"
  obtains g b where "dispatchDecision srt (\<lambda>_. True) ks early req a = Some b" "stalled g t (decisionEventsCompleted a) b"
proof -
  let ?p = "DecidingPlayer req" and ?es = "expectedAcksList a"
  have c: "\<not> stuck ?es" "acksLoopRuns a" "pendingAcks ?es = []" "preemptiveAcks ?es = []" "callbacksDue a = []" "acksInv ?es" "freshChans a"
    using assms(1) by (simp_all add: calm_def)
  then have w: "waiting ?es = {}" by (auto simp: acksInv_def)
  define b where "b = (updatePromptWithStateInfo (setState SyncingPlayerDecision (a\<lparr>table := t\<rparr>)))\<lparr>written := written a @
    map (\<lambda>q. (map_get 0 (sseWriterForPlayer a) q, PlayerDecisionsSyncEvent req)) (filter (\<lambda>q. q \<noteq> ?p) ks)\<rparr>"
  define d where "d = b\<lparr>expectedAcksList := ?es\<lparr>preemptiveAcks := early\<rparr>, remainingAcks := (remainingAcks a)(nextChan a := int (length ks) - 1)\<rparr>"
  have "receiveEarly early b = b\<lparr>expectedAcksList := ?es\<lparr>preemptiveAcks := early\<rparr>\<rparr>"
    using receiveEarly_preempts [of b early] c(1-4) by (simp add: b_def)
  then have e: "dispatchDecision srt (\<lambda>_. True) ks early req a = Some (syncAcks (nextChan a) req ks d)"
    using assms(7) by (simp add: dispatchDecision_def send_all b_def d_def Let_def)
  have wo: "waitsOnly (nextChan a) d" using c w by (simp add: waitsOnly_def d_def b_def freshChans_def usedChans_def)
  let ?a = "syncAcks (nextChan a) req ks d"
  have st: "waitsOnly (nextChan a) ?a" "card (waiting (expectedAcksList ?a)) < length (filter (\<lambda>q. q \<noteq> ?p) ks)"
    using syncAcks_early [OF wo, of req ks] assms(8-10) by (auto simp: d_def b_def w split: if_splits)
  have "?p \<in> set ks" by (rule assms(6))
  then have "length (filter (\<lambda>q. q \<noteq> ?p) ks) < length ks" by (metis (mono_tags) length_filter_less)
  then have "int (card (waiting (expectedAcksList ?a))) < remainingAcks ?a (nextChan a)"
    using st(2) by (simp add: syncAcks_same d_def)
  moreover have "liveChans (nextChan a) ?a = waiting (expectedAcksList ?a)" using st(1) by (auto simp: waitsOnly_def liveChans_def)
  ultimately have "stalledAcks (nextChan a) ?a" using st(1) by (auto simp: stalledAcks_def waitsOnly_def)
  moreover have "sameGame d ?a" by (rule sameGame_syncAcks)
  ultimately have "stalled (nextChan a) t (decisionEventsCompleted a) ?a"
    using assms(2-5) by (simp add: stalled_def sameGame_def syncAcks_same d_def b_def)
  with e that show ?thesis by blast
qed

section \<open>An empty deck\<close>

definition exhausted :: "string \<Rightarrow> Game \<Rightarrow> bool" where
  "exhausted p g \<longleftrightarrow> gPhase g = StartOfTurn \<and> gDeck g = [] \<and> (\<forall>c \<in># gHands g p. \<not> mayPlay g c)"

lemma exhausted_rejects:
  assumes "exhausted p g" "\<forall>k. Kind d \<noteq> PlayerDecisionOther k"
  shows "\<exists>d' e. ruleStep p d g = (Some (EvalDecisionError d' e), g)"
  using assms by (cases "Kind d") (auto simp: exhausted_def ruleStep_def rulePlay_def Let_def)

lemma commandDecision_kind: "commandDecision cmd t = Some (Inr d) \<Longrightarrow> Kind d \<noteq> PlayerDecisionOther k"
  by (auto simp: commandDecision_def decisionOf_def split: ReplCommandKind.splits list.splits ExtraData.splits)

text \<open>A player who cannot play, draw or pass.\<close>

definition stuckClient :: "PlayerClient \<Rightarrow> bool" where
  "stuckClient c \<longleftrightarrow> wf_game (ctable c) \<and> localName c \<in> set (PlayerNames (ctable c)) \<and> exhausted (localName c) (absTable (ctable c))"

lemma stuck_command:
  assumes "stuckClient c" "okCommand cmd"
  obtains d e c' where "evalReplCommandOnTable srt cmd c = Some ((d, Some e), c')" "stuckClient c'" "absTable (ctable c') = absTable (ctable c)"
proof -
  have w: "wf_game (ctable c)" "localName c \<in> set (PlayerNames (ctable c))" "exhausted (localName c) (absTable (ctable c))"
    using assms(1) by (simp_all add: stuckClient_def)
  obtain d err c' where s: "evalReplCommandOnTable srt cmd c = Some ((d, err), c')" "stepOk (ctable c) (ctable c')" "sameClient c c'"
    "err = None \<Longrightarrow> okDecision d \<and> ruleStep (localName c) d (absTable (ctable c)) = (None, absTable (ctable c'))"
    "err \<noteq> None \<Longrightarrow> \<not> isBare err \<Longrightarrow> absTable (ctable c') = absTable (ctable c)"
    by (rule evalReplCommand_step [OF w(1,2) assms(2), of srt]) auto
  have "\<exists>e. err = Some e \<and> \<not> isBare err"
  proof (rule commandDecision_ok [OF assms(2), of "ctable c"])
    fix x assume "commandDecision cmd (ctable c) = Some (Inl x)" "\<not> isBare (Some x)"
    then show ?thesis using s(1) by (auto simp: evalReplCommandOnTable_def)
  next
    fix d0 assume d0: "commandDecision cmd (ctable c) = Some (Inr d0)" "okDecision d0"
    obtain d1 e ch t where "EvalPlayerDecision srt (localName c) d0 (gameEvents c) (ctable c) = Some ((d1, e), ch, t)"
      "(e, absTable t) = ruleStep (localName c) d0 (absTable (ctable c))" using EvalPlayerDecision_step [OF w(1,2) d0(2)] by blast
    with exhausted_rejects [OF w(3), of d0] commandDecision_kind [OF d0(1)] d0(1) s(1)
    show ?thesis by (auto simp: evalReplCommandOnTable_def)
  qed
  then obtain e where e: "err = Some e" "absTable (ctable c') = absTable (ctable c)" using s(5) by auto
  then have "stuckClient c'" using stepOkD [OF s(2)] w by (simp add: stuckClient_def)
  with s(1) e that show ?thesis by blast
qed

lemma stuck_loop:
  "stuckClient c \<Longrightarrow> \<forall>cmd \<in> set cmds. okCommand cmd \<Longrightarrow>
     \<exists>xs' c'. decisionLoop srt cmds ds xs c = Some (False, [], ds, xs', c') \<and> absTable (ctable c') = absTable (ctable c)"
proof (induction cmds arbitrary: c xs)
  case (Cons cmd cmds)
  obtain d e c1 where c1: "evalReplCommandOnTable srt cmd c = Some ((d, Some e), c1)" "stuckClient c1" "absTable (ctable c1) = absTable (ctable c)"
    by (rule stuck_command [OF Cons.prems(1), of cmd srt]) (use Cons.prems(2) in auto)
  obtain l where l: "decisionLoop srt (cmd # cmds) ds xs c =
      decisionLoop srt cmds ds (xs @ [\<lparr>AskForOneMoreDecision = True, ResultError = Some e\<rparr>]) (c1\<lparr>logWindow := l\<rparr>)"
    using decisionLoop_rejected [OF c1(1)] by blast
  have "stuckClient (c1\<lparr>logWindow := l\<rparr>)" using c1(2) by (simp add: stuckClient_def)
  from Cons.IH [OF this, of "xs @ [\<lparr>AskForOneMoreDecision = True, ResultError = Some e\<rparr>]"] Cons.prems(2) l c1(3) show ?case by auto
qed simp

section \<open>A second decision\<close>

text \<open>Acks and their callbacks are steps of the server.\<close>

lemma callbacks_steps: "callbacksDue a = cs \<Longrightarrow> adminStep\<^sup>*\<^sup>* a (fold onSyncAck cs a)"
proof (induction cs arbitrary: a)
  case (Cons c cs)
  have "callbacksDue (onSyncAck c a) = cs" using Cons.prems by (simp add: onSyncAck_def Let_def)
  moreover have "adminStep a (onSyncAck c a)" by (rule serverStep.callback) (simp add: Cons.prems)
  ultimately show ?case using Cons.IH [of "onSyncAck c a"] by (simp add: converse_rtranclp_into_rtranclp)
qed simp

lemma deliver_steps: "adminStep\<^sup>*\<^sup>* a (fold (deliverSyncAck n) qs a)"
proof (induction qs arbitrary: a)
  case (Cons q qs)
  have "adminStep\<^sup>*\<^sup>* a (deliverSyncAck n q a)" unfolding deliverSyncAck_def Let_def
    using serverStep.ackSynced callbacks_steps [OF refl] by (rule converse_rtranclp_into_rtranclp)
  with Cons.IH [of "deliverSyncAck n q a"] show ?case by simp
qed simp

text \<open>What they leave alone.\<close>

definition sameFrame :: "Admin \<Rightarrow> Admin \<Rightarrow> bool" where
  "sameFrame a b \<longleftrightarrow> joinTasks b = joinTasks a \<and> sseWriterForPlayer b = sseWriterForPlayer a \<and> mutexHeld b = mutexHeld a"

lemma syncAcks_config: "userConfig (syncAcks g req ks a) = userConfig a"
  by (induction g req ks a rule: syncAcks.induct) (simp_all add: registerAck_def)

lemma stuck_addPending [simp]: "stuck (addPending ack c es) = stuck es"
  by (simp add: addPending_def split: option.split)

lemma sameFrame_sync: "\<not> stuck (expectedAcksList a) \<Longrightarrow> sameFrame a (syncAcks g req ks a)"
  by (induction g req ks a rule: syncAcks.induct) (simp_all add: registerAck_def sameFrame_def)

lemma sameFrame_dispatch:
  assumes "dispatchDecision srt (\<lambda>_. True) ks [] req a = Some b" "\<not> stuck (expectedAcksList a)"
  shows "sameFrame a b"
proof -
  have f: "sameFrame a (syncAcks g req ks c)" if "sameFrame a c" "\<not> stuck (expectedAcksList c)" for g c
    using sameFrame_sync [OF that(2), of g req ks] that(1) by (simp add: sameFrame_def)
  show ?thesis using assms
    by (auto simp: dispatchDecision_def send_all receiveEarly_def Let_def split: option.splits intro!: f) (simp_all add: sameFrame_def)
qed

lemma callbacks_joins: "joinTasks (fold onSyncAck cs a) = joinTasks a"
  by (induction cs arbitrary: a) (simp_all add: onSyncAck_def Let_def)

lemma deliver_joins: "joinTasks (fold (deliverSyncAck n) qs a) = joinTasks a"
  by (induction qs arbitrary: a)
    (simp_all add: deliverSyncAck_def handleAckPlayerDecisionSynced_def sendAck_def receiveAck_def callbacks_joins Let_def)

text \<open>An ack of a chosen player is none of a sync: the last separators of their names differ.\<close>

lemma show_int_plain: "c \<in> set (show_int i) \<Longrightarrow> c \<noteq> CHR ''.'' \<and> c \<noteq> CHR ''_''"
  using show_nat_digits [of "nat i"] show_nat_digits [of "nat (- i)"]
  by (auto simp: show_int_def list_all_iff is_digit_def split: if_splits)

lemma dropWhile_plain: "\<forall>c \<in> set xs. P c \<Longrightarrow> \<not> P x \<Longrightarrow> dropWhile P (rev (ys @ x # xs)) = x # rev ys"
  using dropWhile_append2 [of "rev xs" P "x # rev ys"] by simp

lemma decisionAck_not_sync: "decisionAck p m \<noteq> syncAck q n"
proof
  let ?P = "\<lambda>c. c \<noteq> CHR ''.'' \<and> c \<noteq> CHR ''_''"
  assume "decisionAck p m = syncAck q n"
  then have e: "(''waiting_for_decision.'' @ p) @ CHR ''.'' # show_int m = (q @ ''_synced'') @ CHR ''_'' # show_int n"
    by (auto simp: syncAck_def decisionAck_def makeAckIdOfDecisionSyncPlayer_def makeAckIdWaitingForPlayerDecision_def)
  have "dropWhile ?P (rev ((''waiting_for_decision.'' @ p) @ CHR ''.'' # show_int m)) = CHR ''.'' # rev (''waiting_for_decision.'' @ p)"
    by (rule dropWhile_plain) (use show_int_plain in auto)
  moreover have "dropWhile ?P (rev ((q @ ''_synced'') @ CHR ''_'' # show_int n)) = CHR ''_'' # rev (q @ ''_synced'')"
    by (rule dropWhile_plain) (use show_int_plain in auto)
  ultimately show False unfolding e by simp
qed

text \<open>The first sync is finished and its goroutine waits; then the second sync begins.\<close>

lemma second_sync:
  assumes "acksInv (expectedAcksList a)" "freshChans a" "\<not> stuck (expectedAcksList a)" "acksLoopRuns a" "callbacksDue a = []"
    and "\<not> mutexHeld a" "joinTasks a = []" "range_order ks (sseWriterForPlayer a)"
    and "sseControllerEvents a = [sseCommandSyncPlayerDecisionEvent req, sseCommandSyncPlayerDecisionEvent req2]"
    and "DecidingPlayer req \<in> set ks" "set ks \<noteq> {DecidingPlayer req}" "unregistered (DecisionEventCounter req) (set ks) a"
    and "EvalPlayerDecisionsNoTransferChan srt (DecidingPlayer req) (Decisions req) (table a) = Some (None, t)"
    and "EvalPlayerDecisionsNoTransferChan srt (DecidingPlayer req2) (Decisions req2) t = Some (None, t2)"
  shows "\<exists>b. adminStep\<^sup>*\<^sup>* a b \<and> 0 < turnsDue b \<and> \<not> mutexHeld b \<and> state b = SyncingPlayerDecision \<and> table b = t2 \<and> userConfig b = userConfig a"
proof -
  let ?n = "DecisionEventCounter req"
  have ks: "distinct ks" using assms(8) by (simp add: range_order_def)
  define qs where "qs = filter (\<lambda>q. q \<noteq> DecidingPlayer req) ks"
  have qs: "distinct qs" "set qs = set ks - {DecidingPlayer req}" "qs \<noteq> []"
    using ks assms(10,11) by (auto simp: qs_def filter_empty_conv)
  let ?a = "a\<lparr>sseControllerEvents := [sseCommandSyncPlayerDecisionEvent req2]\<rparr>"
  have a: "acksInv (expectedAcksList ?a)" "freshChans ?a" "\<not> stuck (expectedAcksList ?a)" "acksLoopRuns ?a" "callbacksDue ?a = []"
    "unregistered ?n (set ks) ?a" using assms(1-5,12) by (simp_all add: freshChans_def unregistered_def)
  obtain g a1 where a1: "dispatchDecision srt (\<lambda>_. True) ks [] req ?a = Some a1" "awaiting g ?n (set qs) a1"
    "sseControllerEvents a1 = [sseCommandSyncPlayerDecisionEvent req2]" "table a1 = t" "userConfig a1 = userConfig a"
    using dispatchDecision_awaits [OF a(1-5) ks assms(10) _ _ a(6), of "\<lambda>_. True" srt t] assms(13) qs(2) by auto
  have f1: "sameFrame a a1" using sameFrame_dispatch [OF a1(1) a(3)] by (simp add: sameFrame_def)
  have "adminStep a a1"
    by (rule serverStep.dispatch [where us = "[]" and e = "sseCommandSyncPlayerDecisionEvent req" and
      vs = "[sseCommandSyncPlayerDecisionEvent req2]" and ks' = ks and srt = srt and ok = "\<lambda>_. True" and early = "[]"])
      (use assms(6-9) a1(1) in simp_all)
  moreover define a2 where "a2 = fold (deliverSyncAck ?n) qs a1"
  ultimately have s2: "adminStep\<^sup>*\<^sup>* a a2" using deliver_steps [of a1 ?n qs] by (simp add: converse_rtranclp_into_rtranclp)
  have d: "syncsDone a2 = Suc (syncsDone a1)" "table a2 = t" "sseControllerEvents a2 = [sseCommandSyncPlayerDecisionEvent req2]"
    "userConfig a2 = userConfig a" "\<not> stuck (expectedAcksList a2)"
    using deliver_all [of g ?n qs "[]" a1] a1 qs(1,3) by (simp_all add: a2_def awaiting_def Let_def)
  have f2: "sameFrame a a2" using f1 deliver_all_net [OF a1(2) qs(1)] deliver_joins [of ?n qs a1] by (simp add: sameFrame_def sameNet_def a2_def)
  define a3 where "a3 = finishSync a2"
  have "adminStep a2 a3" unfolding a3_def by (rule serverStep.finish) (use f2 assms(6) d(1) in \<open>simp_all add: sameFrame_def\<close>)
  with s2 have s3: "adminStep\<^sup>*\<^sup>* a a3" by simp
  have a3: "0 < turnsDue a3" "table a3 = t" "sseControllerEvents a3 = [sseCommandSyncPlayerDecisionEvent req2]" "sameFrame a a3"
    "userConfig a3 = userConfig a" "\<not> stuck (expectedAcksList a3)"
    using d f2 by (simp_all add: a3_def finishSync_def sameFrame_def Let_def)
  let ?b = "a3\<lparr>sseControllerEvents := []\<rparr>"
  obtain b where b: "dispatchDecision srt (\<lambda>_. True) ks [] req2 ?b = Some b"
    using assms(14) a3(2) by (auto simp: dispatchDecision_def send_all Let_def)
  have "adminStep a3 b"
    by (rule serverStep.dispatch [where us = "[]" and e = "sseCommandSyncPlayerDecisionEvent req2" and vs = "[]" and ks' = ks and srt = srt and ok = "\<lambda>_. True" and early = "[]"])
      (use assms(6-8) a3 b in \<open>simp_all add: sameFrame_def\<close>)
  moreover from b have "state b = SyncingPlayerDecision \<and> table b = t2 \<and> turnsDue b = turnsDue a3"
    by (cases rule: dispatchDecision_cases) (use assms(14) a3(2) in simp_all)
  moreover have "\<not> mutexHeld b" using sameFrame_dispatch [OF b] a3(4,6) assms(6) by (simp add: sameFrame_def)
  moreover have "userConfig b = userConfig a"
    using b assms(14) a3(2,5) by (auto simp: dispatchDecision_def send_all receiveEarly_def syncAcks_config Let_def)
  ultimately show ?thesis using s3 a3(1) by (metis rtranclp.rtrancl_into_rtrancl)
qed

section \<open>Properties\<close>

text \<open>C14. One fast client stops the game: when the ack of a player reaches the admin after the admin sent
  the decisions and before it registered that player's ack, then whatever requests, acks and timeouts
  follow and however goroutines run, the admin stays in the state of syncing the decision: no turn is
  completed and no command is queued any more, and the table stays as it is.\<close>

theorem early_ack_stalls_game:
  assumes "calm a" "sseControllerEvents a = []" "joinTasks a = []" "syncsDone a = 0" "turnsDue a = 0"
    and "EvalPlayerDecisionsNoTransferChan srt (DecidingPlayer req) (Decisions req) (table a) = Some (None, t)"
    and "{DecidingPlayer req, q} \<subseteq> set ks" "q \<noteq> DecidingPlayer req" "syncAck q (DecisionEventCounter req) \<in> set early"
  shows "\<exists>b. dispatchDecision srt (\<lambda>_. True) ks early req a = Some b \<and> (\<forall>b'. adminStep\<^sup>*\<^sup>* b b' \<longrightarrow>
    state b' = SyncingPlayerDecision \<and> table b' = t \<and> sseControllerEvents b' = [] \<and>
    decisionEventsCompleted b' = decisionEventsCompleted a)"
proof -
  obtain g b where b: "dispatchDecision srt (\<lambda>_. True) ks early req a = Some b" "stalled g t (decisionEventsCompleted a) b"
    using dispatch_stalls [OF assms(1-5) _ assms(6) _ assms(8,9)] assms(7) by (metis insert_subset)
  have "stalled g t (decisionEventsCompleted a) b'" if "adminStep\<^sup>*\<^sup>* b b'" for b'
    using that b(2) by (induction rule: rtranclp_induct) (auto intro: stalled_step)
  with b(1) show ?thesis by (auto simp: stalled_def)
qed

theorem early_ack_stalls_game_witness:
  "\<exists>b. dispatchDecision (\<lambda>_. []) (\<lambda>_. True) [''al'', ''bob'', ''cy''] [syncAck ''bob'' 0] (demoPull ''al'') demoAdmin = Some b \<and>
     (\<forall>b'. adminStep\<^sup>*\<^sup>* b b' \<longrightarrow> state b' = SyncingPlayerDecision \<and> decisionEventsCompleted b' = 0)"
proof -
  obtain t where t: "EvalPlayerDecisionsNoTransferChan (\<lambda>_. []) (DecidingPlayer (demoPull ''al'')) (Decisions (demoPull ''al'')) (table demoAdmin) =
    Some (None, t)" using demoPull_evaluates by blast
  have a: "sseControllerEvents demoAdmin = []" "joinTasks demoAdmin = []" "syncsDone demoAdmin = 0" "turnsDue demoAdmin = 0"
    "decisionEventsCompleted demoAdmin = 0"
    by (simp_all add: demoAdmin_def NewAdmin_def RunServer_def)
  have c: "calm demoAdmin" using calm_demoAdmin [of "[]"] by (simp add: calm_def freshChans_def)
  have q: "{DecidingPlayer (demoPull ''al''), ''bob''} \<subseteq> set [''al'', ''bob'', ''cy'']" "''bob'' \<noteq> DecidingPlayer (demoPull ''al'')"
    "syncAck ''bob'' (DecisionEventCounter (demoPull ''al'')) \<in> set [syncAck ''bob'' 0]" by (simp_all add: demoPull_def)
  from early_ack_stalls_game [OF c a(1-4) t q] a(5) show ?thesis by auto
qed

text \<open>C16. An empty draw deck can stop the game: the discarded pile is never turned over, so when at the start of
  a turn, before the player has drawn, the deck is empty and the player holds no card that may be played,
  every command the player types is rejected, whatever and however many they are; the turn never ends, no
  decisions are sent, and the table stays as it is up to the order of hands.\<close>

theorem empty_deck_stops_game:
  assumes "wf_game (ctable c)" "localName c \<in> set (PlayerNames (ctable c))" "TableState (ctable c) = StartOfTurn" "DrawDeck (ctable c) = []"
    and "\<forall>card \<in> set (handOf (ctable c) (localName c)). \<not> mayPlay (absTable (ctable c)) card" "\<forall>cmd \<in> set cmds. okCommand cmd"
  shows "\<exists>xs c'. decisionLoop srt cmds [] [] c = Some (False, [], [], xs, c') \<and> absTable (ctable c') = absTable (ctable c)"
proof -
  have "stuckClient c" using assms(1-5) by (simp add: stuckClient_def exhausted_def)
  from stuck_loop [OF this assms(6)] show ?thesis by blast
qed

theorem empty_deck_stops_game_witness:
  "\<exists>xs c'. decisionLoop (\<lambda>_. []) [NewReplCommand CmdDrawCard ''cy'', NewReplCommand CmdPass ''cy''] [] []
     (demoClient\<lparr>ctable := demoTable\<lparr>DrawDeck := [], PlayerOfNextTurn := ''cy'', LocalPlayerName := ''cy''\<rparr>\<rparr>) = Some (False, [], [], xs, c')"
proof -
  let ?t = "demoTable\<lparr>DrawDeck := [], PlayerOfNextTurn := ''cy'', LocalPlayerName := ''cy''\<rparr>"
  let ?c = "demoClient\<lparr>ctable := ?t\<rparr>"
  have t: "wf_game (ctable ?c)" "localName ?c \<in> set (PlayerNames (ctable ?c))" "TableState (ctable ?c) = StartOfTurn" "DrawDeck (ctable ?c) = []"
    using wf_game_demoTable by (auto simp: wf_game_def wf_table_def wf_seating_def tableCards_def)
  have h: "\<forall>card \<in> set (handOf (ctable ?c) (localName ?c)). \<not> mayPlay (absTable (ctable ?c)) card"
    by (simp add: map_get_def mayPlay_def IsWild_def demoTable_def)
  have k: "\<forall>cmd \<in> set [NewReplCommand CmdDrawCard ''cy'', NewReplCommand CmdPass ''cy'']. okCommand cmd"
    by (simp add: okCommand_def NewReplCommand_def)
  from empty_deck_stops_game [OF t h k, of "\<lambda>_. []"] show ?thesis by blast
qed

text \<open>C15. A second decision can end the server: while the controller has not yet dealt with a request, the
  handler takes another one, with success; when both are accepted in turn, the server can reach, by
  its own steps and the acks of the first decision, a state in which the goroutine that is to start the
  next turn finds the sync of the second decision under way and ends the process.\<close>

theorem second_decision_ends_admin:
  assumes "calm a" "streams ks a" "joinTasks a = []" "state a = WaitingForPlayerDecision"
    and "sseControllerEvents a = [sseCommandSyncPlayerDecisionEvent req]" "\<not> DebugSignalNewTurnViaPrompt (userConfig a)"
    and "DecidingPlayer req \<in> set ks" "set ks \<noteq> {DecidingPlayer req}"
    and "EvalPlayerDecisionsNoTransferChan srt (DecidingPlayer req) (Decisions req) (table a) = Some (None, t)"
    and "EvalPlayerDecisionsNoTransferChan srt (DecidingPlayer req2) (Decisions req2) t = Some (None, t2)" "TableState t2 \<noteq> HaveWinner"
  shows "\<exists>a' b. handlePlayerDecisionsEvent (Inr req2) a = (Responded StatusOK [], a') \<and> adminStep\<^sup>*\<^sup>* a' b \<and>
    0 < turnsDue b \<and> \<not> mutexHeld b \<and> runNewTurn b = None"
proof -
  let ?ack = "decisionAck (DecidingPlayer req2) (DecisionEventCounter req2)"
  let ?b = "receiveAck ?ack a"
  let ?a = "?b\<lparr>sseControllerEvents := [sseCommandSyncPlayerDecisionEvent req, sseCommandSyncPlayerDecisionEvent req2]\<rparr>"
  have c: "\<not> mutexHeld a" "acksLoopRuns a" "callbacksDue a = []" "acksInv (expectedAcksList a)" "freshChans a" "\<not> stuck (expectedAcksList a)"
    "pendingAcks (expectedAcksList a) = []" "preemptiveAcks (expectedAcksList a) = []" using assms(1) by (simp_all add: calm_def)
  have s: "sendAck ?ack a = Some ?b" using c by (simp add: sendAck_def)
  have r: "?b = a\<lparr>expectedAcksList := (expectedAcksList a)\<lparr>preemptiveAcks := [?ack]\<rparr>\<rparr>"
    using c(3,7,8) by (simp add: receiveAck_def waitForAcks_def Let_def)
  have h: "handlePlayerDecisionsEvent (Inr req2) a = (Responded StatusOK [], ?a)"
    using c(1) assms(4,5) s by (simp add: handlePlayerDecisionsEvent_def) (simp add: r assms(5))
  have i: "acksInv (expectedAcksList ?b)" "freshChans ?b"
    using acksRefine_sendAck [OF s] c(4,5) acks.steps_inv unfolding acksRefine_def by blast+
  have u: "unregistered (DecisionEventCounter req) (set ks) ?a" using c(7) decisionAck_not_sync [symmetric] by (simp add: unregistered_def r)
  have f: "acksInv (expectedAcksList ?a)" "freshChans ?a" "\<not> stuck (expectedAcksList ?a)" "acksLoopRuns ?a" "callbacksDue ?a = []"
    "\<not> mutexHeld ?a" "joinTasks ?a = []" "range_order ks (sseWriterForPlayer ?a)"
    using i c assms(2,3) by (simp_all add: r freshChans_def streams_def)
  have t: "EvalPlayerDecisionsNoTransferChan srt (DecidingPlayer req) (Decisions req) (table ?a) = Some (None, t)" using assms(9) by (simp add: r)
  from second_sync [OF f _ assms(7,8) u t assms(10)] obtain b where
    b: "adminStep\<^sup>*\<^sup>* ?a b" "0 < turnsDue b" "\<not> mutexHeld b" "state b = SyncingPlayerDecision" "table b = t2" "userConfig b = userConfig ?a" by auto
  have "runNewTurn b = None" using b(4-6) assms(6,11) by (simp add: runNewTurn_def r Let_def)
  with h b(1-3) show ?thesis by blast
qed

theorem second_decision_ends_admin_witness:
  "let a = demoAdmin\<lparr>sseControllerEvents := [sseCommandSyncPlayerDecisionEvent (demoPull ''al'')]\<rparr>;
       pass = (demoPull ''al'')\<lparr>Decisions := [\<lparr>Kind = PlayerDecisionPass, ResultCard = mkCard 0 0, WildCardChosenColor = 0\<rparr>]\<rparr> in
   \<exists>a' b. handlePlayerDecisionsEvent (Inr pass) a = (Responded StatusOK [], a') \<and> adminStep\<^sup>*\<^sup>* a' b \<and> 0 < turnsDue b \<and> runNewTurn b = None"
proof -
  let ?a = "demoAdmin\<lparr>sseControllerEvents := [sseCommandSyncPlayerDecisionEvent (demoPull ''al'')]\<rparr>"
  let ?pass = "(demoPull ''al'')\<lparr>Decisions := [\<lparr>Kind = PlayerDecisionPass, ResultCard = mkCard 0 0, WildCardChosenColor = 0\<rparr>]\<rparr>"
  obtain t where t: "EvalPlayerDecisionsNoTransferChan (\<lambda>_. []) (DecidingPlayer (demoPull ''al'')) (Decisions (demoPull ''al'')) (table ?a) = Some (None, t)"
    using demoPull_evaluates by auto
  have t': "TableState t = AwaitingDropOrPass" "PlayerNames t = PlayerNames demoTable" "Direction t = Direction demoTable"
    using t by (auto simp: EvalPlayerDecisionsNoTransferChan_def EvalPlayerDecision_def evalPullFromDeck_def
      pullCardFromDeckToPlayerHand_def deck_eqs demoPull_def Let_def)
  have "\<exists>t2. EvalPlayerDecisionsNoTransferChan (\<lambda>_. []) (DecidingPlayer ?pass) (Decisions ?pass) t = Some (None, t2) \<and> TableState t2 = StartOfTurn"
    using t' by (simp add: EvalPlayerDecisionsNoTransferChan_def EvalPlayerDecision_def evalPass_def setNeighborAsNextPlayer_def demoPull_def
      PlayerIndexFromName_def GetNextPlayerIndex_def PlayerCount_def SetPlayerOfNextTurn_def go_index_def go_rem_def signed_modulo_int_def signed_divide_int_def Let_def)
  then obtain t2 where t2: "EvalPlayerDecisionsNoTransferChan (\<lambda>_. []) (DecidingPlayer ?pass) (Decisions ?pass) t = Some (None, t2)"
    "TableState t2 \<noteq> HaveWinner" by auto
  have a: "joinTasks ?a = []" "state ?a = WaitingForPlayerDecision" "\<not> DebugSignalNewTurnViaPrompt (userConfig ?a)"
    "streams [''al'', ''bob'', ''cy''] ?a" "DecidingPlayer (demoPull ''al'') \<in> set [''al'', ''bob'', ''cy'']"
    "set [''al'', ''bob'', ''cy''] \<noteq> {DecidingPlayer (demoPull ''al'')}"
    using demo_streams by (simp_all add: streams_def demoPull_def demoConfig_def) (simp_all add: demoAdmin_def NewAdmin_def RunServer_def)
  from second_decision_ends_admin [OF calm_demoAdmin a(4,1,2) _ a(3,5,6) t t2] show ?thesis unfolding Let_def by auto
qed

end
