(* ===== verification/Routes.thy ===== *)
theory Routes
  imports Admin Client
begin

text \<open>
  How requests travel: the HTTP clients and senders of \<open>internal/utils/http_utils.go\<close> and the routers of
  the admin (\<open>setRouterHandlers\<close>) and of the client (\<open>initRouterHandlers\<close>).  The HTTP library is a
  parameter: \<open>newRequest\<close> says why a request cannot be made, \<open>perform\<close> what it results in.  The property
  is that whatever a client does, each of its requests goes to the handler that reads its message.
\<close>

section \<open>Senders\<close>

text \<open>Times are in seconds.\<close>

record HttpClient =
  Timeout :: nat
  MaxIdleConns :: nat
  MaxIdleConnsPerHost :: nat
  IdleConnTimeout :: nat

definition CreateHTTPClient :: "nat \<Rightarrow> HttpClient" where
  "CreateHTTPClient timeout = \<lparr>Timeout = timeout, MaxIdleConns = 20, MaxIdleConnsPerHost = 5, IdleConnTimeout = 300\<rparr>"

record Context =
  Deadline :: "nat option"
  Cancelled :: bool

definition WithTimeout :: "nat \<Rightarrow> nat \<Rightarrow> Context \<Rightarrow> Context" where
  "WithTimeout now timeout parent =
     parent\<lparr>Deadline := Some (case Deadline parent of None \<Rightarrow> now + timeout | Some d \<Rightarrow> min d (now + timeout))\<rparr>"

record RequestSender =
  SenderClient :: HttpClient
  Method :: string
  URL :: string
  BodyReader :: string

type_synonym 'r perform = "HttpClient \<Rightarrow> Context \<Rightarrow> string \<Rightarrow> string \<Rightarrow> string \<Rightarrow> string + 'r"

definition Send :: "(string \<Rightarrow> string \<Rightarrow> string option) \<Rightarrow> 'r perform \<Rightarrow> Context \<Rightarrow> RequestSender \<Rightarrow> string + 'r" where
  "Send newRequest perform ctx sender =
     (case newRequest (Method sender) (URL sender) of
        Some err \<Rightarrow> Inl err
      | None \<Rightarrow> perform (SenderClient sender) ctx (Method sender) (URL sender) (BodyReader sender))"

text \<open>The context is returned for the caller to cancel.\<close>

definition SendWithTimeout ::
  "(string \<Rightarrow> string \<Rightarrow> string option) \<Rightarrow> 'r perform \<Rightarrow> nat \<Rightarrow> Context \<Rightarrow> nat \<Rightarrow> RequestSender \<Rightarrow> (string + 'r) \<times> Context" where
  "SendWithTimeout newRequest perform now parentContext timeout sender =
     (let ctx = WithTimeout now timeout parentContext in
      case newRequest (Method sender) (URL sender) of
        Some err \<Rightarrow> (Inl err, ctx)
      | None \<Rightarrow> (perform (SenderClient sender) ctx (Method sender) (URL sender) (BodyReader sender), ctx))"

text \<open>The method is ignored, and the context, with which the body of the response is read, is cancelled
  on return.\<close>

definition MakeHTTPRequestWithTimeout ::
  "(string \<Rightarrow> string \<Rightarrow> string option) \<Rightarrow> 'r perform \<Rightarrow> nat \<Rightarrow> Context \<Rightarrow> HttpClient \<Rightarrow> nat \<Rightarrow> string \<Rightarrow> string \<Rightarrow> string \<Rightarrow>
   (string + 'r) \<times> Context" where
  "MakeHTTPRequestWithTimeout newRequest perform now parentContext client timeout method url body =
     (let ctx = WithTimeout now timeout parentContext in
      case newRequest ''POST'' url of
        Some err \<Rightarrow> (Inl err, ctx\<lparr>Cancelled := True\<rparr>)
      | None \<Rightarrow> (perform client ctx ''POST'' url body, ctx\<lparr>Cancelled := True\<rparr>))"

text \<open>Sending with a timeout is sending with a context whose deadline is no later than that of its parent.\<close>

lemma SendWithTimeout_Send:
  "SendWithTimeout newRequest perform now parent timeout sender =
     (Send newRequest perform (WithTimeout now timeout parent) sender, WithTimeout now timeout parent)"
  by (simp add: SendWithTimeout_def Send_def Let_def split: option.split)

lemma WithTimeout_deadline:
  "\<exists>d. Deadline (WithTimeout now timeout ctx) = Some d \<and> d \<le> now + timeout \<and> (\<forall>e. Deadline ctx = Some e \<longrightarrow> d \<le> e)"
  by (simp add: WithTimeout_def split: option.split)

lemma MakeHTTPRequestWithTimeout_posts:
  "MakeHTTPRequestWithTimeout newRequest perform now parent client timeout method url body =
     map_prod id (\<lambda>ctx. ctx\<lparr>Cancelled := True\<rparr>) (SendWithTimeout newRequest perform now parent timeout
       \<lparr>SenderClient = client, Method = ''POST'', URL = url, BodyReader = body\<rparr>)"
  by (simp add: MakeHTTPRequestWithTimeout_def SendWithTimeout_def Let_def split: option.split)

section \<open>Routers\<close>

datatype AdminHandler =
    HandleAddNewPlayerAndCreateSSE
  | HandleAckNewPlayerAdded
  | HandleSetReady
  | HandlePlayerDecisionsEvent
  | HandleAckPlayerDecisionSynced

datatype ClientHandler =
    HandlePing
  | HandleServedCardsEvent
  | HandleChosenPlayerEvent
  | HandlePlayerDecisionsSyncEvent
  | HandleAddNewPlayers
  | HandleGetPlayers
  | HandleState

record 'h route =
  Path :: string
  Methods :: string
  HandlerFunc :: "'h option"

definition setRouterHandlers :: "AdminHandler route list" where
  "setRouterHandlers =
     [\<lparr>Path = ''/player'', Methods = ''POST'', HandlerFunc = Some HandleAddNewPlayerAndCreateSSE\<rparr>,
      \<lparr>Path = ''/ack_player_added'', Methods = ''POST'', HandlerFunc = Some HandleAckNewPlayerAdded\<rparr>,
      \<lparr>Path = ''/set_ready'', Methods = ''POST'', HandlerFunc = Some HandleSetReady\<rparr>,
      \<lparr>Path = ''/player_decisions'', Methods = ''POST'', HandlerFunc = Some HandlePlayerDecisionsEvent\<rparr>,
      \<lparr>Path = ''/ack-decision-sync'', Methods = ''POST'', HandlerFunc = Some HandleAckPlayerDecisionSynced\<rparr>,
      \<lparr>Path = ''/test_command'', Methods = ''POST'', HandlerFunc = None\<rparr>]"

definition initRouterHandlers :: "ClientHandler route list" where
  "initRouterHandlers =
     [\<lparr>Path = ''/ping'', Methods = ''GET'', HandlerFunc = Some HandlePing\<rparr>,
      \<lparr>Path = ''/event/served_cards'', Methods = ''POST'', HandlerFunc = Some HandleServedCardsEvent\<rparr>,
      \<lparr>Path = ''/event/chosen_player'', Methods = ''POST'', HandlerFunc = Some HandleChosenPlayerEvent\<rparr>,
      \<lparr>Path = ''/event/player_decisions_sync'', Methods = ''POST'', HandlerFunc = Some HandlePlayerDecisionsSyncEvent\<rparr>,
      \<lparr>Path = ''/players'', Methods = ''POST'', HandlerFunc = Some HandleAddNewPlayers\<rparr>,
      \<lparr>Path = ''/players'', Methods = ''GET'', HandlerFunc = Some HandleGetPlayers\<rparr>,
      \<lparr>Path = ''/state'', Methods = ''GET'', HandlerFunc = Some HandleState\<rparr>]"

text \<open>The two handlers of the client that are written in place.\<close>

definition handlePing :: "PlayerClient \<Rightarrow> string" where
  "handlePing c = ''pong''"

definition handleState :: "PlayerClient \<Rightarrow> string" where
  "handleState c = PlayerClientStateString (clientState c)"

text \<open>The routes a request matches.\<close>

definition matchingRoutes :: "'h route list \<Rightarrow> string \<Rightarrow> string \<Rightarrow> 'h option list" where
  "matchingRoutes rs method path = map HandlerFunc (filter (\<lambda>r. Path r = path \<and> Methods r = method) rs)"

text \<open>No request matches two routes.\<close>

lemma routes_distinct:
  "distinct (map (\<lambda>r. (Methods r, Path r)) setRouterHandlers)" "distinct (map (\<lambda>r. (Methods r, Path r)) initRouterHandlers)"
  by (simp_all add: setRouterHandlers_def initRouterHandlers_def)

text \<open>The handler that reads a message.\<close>

fun handlerOf :: "Request \<Rightarrow> AdminHandler" where
  "handlerOf (PostPlayer _) = HandleAddNewPlayerAndCreateSSE"
| "handlerOf (PostSetReady _) = HandleSetReady"
| "handlerOf (PostDecisions _) = HandlePlayerDecisionsEvent"
| "handlerOf (PostAckPlayerAdded _) = HandleAckNewPlayerAdded"
| "handlerOf (PostAckDecisionSync _) = HandleAckPlayerDecisionSynced"

section \<open>What a client does\<close>

inductive clientStep :: "PlayerClient \<Rightarrow> PlayerClient \<Rightarrow> bool" where
  event: "handleServerEvent srt result taken ev c = Some c' \<Longrightarrow> clientStep c c'"
| controller: "sseController srt result taken first es c = Some c' \<Longrightarrow> clientStep c c'"
| ask: "askAndRunUserDecisions srt cmds answer n c = Some (fin, c') \<Longrightarrow> clientStep c c'"
| command: "clientStep c (handleGeneralCommand resolve answer ks cmd c)"
| connect: "connectToAdmin answer body result msg addr c = Some c' \<Longrightarrow> clientStep c c'"
| served: "clientStep c (snd (handleServedCardsEvent taken cards c))"
| chosen: "clientStep c (snd (handleChosenPlayerEvent chosen c))"
| synced: "handlePlayerDecisionsSyncEvent srt decisions c = Some (status, c') \<Longrightarrow> clientStep c c'"
| players: "handleAddNewPlayers result added c = (status, Some c') \<Longrightarrow> clientStep c c'"

fun routed :: "(string \<times> string) \<times> Request \<Rightarrow> bool" where
  "routed ((meth, url), r) \<longleftrightarrow> (\<exists>addr path. url = HTTPAddressString addr @ path \<and>
     matchingRoutes setRouterHandlers meth path = [Some (handlerOf r)])"

definition sentRouted :: "PlayerClient \<Rightarrow> bool" where
  "sentRouted c \<longleftrightarrow> (\<forall>x \<in> set (sentRequests c). routed x)"

lemma sentRouted_same: "sentRouted c \<Longrightarrow> sentRequests c' = sentRequests c \<Longrightarrow> sentRouted c'"
  by (simp add: sentRouted_def)

lemma sentRouted_sel [simp]:
  "sentRouted (logToWindow f n m c) = sentRouted c" "sentRouted (c\<lparr>logWindow := l\<rparr>) = sentRouted c"
  "sentRouted (c\<lparr>clientState := st\<rparr>) = sentRouted c" "sentRouted (c\<lparr>adminAddr := addr\<rparr>) = sentRouted c"
  "sentRouted (c\<lparr>neighborListenAddr := ns\<rparr>) = sentRouted c" "sentRouted (c\<lparr>ctable := t\<rparr>) = sentRouted c"
  "sentRouted (c\<lparr>gameEvents := ch\<rparr>) = sentRouted c" "sentRouted (c\<lparr>asking := ns'\<rparr>) = sentRouted c"
  "sentRouted (c\<lparr>connected := b\<rparr>) = sentRouted c" "sentRouted (snd (sendCommandToUI taken cmd c)) = sentRouted c"
  by (simp_all add: sentRouted_def sendCommandToUI_def)

lemma sentRouted_post: "sentRouted (sendRequest meth url r c) \<longleftrightarrow> sentRouted c \<and> routed ((meth, url), r)"
  by (auto simp: sentRouted_def sendRequest_def)

lemma routed_admin: "matchingRoutes setRouterHandlers meth (''/'' @ path) = [Some (handlerOf r)] \<Longrightarrow> routed ((meth, adminURL path c), r)"
  unfolding routed.simps adminURL_def by blast

lemmas route_simps = matchingRoutes_def setRouterHandlers_def

lemma sentRouted_noteEachPlayer: "noteEachPlayer result names c = Some c' \<Longrightarrow> sentRouted c \<Longrightarrow> sentRouted c'"
proof (induction result names c rule: noteEachPlayer.induct)
  case (2 result p names c)
  have "routed ((''POST'', adminURL ''ack_player_added'' c), PostAckPlayerAdded m)" for m by (rule routed_admin) (simp add: route_simps)
  with 2 show ?case by (auto simp: sentRouted_post Let_def split: HttpResult.splits)
qed simp

lemma sentRouted_ack: "sentRouted c \<Longrightarrow> sentRouted (ackPlayerSyncToAdmin result n c)"
proof -
  have "routed ((''POST'', adminURL ''ack-decision-sync'' c), PostAckDecisionSync m)" for m by (rule routed_admin) (simp add: route_simps)
  then show "sentRouted c \<Longrightarrow> sentRouted (ackPlayerSyncToAdmin result n c)"
    by (cases result) (simp_all add: ackPlayerSyncToAdmin_def sentRouted_post Let_def)
qed

lemma sentRouted_event:
  assumes "handleServerEvent srt result taken ev c = Some c'" "sentRouted c"
  shows "sentRouted c'"
  using assms(1)
proof (cases ev)
  case (PlayerJoinedEvent p)
  with assms show ?thesis by (auto simp: Let_def intro: sentRouted_noteEachPlayer simp del: noteEachPlayer.simps)
next
  case (PlayerDecisionsSyncEvent req)
  have "sentRouted (ackPlayerSyncToAdmin (result (DecidingPlayer req)) n (c\<lparr>ctable := t, gameEvents := ch\<rparr>))" for n t ch
    using assms(2) by (intro sentRouted_ack) simp
  with PlayerDecisionsSyncEvent assms show ?thesis by (auto simp: Let_def split: if_splits option.splits)
qed (use assms in \<open>auto simp: Let_def split: if_splits\<close>)

lemma sentRouted_sseLoop: "sseLoop srt result taken es c = Some c' \<Longrightarrow> sentRouted c \<Longrightarrow> sentRouted c'"
  by (induction srt result taken es c rule: sseLoop.induct)
    (auto split: option.splits intro: sentRouted_event)

lemma sentRouted_controller:
  assumes "sseController srt result taken first es c = Some c'" "sentRouted c"
  shows "sentRouted c'"
proof (cases first)
  case (Inl err)
  with assms show ?thesis by (auto simp: sseController_def Let_def)
next
  case (Inr names)
  let ?c = "logToWindow ''player_client_sse.go'' 15 ''connected to admin, starting SSE controller'' c"
  from Inr assms(1) obtain c1 where c1: "noteEachPlayer result names ?c = Some c1"
    "sseLoop srt result taken es ((logToWindow ''player_client_sse.go'' 33
      ''done sending ack to admin after receiving first existing players list event message'' c1)\<lparr>clientState := WaitingForAdminToServeCards\<rparr>) = Some c'"
    by (auto simp: sseController_def Let_def bind_eq_Some_conv)
  have "sentRouted c1" by (rule sentRouted_noteEachPlayer [OF c1(1)]) (use assms(2) in simp)
  then show ?thesis by (intro sentRouted_sseLoop [OF c1(2)]) simp
qed

lemma evalReplCommand_sent: "evalReplCommandOnTable srt cmd c = Some (r, c') \<Longrightarrow> sentRequests c' = sentRequests c"
  by (auto simp: evalReplCommandOnTable_def split: option.splits sum.splits prod.splits)

lemma decisionLoop_sent: "decisionLoop srt cmds ds xs c = Some (fin, rest, ds', xs', c') \<Longrightarrow> sentRequests c' = sentRequests c"
proof (induction cmds arbitrary: c ds xs)
  case (Cons cmd cmds)
  from Cons.prems obtain d err c1 where e: "evalReplCommandOnTable srt cmd c = Some ((d, err), c1)" by (auto split: option.splits)
  have s: "sentRequests c1 = sentRequests c" by (rule evalReplCommand_sent [OF e])
  show ?case
  proof (cases err)
    case None
    with e Cons.prems s show ?thesis by (auto simp: Let_def split: if_splits dest: Cons.IH)
  next
    case (Some er)
    from decisionLoop_rejected [OF e [unfolded Some], of cmds ds xs] Cons.prems
    obtain l where "decisionLoop srt cmds ds (xs @ [\<lparr>AskForOneMoreDecision = True, ResultError = Some er\<rparr>]) (c1\<lparr>logWindow := l\<rparr>) =
      Some (fin, rest, ds', xs', c')" by auto
    from Cons.IH [OF this] s show ?thesis by simp
  qed
qed simp

lemma sentRouted_ask:
  assumes "askAndRunUserDecisions srt cmds answer n c = Some (fin, c')" "sentRouted c"
  shows "sentRouted c'"
proof -
  have r: "routed ((''POST'', adminURL ''player_decisions'' b), PostDecisions m)" for b m by (rule routed_admin) (simp add: route_simps)
  obtain b where b: "postUserDecisions srt cmds n c = Some (fin, b)" "c' = (if fin then decisionsAnswered answer b else b)"
    using assms(1) by (auto simp: askAndRunUserDecisions_def bind_eq_Some_conv)
  let ?ask = "\<lambda>k. (logToWindow ''player_client.go'' 426 ''Asking for user decision'' c)\<lparr>askCommands := k\<rparr>"
  obtain k rest ds xs b1 where l: "decisionLoop srt cmds [] [] (?ask k) = Some (fin, rest, ds, xs, b1)"
    "b = (if fin then sendRequest ''POST'' (adminURL ''player_decisions'' b1)
       (PostDecisions \<lparr>Decisions = ds, DecidingPlayer = localName b1, DecisionEventCounter = n\<rparr>) b1 else b1)"
    using b(1) by (auto simp: postUserDecisions_def Let_def bind_eq_Some_conv split: if_splits)
  have "sentRouted b1" using assms(2) by (rule sentRouted_same) (use decisionLoop_sent [OF l(1)] in simp)
  then have "sentRouted b" using r by (simp add: l(2) sentRouted_post)
  then show ?thesis by (auto simp: b(2) decisionsAnswered_def split: HttpResult.split)
qed

lemma sentRouted_player: "sentRouted (sendRequest ''POST'' (HTTPAddressString addr @ ''/player'') (PostPlayer m) c) = sentRouted c"
proof -
  have "routed ((''POST'', HTTPAddressString addr @ ''/player''), PostPlayer m)" unfolding routed.simps
    by (intro exI conjI, rule refl) (simp add: route_simps)
  then show ?thesis by (simp add: sentRouted_post)
qed

lemma sentRouted_startController: "sentRouted (connectToAdminAndStartSSEController answer msg addr c) = sentRouted c"
  by (simp add: connectToAdminAndStartSSEController_def sentRouted_player Let_def split: HttpResult.split)

lemma sentRouted_command:
  assumes "sentRouted c"
  shows "sentRouted (handleGeneralCommand resolve answer ks cmd c)"
proof -
  have "routed ((''POST'', adminURL ''set_ready'' c), PostSetReady m)" for m by (rule routed_admin) (simp add: route_simps)
  with assms show ?thesis
    by (simp add: handleGeneralCommand_def sentRouted_post sentRouted_startController Let_def
      split: ReplCommandKind.split ExtraData.split sum.split HttpResult.split)
qed

lemma sentRouted_connect:
  assumes "connectToAdmin answer body result msg addr c = Some c'" "sentRouted c"
  shows "sentRouted c'"
  using assms by (auto simp: connectToAdmin_def sentRouted_player Let_def split: HttpResult.splits if_splits sum.splits
    dest!: sentRouted_noteEachPlayer)

lemma clientStep_routed: "clientStep c c' \<Longrightarrow> sentRouted c \<Longrightarrow> sentRouted c'"
proof (induction rule: clientStep.induct)
  case (served c taken cards)
  then show ?case by (auto simp: handleServedCardsEvent_def Let_def split: sum.split)
next
  case (chosen c chosen)
  then show ?case by (auto simp: handleChosenPlayerEvent_def split: sum.split)
next
  case (synced srt decisions c status c')
  then show ?case by (auto simp: handlePlayerDecisionsSyncEvent_def split: sum.splits if_splits option.splits)
next
  case (players result added c status c')
  then show ?case by (auto simp: handleAddNewPlayers_def split: sum.splits intro: sentRouted_noteEachPlayer)
qed (auto intro: sentRouted_event sentRouted_controller sentRouted_ask sentRouted_command sentRouted_connect)

interpretation clients: invariant_system "\<lambda>c. sentRequests c = []" clientStep sentRouted
  by unfold_locales (auto simp: sentRouted_def dest: clientStep_routed [unfolded sentRouted_def])

section \<open>Properties\<close>

text \<open>C11. Requests reach the handlers that read their messages: whatever a client receives, types, asks
  and answers, and in whatever order, every request it has sent goes to an address followed by a path
  for which the admin's router has exactly one route with the request's method, and that route's handler
  is the one that decodes the message of the request.\<close>

theorem requests_reach_handlers:
  assumes "clientStep\<^sup>*\<^sup>* (NewPlayerClient t addr0 ip) c" "((meth, url), r) \<in> set (sentRequests c)"
  shows "\<exists>addr path. url = HTTPAddressString addr @ path \<and> matchingRoutes setRouterHandlers meth path = [Some (handlerOf r)]"
proof -
  have "sentRouted c" by (rule clients.reachable_inv [OF _ assms(1)]) (simp add: NewPlayerClient_def)
  with assms(2) have "routed ((meth, url), r)" unfolding sentRouted_def by blast
  then show ?thesis unfolding routed.simps .
qed

theorem requests_reach_handlers_witness:
  "\<exists>url. sentRequests (handleGeneralCommand (\<lambda>_. Inl []) (HttpStatus 200) [] (NewReplCommand CmdDeclareReady ''al'') demoClient) =
     [((''POST'', url), PostSetReady \<lparr>readyShufflerName = ''al'', ShufflerIsFirstPlayer = False\<rparr>)] \<and>
     (\<exists>addr path. url = HTTPAddressString addr @ path \<and> matchingRoutes setRouterHandlers ''POST'' path = [Some HandleSetReady])"
proof -
  let ?c = "handleGeneralCommand (\<lambda>_. Inl []) (HttpStatus 200) [] (NewReplCommand CmdDeclareReady ''al'') demoClient"
  let ?r = "PostSetReady \<lparr>readyShufflerName = ''al'', ShufflerIsFirstPlayer = False\<rparr>"
  obtain url where s: "sentRequests ?c = [((''POST'', url), ?r)]"
    by (simp add: handleGeneralCommand_def NewReplCommand_def sendRequest_def demoClient_def NewPlayerClient_def Let_def)
  have "clientStep\<^sup>*\<^sup>* demoClient ?c" by (rule r_into_rtranclp) (rule clientStep.command)
  from requests_reach_handlers [OF this [unfolded demoClient_def], folded demoClient_def, of "''POST''" url ?r] s show ?thesis by auto
qed

end
