(* ===== verification/ClientUI.thy ===== *)
theory ClientUI
  imports Complex_Main Client History
begin

text \<open>
  The terminal interface of the client (\<open>player_client/player_client_ui.go\<close>, \<open>uiaction_string.go\<close>,
  \<open>replcommandkind_string.go\<close>): the data behind the widgets, the prompt with its history, and what
  keys, log lines, requests for a decision, served cards and game events do to them.  The grid is
  the list of its rows; rendering is not modelled; the styles a fresh widget has are parameters, as they come from the
  widget library.  Float values of the chart are integers.  Operations hold their mutexes for one
  step.  \<open>None\<close> is a panic, or an operation that waits at a channel without a buffer, or at a mutex, for a
  goroutine that is not there.  \<open>reader\<close> is where the goroutine of a request for decisions is, which
  receives on \<open>decisionReplCommandConsumerChan\<close>, and \<open>generalReader\<close> says whether the client's handler
  receives on the channel of the other commands.
\<close>

section \<open>State\<close>

datatype UIAction = uiUpdated | uiRedrawGrid | uiClearRedrawGrid | uiStop

datatype ClientUIState =
    ClientUIOnlyAllowInspectReplCommands
  | ClientUIAllowPlayerDecisionReplCommands
  | ClientUIWeHaveAWinner

datatype uiColor = UiRed | UiGreen | UiYellow | UiBlue | UiMagenta | UiWhite

text \<open>The goroutine that asks: there is none, it waits for a command, or it has one and waits for the
  client's answer.\<close>

datatype asker = NoAsker | Receiving | Deciding

abbreviation "maxLinesInEventLog \<equiv> (50 :: nat)"
abbreviation "numCardsToShowInPile \<equiv> (12 :: nat)"

definition defaultCommandPromptCellTitle :: string where
  "defaultCommandPromptCellTitle = ''Not your turn (only info commands allowed)''"

text \<open>The grid: rows and columns with their share of the space around them.\<close>

datatype uiWidget = DrawDeckGauge | PileCell nat | HandCountChart | EventLogCell | SelfHandWidget | CommandPromptCell

datatype GridItem = NewRow rat "GridItem list" | NewCol rat "GridItem list" | Widget uiWidget

record ClientUI =
  uiState :: ClientUIState
  action :: UIAction
  windowWidth :: int
  windowHeight :: int
  uiGrid :: "GridItem list"
  gridRect :: "int \<times> int"
  gaugePercent :: int
  gaugeColor :: uiColor
  chartLabels :: "string list"
  chartData :: "int list"
  chartStyles :: "uiColor list"
  selfHandText :: string
  uiPile :: Deck
  uiHand :: Deck
  pileCells :: "(string \<times> string) list"
  eventLogText :: string
  eventLogBorder :: uiColor
  eventLogLines :: "string list"
  promptCellText :: string
  promptTitle :: string
  promptBorder :: uiColor
  promptTextFg :: uiColor
  commandStringBeingTyped :: string
  commandHistory :: HistoryRing
  commandHistoryPos :: HistoryPos
  reader :: asker
  generalReader :: bool
  decisionCommands :: "ReplCommand list"
  generalCommands :: "ReplCommand list"

section \<open>Names\<close>

text \<open>The generated \<open>String\<close> methods slice one string by a table of positions.\<close>

definition sliceName :: "string \<Rightarrow> nat list \<Rightarrow> nat \<Rightarrow> string" where
  "sliceName names index i = take (index ! Suc i - index ! i) (drop (index ! i) names)"

definition ReplCommandKindString :: "ReplCommandKind \<Rightarrow> string" where
  "ReplCommandKindString k =
     sliceName ''CmdNoneCmdAskUserToPlayCmdDeclareReadyCmdQuitCmdConnectCmdTableSummaryCmdDumpDrawDeckCmdShowHandCmdDropCardCmdDrawCardCmdPassCmdDrawCardFromPileCmdSetWildCardColorCmdNoChallengeCmdChallenge''
       [0, 7, 23, 38, 45, 55, 70, 85, 96, 107, 118, 125, 144, 163, 177, 189] (kindNumber k)"

fun actionNumber :: "UIAction \<Rightarrow> nat" where
  "actionNumber uiUpdated = 0"
| "actionNumber uiRedrawGrid = 1"
| "actionNumber uiClearRedrawGrid = 2"
| "actionNumber uiStop = 3"

definition UIActionString :: "UIAction \<Rightarrow> string" where
  "UIActionString a = sliceName ''uiUpdateduiRedrawGriduiClearRedrawGriduiStop'' [0, 9, 21, 38, 44] (actionNumber a)"

fun ClientErrorString :: "ClientError \<Rightarrow> string" where
  "ClientErrorString (DecisionRejected e) = ErrorString e"
| "ClientErrorString ClientShouldNotHappen = ''something like this should not happen, please check the code''"
| "ClientErrorString ErrorUnimplementedReplCommand = ''unimplemented repl command''"

section \<open>Redrawing, log and prompt\<close>

definition notifyRedrawUI :: "UIAction \<Rightarrow> ClientUI \<Rightarrow> ClientUI" where
  "notifyRedrawUI a u = u\<lparr>action := a\<rparr>"

fun splitLines :: "string \<Rightarrow> string list" where
  "splitLines [] = [[]]"
| "splitLines (c # cs) =
     (if c = CHR 0x0A then [] # splitLines cs else (c # hd (splitLines cs)) # tl (splitLines cs))"

definition appendEventLogNoLock :: "string \<Rightarrow> ClientUI \<Rightarrow> ClientUI" where
  "appendEventLogNoLock s u =
     (let ls = eventLogLines u @ splitLines s;
          low = length ls - maxLinesInEventLog;
          u = u\<lparr>eventLogText := concat (map (\<lambda>l. l @ newline) (rev (drop low ls)))\<rparr>;
          l = length ls
      in u\<lparr>eventLogLines := (if l > maxLinesInEventLog then drop (l - maxLinesInEventLog) ls else ls)\<rparr>)"

definition appendEventLog :: "string \<Rightarrow> ClientUI \<Rightarrow> ClientUI" where
  "appendEventLog s u = notifyRedrawUI uiRedrawGrid (appendEventLogNoLock s u)"

definition promptCell :: "string \<Rightarrow> string" where
  "promptCell s = '' '' @ s @ ''_''"

definition appendCommandPrompt :: "string \<Rightarrow> ClientUI \<Rightarrow> ClientUI" where
  "appendCommandPrompt s u =
     (let u = u\<lparr>commandStringBeingTyped := commandStringBeingTyped u @ s\<rparr>
      in notifyRedrawUI uiRedrawGrid (u\<lparr>promptCellText := promptCell (commandStringBeingTyped u)\<rparr>))"

definition backspaceCommandPrompt :: "ClientUI \<Rightarrow> ClientUI" where
  "backspaceCommandPrompt u =
     (let n = length (commandStringBeingTyped u);
          u = (if n \<ge> 1 then u\<lparr>commandStringBeingTyped := take (n - 1) (commandStringBeingTyped u)\<rparr> else u)
      in notifyRedrawUI uiRedrawGrid (u\<lparr>promptCellText := promptCell (commandStringBeingTyped u)\<rparr>))"

definition resetCommandPrompt :: "string \<Rightarrow> ClientUI \<Rightarrow> ClientUI" where
  "resetCommandPrompt txt u =
     notifyRedrawUI uiRedrawGrid (u\<lparr>commandStringBeingTyped := txt, promptCellText := promptCell txt\<rparr>)"

text \<open>\<open>errText\<close> is the text of a parse error.  A decision command is handed to the goroutine that
  asks, any other one to the client's handler, which is then busy with it; while the goroutine in question
  does not receive, the send waits with both mutexes held.\<close>

definition handleCommandInput :: "(ParseError \<Rightarrow> string) \<Rightarrow> string \<Rightarrow> ClientUI \<Rightarrow> ClientUI option" where
  "handleCommandInput errText playerName u =
     (case ParseCommandFromInput (commandStringBeingTyped u) playerName of
        (_, Some err) \<Rightarrow> Some (appendEventLog (errText err) u)
      | (command, None) \<Rightarrow>
          (let u = appendEventLog (''ClientUI received command: '' @ ReplCommandKindString (cmdKind command)) u;
               remember = (\<lambda>u. do {
                 (h, pos) \<leftarrow> PosPush (commandStringBeingTyped u) (commandHistory u);
                 Some (resetCommandPrompt [] (u\<lparr>commandHistory := h, commandHistoryPos := pos\<rparr>))
               })
           in if IsUserDecisionCommand (cmdKind command)
              then (if uiState u \<noteq> ClientUIAllowPlayerDecisionReplCommands
                    then Some (appendEventLog ''User decision commands not allowed currently!'' u)
                    else if reader u \<noteq> Receiving then None
                    else remember (u\<lparr>reader := Deciding, decisionCommands := decisionCommands u @ [command]\<rparr>))
              else if \<not> generalReader u then None
              else remember (u\<lparr>generalReader := False, generalCommands := generalCommands u @ [command]\<rparr>)))"

section \<open>Table elements\<close>

fun chartLoop :: "Table \<Rightarrow> nat \<Rightarrow> int list \<Rightarrow> ClientUI \<Rightarrow> ClientUI option" where
  "chartLoop t i [] u = Some u"
| "chartLoop t i (playerIndex # is) u = do {
     playerName \<leftarrow> go_index (PlayerNames t) playerIndex;
     ls \<leftarrow> go_update (chartLabels u) (int i) playerName;
     ds \<leftarrow> go_update (chartData u) (int i) (int (length (handOf t playerName)));
     chartLoop t (Suc i) is (u\<lparr>chartLabels := ls, chartData := ds\<rparr>)
   }"

text \<open>The widget has a fixed slice of label styles; a label beyond it panics.\<close>

fun styleLoop :: "nat \<Rightarrow> nat \<Rightarrow> uiColor list \<Rightarrow> uiColor list option" where
  "styleLoop i 0 styles = Some styles"
| "styleLoop i (Suc n) styles = do {
     styles \<leftarrow> go_update styles (int i) (if i = 0 then UiRed else UiBlue);
     styleLoop (Suc i) n styles
   }"

definition showStrings :: "string list \<Rightarrow> string" where
  "showStrings ss = ''['' @ concat (case ss of [] \<Rightarrow> [] | s # ss \<Rightarrow> s # map (\<lambda>s. '' '' @ s) ss) @ '']''"

definition sortHandCountChartByTurn :: "Table \<Rightarrow> ClientUI \<Rightarrow> ClientUI option" where
  "sortHandCountChartByTurn t u = do {
     is \<leftarrow> PlayerIndicesSortedByTurn t;
     u \<leftarrow> chartLoop t 0 is u;
     styles \<leftarrow> styleLoop 0 (length (chartLabels u)) (chartStyles u);
     let u = u\<lparr>chartStyles := styles\<rparr>;
     Some (appendEventLogNoLock (''Handcount chart labels set to: '' @ showStrings (chartLabels u)) u)
   }"

definition updatePlayerHandWidget :: "ClientUI \<Rightarrow> ClientUI option" where
  "updatePlayerHandWidget u = do { s \<leftarrow> symbolsOf (uiHand u); Some (u\<lparr>selfHandText := s\<rparr>) }"

fun cellLoop :: "nat \<Rightarrow> Card list \<Rightarrow> (string \<times> string) list \<Rightarrow> (string \<times> string) list option" where
  "cellLoop i [] cells = Some cells"
| "cellLoop i (c # cs) cells = do {
     let cellIndex = int (length cells) - int i - 1;
     s \<leftarrow> SymbolString c;
     cells \<leftarrow> go_update cells cellIndex (s, show_nat i);
     cellLoop (Suc i) cs cells
   }"

definition refreshDiscardPileCells :: "ClientUI \<Rightarrow> ClientUI option" where
  "refreshDiscardPileCells u = do {
     let low = length (uiPile u) - numCardsToShowInPile;
     cells \<leftarrow> cellLoop 0 (drop low (uiPile u)) (pileCells u);
     Some (u\<lparr>pileCells := cells\<rparr>)
   }"

definition initDiscardPileCells :: "Table \<Rightarrow> ClientUI \<Rightarrow> ClientUI option" where
  "initDiscardPileCells t u = refreshDiscardPileCells (u\<lparr>uiPile := Clone (DiscardedPile t)\<rparr>)"

definition initTableElements :: "Card swaps \<Rightarrow> Table \<Rightarrow> string \<Rightarrow> ClientUI \<Rightarrow> ClientUI option" where
  "initTableElements srt t localPlayerName u = do {
     let playerCount = length (PlayerNames t);
     let u = (if length (chartLabels u) < playerCount
              then u\<lparr>chartLabels := replicate playerCount [], chartData := replicate playerCount 0\<rparr>
              else u\<lparr>chartLabels := take playerCount (chartLabels u), chartData := take playerCount (chartData u)\<rparr>);
     u \<leftarrow> sortHandCountChartByTurn t u;
     let u = u\<lparr>gaugePercent := Len (DrawDeck t)\<rparr>;
     u \<leftarrow> initDiscardPileCells t u;
     updatePlayerHandWidget (u\<lparr>uiHand := goSort srt (Clone (handOf t localPlayerName))\<rparr>)
   }"

text \<open>The struct before it is initialised, and its widgets as they are created; \<open>styles\<close>, \<open>fg\<close> and \<open>border\<close>
  are what the library gives to a new chart and a new paragraph.\<close>

definition zeroClientUI :: ClientUI where
  "zeroClientUI =
     \<lparr>uiState = ClientUIOnlyAllowInspectReplCommands, action = uiUpdated, windowWidth = 0, windowHeight = 0, uiGrid = [], gridRect = (0, 0),
      gaugePercent = 0, gaugeColor = UiWhite, chartLabels = [], chartData = [], chartStyles = [],
      selfHandText = [], uiPile = [], uiHand = [], pileCells = [], eventLogText = [], eventLogBorder = UiWhite,
      eventLogLines = [], promptCellText = [], promptTitle = [], promptBorder = UiWhite, promptTextFg = UiWhite,
      commandStringBeingTyped = [], commandHistory = NewHistoryRing 0, commandHistoryPos = 0,
      reader = NoAsker, generalReader = False, decisionCommands = [], generalCommands = []\<rparr>"

definition initWidgetObjects :: "uiColor list \<Rightarrow> uiColor \<Rightarrow> uiColor \<Rightarrow> ClientUI \<Rightarrow> ClientUI" where
  "initWidgetObjects styles fg border u =
     (let u = u\<lparr>chartLabels := [], chartData := [], chartStyles := styles, gaugePercent := 100, gaugeColor := UiWhite,
            eventLogText := [], eventLogBorder := border, eventLogLines := [],
            promptTitle := defaultCommandPromptCellTitle, promptBorder := UiRed, promptTextFg := fg\<rparr>;
          u = resetCommandPrompt [] u
      in u\<lparr>commandHistory := NewHistoryRing 4, selfHandText := [], uiPile := NewEmptyDeck, uiHand := NewEmptyDeck,
           pileCells := replicate numCardsToShowInPile (''_'', [])\<rparr>)"

definition embedWidgetsInGrid :: "ClientUI \<Rightarrow> ClientUI" where
  "embedWidgetsInGrid u =
     (let sizePerPileCell = 1 / of_nat numCardsToShowInPile;
          pileCellRows = map (\<lambda>i. NewRow sizePerPileCell [Widget (PileCell i)]) [0..<length (pileCells u)]
      in u\<lparr>uiGrid :=
           [NewRow (2 / 100) [Widget DrawDeckGauge],
            NewRow (8 / 10)
              [NewCol (3 / 10) pileCellRows,
               NewCol (3 / 10) [Widget HandCountChart],
               NewCol (4 / 10) [Widget EventLogCell]],
            NewRow (8 / 100) [Widget SelfHandWidget],
            NewRow (1 / 10) [Widget CommandPromptCell]]\<rparr>)"

text \<open>The size of the terminal, like the styles, comes from the library, which may fail to start.\<close>

definition InitUI :: "int \<times> int \<Rightarrow> uiColor list \<Rightarrow> uiColor \<Rightarrow> uiColor \<Rightarrow> ClientUI" where
  "InitUI rect styles fg border =
     (let u = zeroClientUI\<lparr>uiState := ClientUIOnlyAllowInspectReplCommands, action := uiRedrawGrid\<rparr>;
          u = (initWidgetObjects styles fg border u)\<lparr>gridRect := rect\<rparr>
      in embedWidgetsInGrid u)"

definition initClientUI :: "string option \<Rightarrow> int \<times> int \<Rightarrow> uiColor list \<Rightarrow> uiColor \<Rightarrow> uiColor \<Rightarrow> ClientUI option" where
  "initClientUI uiInit rect styles fg border =
     (case uiInit of Some err \<Rightarrow> None | None \<Rightarrow> Some (InitUI rect styles fg border))"

definition uiColorOfCard :: "Color \<Rightarrow> uiColor option" where
  "uiColorOfCard c =
     (if c = ColorBlue then Some UiBlue
      else if c = ColorRed then Some UiRed
      else if c = ColorGreen then Some UiGreen
      else if c = ColorYellow then Some UiYellow
      else if c = ColorWild then Some UiMagenta
      else None)"

section \<open>Commands of the client\<close>

definition handleUICommand :: "Card swaps \<Rightarrow> string \<Rightarrow> UICommand \<Rightarrow> ClientUI \<Rightarrow> ClientUI option" where
  "handleUICommand srt localPlayerName cmd u =
     (case cmd of UICommandSetServedCards t \<Rightarrow> do {
        let u = appendEventLog ''Received UICommandSetServedCards'' u;
        u \<leftarrow> initTableElements srt t localPlayerName (u\<lparr>gaugePercent := Len (DrawDeck t)\<rparr>);
        Some (notifyRedrawUI uiRedrawGrid u)
      })"

text \<open>Keys, a new size, and log lines.\<close>

datatype uiEvent = KeyEvent string | ResizeEvent int int | LogMessage string

definition historyKey :: "(HistoryRing \<Rightarrow> HistoryPos \<Rightarrow> ((string \<times> bool) \<times> HistoryPos) option) \<Rightarrow> ClientUI \<Rightarrow> ClientUI option" where
  "historyKey get u =
     (case get (commandHistory u) (commandHistoryPos u) of
        None \<Rightarrow> None
      | Some ((cmd, ok), pos) \<Rightarrow>
          (let u = u\<lparr>commandHistoryPos := pos\<rparr> in Some (if ok then resetCommandPrompt cmd u else u)))"

fun handleUIEvent :: "(ParseError \<Rightarrow> string) \<Rightarrow> string \<Rightarrow> uiEvent \<Rightarrow> ClientUI \<Rightarrow> ClientUI option" where
  "handleUIEvent errText playerName (KeyEvent k) u =
     (if k = ''<C-c>''
      then (if \<not> generalReader u then None
            else Some (notifyRedrawUI uiStop
              (u\<lparr>generalReader := False, generalCommands := generalCommands u @ [NewReplCommand CmdQuit playerName]\<rparr>)))
      else if k = ''<Enter>'' then handleCommandInput errText playerName u
      else if k = ''<Space>'' then Some (appendCommandPrompt '' '' u)
      else if k = ''<Backspace>'' then Some (backspaceCommandPrompt u)
      else if k = ''<Up>'' then historyKey GetOlder u
      else if k = ''<Down>'' then historyKey GetNewer u
      else if take 1 k \<noteq> ''<'' \<and> (k = [] \<or> last k \<noteq> CHR 0x3E) then Some (appendCommandPrompt k u)
      else Some u)"
| "handleUIEvent errText playerName (ResizeEvent w h) u =
     Some (notifyRedrawUI uiRedrawGrid (u\<lparr>windowWidth := w, windowHeight := h, gridRect := (w, h)\<rparr>))"
| "handleUIEvent errText playerName (LogMessage m) u = Some (appendEventLog m u)"

text \<open>A request for decisions: the goroutine starts to receive, hands on each command and gets an
  answer, and after the last one resets the interface.\<close>

definition askUserForDecision :: "UICommandAskUserForDecision \<Rightarrow> ClientUI \<Rightarrow> ClientUI" where
  "askUserForDecision cmd u =
     (if uiState u = ClientUIWeHaveAWinner
      then appendEventLog ''Not processing user decision since we have a winner'' u
      else
        let u = notifyRedrawUI uiRedrawGrid (u\<lparr>uiState := ClientUIAllowPlayerDecisionReplCommands, promptBorder := UiBlue,
              promptTextFg := UiBlue, promptTitle := ''Your turn now''\<rparr>);
            u = (if LocalPlayerCanChallenge cmd
                 then notifyRedrawUI uiRedrawGrid
                   (u\<lparr>promptTitle := ''challenge or no_challenge '' @ challengeablePlayer cmd @ ''?''\<rparr>)
                 else u)
        in u\<lparr>reader := Receiving\<rparr>)"

definition answerDecision :: "AskUserForDecisionResult \<Rightarrow> ClientUI \<Rightarrow> ClientUI" where
  "answerDecision r u =
     (let u = (case ResultError r of
                 None \<Rightarrow> u
               | Some e \<Rightarrow> appendEventLog (ClientErrorString e)
                   (notifyRedrawUI uiRedrawGrid (u\<lparr>eventLogBorder := UiRed\<rparr>)))
      in u\<lparr>reader := (if AskForOneMoreDecision r then Receiving else NoAsker)\<rparr>)"

definition resetLogBorder :: "ClientUI \<Rightarrow> ClientUI" where
  "resetLogBorder u = notifyRedrawUI uiRedrawGrid (u\<lparr>eventLogBorder := UiWhite\<rparr>)"

definition finishAsking :: "UICommandAskUserForDecision \<Rightarrow> ClientUI \<Rightarrow> ClientUI" where
  "finishAsking cmd u =
     (let u = (if uiState u \<noteq> ClientUIWeHaveAWinner
               then notifyRedrawUI uiRedrawGrid
                 ((appendEventLog ''Done accepting decision commands in REPL'' (u\<lparr>uiState := ClientUIOnlyAllowInspectReplCommands\<rparr>))
                   \<lparr>promptBorder := UiRed, promptTextFg := UiWhite, promptTitle := defaultCommandPromptCellTitle\<rparr>)
               else u)
      in if LocalPlayerCanChallenge cmd then u\<lparr>promptTitle := defaultCommandPromptCellTitle\<rparr> else u)"

section \<open>Game events\<close>

fun addLoop :: "string \<Rightarrow> int \<Rightarrow> string list \<Rightarrow> int list \<Rightarrow> int list option" where
  "addLoop p n [] ds = None"
| "addLoop p n (l # ls) [] = None"
| "addLoop p n (l # ls) (d # ds) = (if l = p then Some ((d + n) # ds) else map_option ((#) d) (addLoop p n ls ds))"

definition addToHandCountChart :: "string \<Rightarrow> int \<Rightarrow> ClientUI \<Rightarrow> ClientUI" where
  "addToHandCountChart playerName cardCount u =
     (case addLoop playerName cardCount (chartLabels u) (chartData u) of
        Some ds \<Rightarrow> u\<lparr>chartData := ds\<rparr>
      | None \<Rightarrow> appendEventLogNoLock (''addToHandCountChart failed: did not find playerName '' @ playerName) u)"

text \<open>The source of a transfer.  The inner option is the early return; a card that is not in the hand
  is logged with the lock held, which blocks for ever.\<close>

definition transferSource :: "CardTransferNode \<Rightarrow> string \<Rightarrow> Card \<Rightarrow> string \<Rightarrow> ClientUI \<Rightarrow> (bool \<times> ClientUI) option" where
  "transferSource source sourcePlayer c localPlayerName u =
     (case source of
        CardTransferNodeDeck \<Rightarrow> Some (True, u\<lparr>gaugePercent := gaugePercent u - 1\<rparr>)
      | CardTransferNodePile \<Rightarrow>
          (case Pop (uiPile u) of
             (d, Some _) \<Rightarrow>
               Some (False, appendEventLogNoLock ''handleCardTransferEvent failed: Transfer from empty pile'' (u\<lparr>uiPile := d\<rparr>))
           | (d, None) \<Rightarrow> Some (True, u\<lparr>uiPile := d\<rparr>))
      | CardTransferNodePlayerHand \<Rightarrow>
          (let u = addToHandCountChart sourcePlayer (-1) u in
           if localPlayerName = sourcePlayer
           then (case FindAndRemoveCard (uiHand u) c of
                   None \<Rightarrow> None
                 | Some (_, Some _) \<Rightarrow> None
                 | Some (h, None) \<Rightarrow> map_option (Pair True) (updatePlayerHandWidget (u\<lparr>uiHand := h\<rparr>)))
           else Some (True, u)))"

definition transferSink :: "Card swaps \<Rightarrow> CardTransferNode \<Rightarrow> string \<Rightarrow> Card \<Rightarrow> string \<Rightarrow> ClientUI \<Rightarrow> ClientUI option" where
  "transferSink srt sink sinkPlayer c localPlayerName u =
     (case sink of
        CardTransferNodeDeck \<Rightarrow> Some (u\<lparr>gaugePercent := gaugePercent u + 1\<rparr>)
      | CardTransferNodePile \<Rightarrow> refreshDiscardPileCells (u\<lparr>uiPile := Push (uiPile u) [c]\<rparr>)
      | CardTransferNodePlayerHand \<Rightarrow>
          (let u = addToHandCountChart sinkPlayer 1 u in
           if localPlayerName = sinkPlayer
           then updatePlayerHandWidget (u\<lparr>uiHand := goSort srt (Push (uiHand u) [c])\<rparr>)
           else Some u))"

definition handleCardTransferEvent ::
  "Card swaps \<Rightarrow> CardTransferNode \<Rightarrow> CardTransferNode \<Rightarrow> string \<Rightarrow> string \<Rightarrow> Card \<Rightarrow> string \<Rightarrow> ClientUI \<Rightarrow> ClientUI option" where
  "handleCardTransferEvent srt source sink sourcePlayer sinkPlayer c localPlayerName u =
     (let u = appendEventLogNoLock (''handleCardTransferEvent: '' @
            CardTransferEventString source sink sourcePlayer sinkPlayer c localPlayerName @ '', localPlayerName: '' @ localPlayerName) u
      in case transferSource source sourcePlayer c localPlayerName u of
           None \<Rightarrow> None
         | Some (False, u) \<Rightarrow> Some u
         | Some (True, u) \<Rightarrow> transferSink srt sink sinkPlayer c localPlayerName u)"

definition setTurnBasedCommandPromptTitle :: "string \<Rightarrow> ClientUI \<Rightarrow> ClientUI" where
  "setTurnBasedCommandPromptTitle title u = (if uiState u \<noteq> ClientUIWeHaveAWinner then u\<lparr>promptTitle := title\<rparr> else u)"

text \<open>The goroutine after its pause.\<close>

definition runResetCommandPromptTitle :: "ClientUI \<Rightarrow> ClientUI" where
  "runResetCommandPromptTitle u =
     notifyRedrawUI uiRedrawGrid (setTurnBasedCommandPromptTitle defaultCommandPromptCellTitle u)"

fun handleGameEvent :: "Card swaps \<Rightarrow> string \<Rightarrow> GameEvent \<Rightarrow> ClientUI \<Rightarrow> ClientUI option" where
  "handleGameEvent srt me (RequiredColorUpdatedEvent newColor) u = do {
     k \<leftarrow> uiColorOfCard newColor;
     Some (notifyRedrawUI uiRedrawGrid (u\<lparr>gaugeColor := k\<rparr>))
   }"
| "handleGameEvent srt me (CardTransferEvent source sink sourcePlayer sinkPlayer c _) u =
     map_option (notifyRedrawUI uiRedrawGrid) (handleCardTransferEvent srt source sink sourcePlayer sinkPlayer c me u)"
| "handleGameEvent srt me (AwaitingWildCardColorDecisionEvent player isDraw4 askLocal b) u =
     (if askLocal
      then map_option (\<lambda>s. appendEventLog s u) (StringMessage (AwaitingWildCardColorDecisionEvent player isDraw4 askLocal b) me)
      else Some u)"
| "handleGameEvent srt me (ChallengerSuccessEvent challenger wildPlayer eligible b) u =
     Some (if b then notifyRedrawUI uiRedrawGrid
                       (u\<lparr>promptTitle := ''CHALLENGE SUCCEEDED, '' @ wildPlayer @ '' will draw 4 cards''\<rparr>) else u)"
| "handleGameEvent srt me (ChallengerFailedEvent challenger wildPlayer b) u =
     Some (if b then notifyRedrawUI uiRedrawGrid
                       (u\<lparr>promptTitle := ''CHALLENGE FAILED, you will draw 6 cards instead of 4''\<rparr>) else u)"
| "handleGameEvent srt me (AwaitingPlayOrPassEvent player askLocal b) u =
     Some (if b then notifyRedrawUI uiRedrawGrid (u\<lparr>promptTitle := ''Please play a card or pass''\<rparr>) else u)"
| "handleGameEvent srt me (PlayerPassedTurnEvent player nextPlayer b) u =
     Some (if b \<and> uiState u \<noteq> ClientUIWeHaveAWinner
           then notifyRedrawUI uiRedrawGrid (u\<lparr>promptTitle := defaultCommandPromptCellTitle\<rparr>) else u)"
| "handleGameEvent srt me (PlayerHasWonEvent player b) u =
     map_option (\<lambda>s. notifyRedrawUI uiRedrawGrid (u\<lparr>uiState := ClientUIWeHaveAWinner, promptTitle := s\<rparr>))
       (StringMessage (PlayerHasWonEvent player b) me)"
| "handleGameEvent srt me _ u = Some (appendEventLog ''<Unknown game event received>'' u)"

fun RunGameEventProcessor :: "Card swaps \<Rightarrow> string \<Rightarrow> GameEvent list \<Rightarrow> ClientUI \<Rightarrow> ClientUI option" where
  "RunGameEventProcessor srt me [] u = Some u"
| "RunGameEventProcessor srt me (ev # evs) u =
     (case handleGameEvent srt me ev u of None \<Rightarrow> None | Some u \<Rightarrow> RunGameEventProcessor srt me evs u)"

text \<open>One round of the draw loop, once there is something to draw: whether it goes on, and how often it
  cleared and drew.\<close>

definition RunDrawLoop :: "ClientUI \<Rightarrow> (bool \<times> nat \<times> ClientUI) option" where
  "RunDrawLoop u =
     (case action u of
        uiStop \<Rightarrow> Some (False, 0, u)
      | uiClearRedrawGrid \<Rightarrow> Some (True, 2, u\<lparr>action := uiUpdated\<rparr>)
      | uiRedrawGrid \<Rightarrow> Some (True, 1, u\<lparr>action := uiUpdated\<rparr>)
      | uiUpdated \<Rightarrow> None)"

section \<open>The start\<close>

lemmas InitUI_simps = InitUI_def embedWidgetsInGrid_def initWidgetObjects_def zeroClientUI_def Let_def

text \<open>The client's handler of other commands comes back to its channel.\<close>

definition receiveGeneral :: "ClientUI \<Rightarrow> ClientUI" where
  "receiveGeneral u = u\<lparr>generalReader := True\<rparr>"

text \<open>The rows of the grid, the columns of its middle row and the cells of the pile fill the space they have.\<close>

fun share :: "GridItem \<Rightarrow> rat" where
  "share (NewRow r _) = r"
| "share (NewCol r _) = r"
| "share (Widget _) = 1"

definition fills :: "GridItem list \<Rightarrow> bool" where
  "fills items \<longleftrightarrow> sum_list (map share items) = 1"

lemma grid_fills:
  "fills (uiGrid (InitUI rect styles fg border))"
  "NewRow r items \<in> set (uiGrid (InitUI rect styles fg border)) \<Longrightarrow> fills items"
  "NewRow r items \<in> set (uiGrid (InitUI rect styles fg border)) \<Longrightarrow> NewCol q cells \<in> set items \<Longrightarrow> fills cells"
  by (auto simp: fills_def InitUI_simps resetCommandPrompt_def notifyRedrawUI_def o_def sum_list_triv)

end
