(* ===== verification/UIView.thy ===== *)
theory UIView
  imports ClientUI
begin

text \<open>
  What the interface shows is what is on the table.  A view is the part of a table that the interface
  displays; an event of the game changes a view.  The first part shows that the events an evaluation
  sends describe what it did to the table, the second that the interface follows the events.
\<close>

section \<open>Views\<close>

record view =
  vDeck :: int
  vPile :: Deck
  vHands :: "string \<Rightarrow> Card multiset"
  vNames :: "string list"

definition viewOf :: "Table \<Rightarrow> view" where
  "viewOf t = \<lparr>vDeck = int (length (DrawDeck t)), vPile = DiscardedPile t, vHands = (\<lambda>p. mset (handOf t p)), vNames = PlayerNames t\<rparr>"

fun viewStep :: "GameEvent \<Rightarrow> view \<Rightarrow> view option" where
  "viewStep (CardTransferEvent CardTransferNodeDeck CardTransferNodePlayerHand _ p c _) v =
     (if p \<in> set (vNames v) \<and> valid_card c
      then Some (v\<lparr>vDeck := vDeck v - 1, vHands := (vHands v)(p := add_mset c (vHands v p))\<rparr>) else None)"
| "viewStep (CardTransferEvent CardTransferNodePlayerHand CardTransferNodePile p _ c _) v =
     (if p \<in> set (vNames v) \<and> c \<in># vHands v p \<and> valid_card c
      then Some (v\<lparr>vPile := vPile v @ [c], vHands := (vHands v)(p := vHands v p - {#c#})\<rparr>) else None)"
| "viewStep (CardTransferEvent _ _ _ _ _ _) v = None"
| "viewStep (RequiredColorUpdatedEvent c) v = (if 0 \<le> c \<and> c \<le> 4 then Some v else None)"
| "viewStep _ v = Some v"

fun viewRun :: "GameEvent list \<Rightarrow> view \<Rightarrow> view option" where
  "viewRun [] v = Some v"
| "viewRun (e # es) v = (case viewStep e v of None \<Rightarrow> None | Some v \<Rightarrow> viewRun es v)"

lemma viewRun_append [simp]: "viewRun (es @ fs) v = Option.bind (viewRun es v) (viewRun fs)"
  by (induction es arbitrary: v) (auto split: option.split)

section \<open>Evaluations describe what they do\<close>

definition emits :: "EventChan \<times> Table \<Rightarrow> EventChan \<times> Table \<Rightarrow> bool" where
  "emits s s' \<longleftrightarrow> (\<exists>evs. fst s' = fst s @ evs \<and> viewRun evs (viewOf (snd s)) = Some (viewOf (snd s')))"

lemma emits_trans [trans]: "emits s s' \<Longrightarrow> emits s' s'' \<Longrightarrow> emits s s''"
  by (auto simp: emits_def)

lemma emits_quiet: "viewOf t' = viewOf t \<Longrightarrow> viewRun evs (viewOf t) = Some (viewOf t) \<Longrightarrow> emits (ch, t) (ch @ evs, t')"
  by (auto simp: emits_def)

lemma emits_same: "viewOf t' = viewOf t \<Longrightarrow> emits (ch, t) (ch, t')"
  by (auto simp: emits_def)

lemma viewOf_fields [simp]:
  "viewOf (t\<lparr>TableState := s\<rparr>) = viewOf t" "viewOf (t\<lparr>Direction := d\<rparr>) = viewOf t"
  "viewOf (t\<lparr>WinnerPlayerName := w\<rparr>) = viewOf t" "viewOf (t\<lparr>RequiredNumberBeforeWild4 := n\<rparr>) = viewOf t"
  "viewOf (SetRequiredNumber n t) = viewOf t" "viewOf (SetPlayerOfNextTurn p t) = viewOf t"
  "viewOf (snd (sendRequiredColor c ch t)) = viewOf t"
  by (simp_all add: viewOf_def SetRequiredNumber_def SetPlayerOfNextTurn_def sendRequiredColor_eq)

lemma viewOf_neighbor: "setNeighborAsNextPlayer p s t = Some t' \<Longrightarrow> viewOf t' = viewOf t"
  by (auto simp: setNeighborAsNextPlayer_def option_bind_simps Let_def)

lemma viewOf_skip: "setNextPlayerSkipOne p t = Some ((q, r), t') \<Longrightarrow> viewOf t' = viewOf t \<and> q \<in> set (PlayerNames t)"
  by (auto simp: setNextPlayerSkipOne_def option_bind_simps Let_def go_index_Some)

lemma fst_sendRequiredColor [simp]: "fst (sendRequiredColor c ch t) = ch @ [RequiredColorUpdatedEvent c]"
  by (simp add: sendRequiredColor_eq)

text \<open>Drawing cards.\<close>

definition deckOk :: "Table \<Rightarrow> bool" where
  "deckOk t \<longleftrightarrow> (\<forall>c \<in> set (DrawDeck t). valid_card c)"

lemma deckOk_game: "wf_game t \<Longrightarrow> deckOk t"
  by (auto simp: deckOk_def wf_game_def tableCards_def)

lemma pull_emits:
  assumes "deckOk t" "p \<in> set (PlayerNames t)" "pullCardFromDeckToPlayerHand srt p l ch t = Some (r, ch', t')"
  shows "emits (ch, t) (ch', t') \<and> deckOk t' \<and> PlayerNames t' = PlayerNames t"
proof (cases "DrawDeck t = []")
  case True
  with assms show ?thesis by (auto simp: pull_empty emits_same)
next
  case False
  have "viewOf (pulledTable srt p t) = (viewOf t)\<lparr>vDeck := vDeck (viewOf t) - 1,
      vHands := (vHands (viewOf t))(p := add_mset (last (DrawDeck t)) (vHands (viewOf t) p))\<rparr>"
    using False by (auto simp: viewOf_def pulledTable_def map_get_def of_nat_diff Suc_le_eq fun_eq_iff)
  moreover have "valid_card (last (DrawDeck t))" "deckOk (pulledTable srt p t)"
    using assms(1) False by (auto simp: deckOk_def pulledTable_def dest: in_set_butlastD)
  ultimately show ?thesis using assms(2,3) False
    by (auto simp: pull_nonempty emits_def) (simp_all add: viewOf_def pulledTable_def)
qed

lemma pullCards_emits:
  "deckOk t \<Longrightarrow> p \<in> set (PlayerNames t) \<Longrightarrow> pullCards n srt p l ch t = Some (r, ch', t') \<Longrightarrow> emits (ch, t) (ch', t')"
proof (induction n arbitrary: ch t)
  case (Suc n)
  from Suc.prems(3) obtain c e ch1 t1 where q: "pullCardFromDeckToPlayerHand srt p l ch t = Some ((c, e), ch1, t1)"
    by (auto split: option.splits)
  note e = pull_emits [OF Suc.prems(1,2) q]
  show ?case
  proof (cases e)
    case None
    with Suc.prems(3) q have "pullCards n srt p l ch1 t1 = Some (r, ch', t')" by simp
    with Suc.IH [of t1 ch1] e Suc.prems(2) show ?thesis by (auto intro: emits_trans)
  qed (use Suc.prems(3) q e in auto)
qed (simp add: emits_same)

text \<open>Playing a card.\<close>

lemma move_emits:
  assumes "c \<in> set (handOf t p)" "valid_card c" "p \<in> set (PlayerNames t)" "moveCardToPile p c ch t = Some (ch', t')"
  shows "emits (ch, t) (ch', t') \<and> DrawDeck t' = DrawDeck t \<and> PlayerNames t' = PlayerNames t"
proof -
  have t': "ch' = ch @ [CardTransferEvent CardTransferNodePlayerHand CardTransferNodePile p [] c (fromLocal p t)]"
    "t' = t\<lparr>HandOfPlayer := (HandOfPlayer t)(p \<mapsto> remove1 c (handOf t p)), DiscardedPile := DiscardedPile t @ [c],
      WinnerPlayerName := (if remove1 c (handOf t p) = [] then p else WinnerPlayerName t)\<rparr>"
    using assms(4) unfolding moveCardToPile_eq [OF assms(1)] by simp_all
  have "viewOf t' = (viewOf t)\<lparr>vPile := vPile (viewOf t) @ [c], vHands := (vHands (viewOf t))(p := vHands (viewOf t) p - {#c#})\<rparr>"
    unfolding t'(2) by (auto simp: viewOf_def map_get_def fun_eq_iff)
  moreover have "p \<in> set (vNames (viewOf t))" "c \<in># vHands (viewOf t) p" using assms(1,3) by (simp_all add: viewOf_def)
  ultimately show ?thesis using assms(2) t' by (auto simp: emits_def)
qed

lemma valid_card_color: "valid_card c \<Longrightarrow> 0 \<le> Color c \<and> Color c \<le> 4"
  by (auto simp: valid_card_def valid_color_def)

lemma sendColor_emits: "0 \<le> c \<Longrightarrow> c \<le> 4 \<Longrightarrow> sendRequiredColor c ch t = (ch', t') \<Longrightarrow> emits (ch, t) (ch', t')"
  by (auto simp: sendRequiredColor_eq emits_def viewOf_def)

lemma viewOf_color [simp]:
  "viewOf (t\<lparr>RequiredColorOfLastTurn := a\<rparr>) = viewOf t" "viewOf (t\<lparr>RequiredColorOfCurrentTurn := a\<rparr>) = viewOf t"
  by (simp_all add: viewOf_def)

lemma evalSkip_emits:
  assumes "valid_card c" "evalSkip p c ch t = Some (ch', t')"
  shows "emits (ch, t) (ch', t')"
  using assms(2) valid_card_color [OF assms(1)]
  by (auto simp: evalSkip_def option_bind_simps Let_def sendRequiredColor_eq intro!: emits_quiet dest!: viewOf_skip)

lemma evalReverse_emits:
  assumes "valid_card c" "evalReverse p c ch t = Some (ch', t')"
  shows "emits (ch, t) (ch', t')"
  using assms(2) valid_card_color [OF assms(1)]
  by (auto simp: evalReverse_def option_bind_simps Let_def sendRequiredColor_eq intro!: emits_quiet)

lemma evalNumber_emits:
  assumes "valid_card c" "evalPlayedNumberCard p c ch t = Some (ch', t')"
  shows "emits (ch, t) (ch', t')"
  using assms(2) valid_card_color [OF assms(1)]
  by (auto simp: evalPlayedNumberCard_def option_bind_simps Let_def sendRequiredColor_eq intro!: emits_quiet dest!: viewOf_neighbor)

lemma evalDrawTwo_emits:
  assumes "deckOk t" "valid_card c" "evalDrawTwo srt p c ch t = Some (ch', t')"
  shows "emits (ch, t) (ch', t')"
proof -
  from assms(3) obtain q r t1 x where t1: "setNextPlayerSkipOne p t = Some ((q, r), t1)"
    and x: "pullCards 2 srt q (fromLocal p t1) (ch @ [RequiredColorUpdatedEvent (Color c), DrawTwoCardActionEvent p q r (fromLocal p t1)])
      (SetRequiredNumber (Number c) (snd (sendRequiredColor (Color c) ch (t1\<lparr>TableState := StartOfTurn\<rparr>)))) = Some (x, ch', t')"
    by (auto simp: evalDrawTwo_def option_bind_simps Let_def sendRequiredColor_eq fromLocal_def SetRequiredNumber_def)
  let ?t = "SetRequiredNumber (Number c) (snd (sendRequiredColor (Color c) ch (t1\<lparr>TableState := StartOfTurn\<rparr>)))"
  have v: "viewOf ?t = viewOf t" using viewOf_skip [OF t1] by simp
  have "DrawDeck t1 = DrawDeck t" using t1 by (auto simp: setNextPlayerSkipOne_def option_bind_simps Let_def SetPlayerOfNextTurn_def)
  then have d: "deckOk ?t" using assms(1) by (simp add: deckOk_def sendRequiredColor_eq SetRequiredNumber_def)
  have q: "q \<in> set (PlayerNames ?t)" using viewOf_skip [OF t1] v by (simp add: viewOf_def)
  have "emits (ch, t) (ch @ [RequiredColorUpdatedEvent (Color c), DrawTwoCardActionEvent p q r (fromLocal p t1)], ?t)"
    using v valid_card_color [OF assms(2)] by (intro emits_quiet) simp_all
  also note pullCards_emits [OF d q x]
  finally show ?thesis .
qed

lemma action_emits:
  assumes "deckOk t" "valid_card c" "evalPlayedActionCard srt p c ch t = Some (ch', t')"
  shows "emits (ch, t) (ch', t')"
  using assms(3) evalSkip_emits [OF assms(2)] evalReverse_emits [OF assms(2)] evalDrawTwo_emits [OF assms(1,2)]
  by (auto simp: evalPlayedActionCard_def evalWild_def evalWildDrawFour_def Let_def intro!: emits_quiet split: if_splits)

lemma playLegalCard_emits:
  assumes "wf_game t" "p \<in> set (PlayerNames t)" "c \<in> set (handOf t p)" "playLegalCard srt p c ch t = Some (ch', t')"
  shows "emits (ch, t) (ch', t')"
proof -
  have c: "valid_card c" using hand_card [OF assms(1-3)] .
  from assms(4) obtain ch1 t1 ch2 where m: "moveCardToPile p c ch t = Some (ch1, t1)"
    and x: "(if IsAction (Number c) then evalPlayedActionCard srt p c ch1 t1 else evalPlayedNumberCard p c ch1 t1) = Some (ch2, t')"
    and e: "ch' = ch2 \<or> (\<exists>b. ch' = ch2 @ [PlayerPassedTurnEvent p (PlayerOfNextTurn t') b])"
    by (auto simp: playLegalCard_def option_bind_simps Let_def split: if_splits)
  note move = move_emits [OF assms(3) c assms(2) m]
  have "deckOk t1" using deckOk_game [OF assms(1)] move by (simp add: deckOk_def)
  then have "emits (ch1, t1) (ch2, t')" using x action_emits [OF _ c] evalNumber_emits [OF c] by (auto split: if_splits)
  with move have "emits (ch, t) (ch2, t')" by (blast intro: emits_trans)
  with e show ?thesis by (auto intro: emits_trans [OF _ emits_quiet])
qed

text \<open>The decisions.\<close>

lemma tryPlayCard_emits:
  assumes "wf_game t" "p \<in> set (PlayerNames t)" "tryPlayCard srt p c ch t = Some (r, ch', t')"
  shows "emits (ch, t) (ch', t')"
proof (cases "c \<in> set (handOf t p)")
  case True
  with assms(3) playLegalCard_emits [OF assms(1,2) True] show ?thesis
    by (auto simp: tryPlayCard_def Let_def option_bind_simps emits_same split: option.splits prod.splits if_splits)
next
  case False
  then have "HandOfPlayer t p = Some h \<Longrightarrow> snd (FindCard h c) \<noteq> None" for h
    using findCardFrom_None [of 0 h c] by (simp add: FindCard_def map_get_def)
  with assms(3) show ?thesis
    by (auto simp: tryPlayCard_def Let_def emits_same split: option.splits)
qed

lemma checkIfPlayerHasWon_emits: "checkIfPlayerHasWon p c ch t = (b, ch', t') \<Longrightarrow> emits (ch, t) (ch', t')"
  by (auto simp: checkIfPlayerHasWon_def Let_def emits_same intro!: emits_quiet split: if_splits)

lemma evalPlayHandCard_emits:
  assumes "wf_game t" "p \<in> set (PlayerNames t)" "evalPlayHandCard srt p d ch t = Some (r, ch', t')"
  shows "emits (ch, t) (ch', t')"
proof (cases "tryPlayCard srt p (ResultCard d) ch t")
  case (Some x)
  obtain pl e ch1 t1 where x: "x = ((pl, e), ch1, t1)" by (cases x) auto
  have "emits (ch, t) (ch1, t1)" using tryPlayCard_emits [OF assms(1,2)] Some x by simp
  with assms(3) Some x checkIfPlayerHasWon_emits [of p "ResultCard pl" ch1 t1] show ?thesis
    by (auto simp: evalPlayHandCard_def emits_same intro: emits_trans split: if_splits option.splits prod.splits)
qed (use assms(3) in \<open>auto simp: evalPlayHandCard_def emits_same split: if_splits\<close>)

lemma evalPull_emits:
  assumes "wf_game t" "p \<in> set (PlayerNames t)" "evalPullFromDeck srt p d ch t = Some (r, ch', t')"
  shows "emits (ch, t) (ch', t')"
proof (cases "pullCardFromDeckToPlayerHand srt p (fromLocal p t) ch t")
  case (Some x)
  obtain c e ch1 t1 where x: "x = ((c, e), ch1, t1)" by (cases x) auto
  have "emits (ch, t) (ch1, t1)" using pull_emits [OF deckOk_game [OF assms(1)] assms(2)] Some x by simp
  with assms(3) Some x show ?thesis
    by (auto simp: evalPullFromDeck_def emits_same Let_def intro: emits_trans [OF _ emits_quiet] split: if_splits option.splits)
qed (use assms(3) in \<open>auto simp: evalPullFromDeck_def emits_same split: if_splits\<close>)

lemma drawFour_emits:
  assumes "deckOk t" "q \<in> set (PlayerNames t)" "drawFourAndPass srt q p d ch t = Some (r, ch', t')"
  shows "emits (ch, t) (ch', t')"
proof (cases "pullCards 4 srt q (fromLocal p t) ch t")
  case (Some x)
  obtain e ch1 t1 where x: "x = (e, ch1, t1)" by (cases x) auto
  have "emits (ch, t) (ch1, t1)" using pullCards_emits [OF assms(1,2)] Some x by simp
  with assms(3) Some x show ?thesis
    by (auto simp: drawFourAndPass_def option_bind_simps dest!: viewOf_neighbor intro: emits_trans [OF _ emits_same] split: option.splits)
qed (use assms(3) in \<open>simp add: drawFourAndPass_def\<close>)

theorem EvalPlayerDecision_emits:
  assumes "wf_game t" "p \<in> set (PlayerNames t)" "okDecision d" "EvalPlayerDecision srt p d ch t = Some (r, ch', t')"
  shows "emits (ch, t) (ch', t')"
proof (cases "Kind d")
  case PlayerDecisionPullFromDeck
  with assms(4) evalPull_emits [OF assms(1,2)] show ?thesis by (simp add: EvalPlayerDecision_def)
next
  case PlayerDecisionPlayHandCard
  with assms(4) evalPlayHandCard_emits [OF assms(1,2)] show ?thesis by (simp add: EvalPlayerDecision_def)
next
  case PlayerDecisionPass
  with assms(4) show ?thesis
    by (auto simp: EvalPlayerDecision_def evalPass_def option_bind_simps Let_def emits_same dest!: viewOf_neighbor
      intro!: emits_quiet split: if_splits)
next
  case PlayerDecisionWildCardChooseColor
  then have "0 \<le> WildCardChosenColor d \<and> WildCardChosenColor d \<le> 4" using assms(3) by (auto simp: okDecision_def valid_color_def)
  with assms(4) PlayerDecisionWildCardChooseColor show ?thesis
    by (auto simp: EvalPlayerDecision_def evalChooseColor_def option_bind_simps Let_def emits_same sendRequiredColor_eq
      dest!: viewOf_neighbor intro!: emits_quiet split: if_splits)
next
  case PlayerDecisionDoChallenge
  let ?ev = "if Len (eligibleCards t) \<noteq> 0 then ChallengerSuccessEvent p (PlayerOfLastTurn t) (eligibleCards t) (fromLocal p t)
    else ChallengerFailedEvent p (PlayerOfLastTurn t) (fromLocal p t)"
  let ?q = "if Len (eligibleCards t) \<noteq> 0 then PlayerOfLastTurn t else p"
  show ?thesis
  proof (cases "TableState t = AwaitingWildDraw4ChallengeDecision")
    case True
    have "emits (ch, t) (ch @ [?ev], t)" by (intro emits_quiet) simp_all
    also have "?q \<in> set (PlayerNames t)" using assms(2) wf_gameD(4) [OF assms(1)] by simp
    then have "emits (ch @ [?ev], t) (ch', t')"
      by (rule drawFour_emits [OF deckOk_game [OF assms(1)]])
        (use assms(4) True PlayerDecisionDoChallenge in \<open>auto simp: EvalPlayerDecision_def evalDoChallenge_def split: if_splits\<close>)
    finally show ?thesis .
  qed (use assms(4) PlayerDecisionDoChallenge in \<open>simp add: EvalPlayerDecision_def evalDoChallenge_def emits_same\<close>)
next
  case PlayerDecisionDontChallenge
  with assms(4) drawFour_emits [OF deckOk_game [OF assms(1)] assms(2)] show ?thesis
    by (auto simp: EvalPlayerDecision_def evalDontChallenge_def emits_same split: if_splits)
next
  case (PlayerDecisionOther n)
  with assms(4) show ?thesis by (simp add: EvalPlayerDecision_def emits_same)
qed

section \<open>The interface follows the events\<close>

text \<open>The gauge counts the draw deck, the pile cells show the last cards of the pile from below, the hand
  shows the local player's cards, and the chart counts everybody's.\<close>

definition cellsShow :: "Deck \<Rightarrow> (string \<times> string) list \<Rightarrow> bool" where
  "cellsShow pile cells \<longleftrightarrow> length cells = numCardsToShowInPile \<and>
     (let cs = drop (length pile - numCardsToShowInPile) pile in
      \<forall>i < length cs. SymbolString (cs ! i) = Some (fst (cells ! (length cells - 1 - i))))"

definition displays :: "string \<Rightarrow> ClientUI \<Rightarrow> view \<Rightarrow> bool" where
  "displays me u v \<longleftrightarrow> gaugePercent u = vDeck v \<and> uiPile u = vPile v \<and> cellsShow (uiPile u) (pileCells u) \<and>
     mset (uiHand u) = vHands v me \<and> symbolsOf (uiHand u) = Some (selfHandText u) \<and>
     distinct (chartLabels u) \<and> set (chartLabels u) = set (vNames v) \<and>
     chartData u = map (\<lambda>p. int (size (vHands v p))) (chartLabels u) \<and>
     (\<forall>c \<in> set (uiPile u). valid_card c) \<and> (\<forall>c \<in> set (uiHand u). valid_card c)"

lemma valid_in_range: "valid_card c \<Longrightarrow> card_in_range c"
  by (auto simp: valid_card_def card_in_range_def valid_color_def IsWild_def)

lemma log_sel [simp]:
  "gaugePercent (appendEventLogNoLock s u) = gaugePercent u" "uiPile (appendEventLogNoLock s u) = uiPile u"
  "pileCells (appendEventLogNoLock s u) = pileCells u" "uiHand (appendEventLogNoLock s u) = uiHand u"
  "selfHandText (appendEventLogNoLock s u) = selfHandText u" "chartLabels (appendEventLogNoLock s u) = chartLabels u"
  "chartData (appendEventLogNoLock s u) = chartData u" "uiState (appendEventLogNoLock s u) = uiState u"
  "reader (appendEventLogNoLock s u) = reader u" "commandStringBeingTyped (appendEventLogNoLock s u) = commandStringBeingTyped u"
  by (simp_all add: appendEventLogNoLock_def Let_def)

lemma logged_sel [simp]:
  "chartLabels (appendEventLog s u) = chartLabels u" "chartData (appendEventLog s u) = chartData u"
  "chartStyles (appendEventLog s u) = chartStyles u" "pileCells (appendEventLog s u) = pileCells u"
  by (simp_all add: appendEventLog_def notifyRedrawUI_def appendEventLogNoLock_def Let_def)

lemma displays_log [simp]: "displays me (appendEventLogNoLock s u) v = displays me u v"
  by (simp add: displays_def)

lemma displays_notify [simp]: "displays me (notifyRedrawUI a u) v = displays me u v"
  by (simp add: displays_def notifyRedrawUI_def)

lemma displays_fields [simp]:
  "displays me (u\<lparr>promptTitle := x\<rparr>) v = displays me u v" "displays me (u\<lparr>gaugeColor := k\<rparr>) v = displays me u v"
  "displays me (u\<lparr>uiState := s\<rparr>) v = displays me u v"
  by (simp_all add: displays_def)

lemma addLoop_map:
  "distinct ls \<Longrightarrow> p \<in> set ls \<Longrightarrow> addLoop p n ls (map f ls) = Some (map (\<lambda>q. if q = p then f q + n else f q) ls)"
  by (induction ls) (auto intro: map_cong)

lemma cellLoop_ok:
  assumes "\<forall>c \<in> set cs. valid_card c" "i + length cs \<le> length cells"
  shows "\<exists>cells'. cellLoop i cs cells = Some cells' \<and> length cells' = length cells \<and>
    (\<forall>j < length cs. SymbolString (cs ! j) = Some (fst (cells' ! (length cells - 1 - (i + j))))) \<and>
    (\<forall>k < i. cells' ! (length cells - 1 - k) = cells ! (length cells - 1 - k))"
  using assms
proof (induction cs arbitrary: i cells)
  case (Cons c cs)
  obtain s where s: "SymbolString c = Some s" using SymbolString_in_range [OF valid_in_range] Cons.prems(1) by fastforce
  let ?k = "length cells - 1 - i" and ?n = "length cells"
  let ?cells = "cells[?k := (s, show_nat i)]"
  have k: "nat (int ?n - (1 + int i)) = ?k" "?k < ?n" "i < ?n" using Cons.prems(2) by auto
  from Cons.IH [of "Suc i" ?cells] Cons.prems obtain cells' where c: "cellLoop (Suc i) cs ?cells = Some cells'" "length cells' = ?n"
    "\<And>j. j < length cs \<Longrightarrow> SymbolString (cs ! j) = Some (fst (cells' ! (?n - 1 - (Suc i + j))))"
    "\<And>k. k < Suc i \<Longrightarrow> cells' ! (?n - 1 - k) = ?cells ! (?n - 1 - k)" by auto
  have "go_update cells (int ?n - int i - 1) x = Some (cells[?k := x])" for x
    unfolding go_update_def using k by (auto simp: algebra_simps)
  then have "cellLoop i (c # cs) cells = Some cells'" using s c(1) by (simp add: Let_def)
  moreover have "SymbolString ((c # cs) ! j) = Some (fst (cells' ! (?n - 1 - (i + j))))" if "j < length (c # cs)" for j
    using that c(3) c(4) [of i] s k(2) by (cases j) auto
  moreover have "cells' ! (?n - 1 - m) = cells ! (?n - 1 - m)" if "m < i" for m
    using that c(4) [of m] Cons.prems(2) by (subst c(4)) (auto simp: nth_list_update)
  ultimately show ?case using c(2) by blast
qed simp

lemma refresh_ok:
  assumes "length (pileCells u) = numCardsToShowInPile" "\<forall>c \<in> set (uiPile u). valid_card c"
  shows "\<exists>cells. refreshDiscardPileCells u = Some (u\<lparr>pileCells := cells\<rparr>) \<and> cellsShow (uiPile u) cells"
proof -
  let ?cs = "drop (length (uiPile u) - numCardsToShowInPile) (uiPile u)"
  have "\<forall>c \<in> set ?cs. valid_card c" using assms(2) by (auto dest: in_set_dropD)
  moreover have "0 + length ?cs \<le> length (pileCells u)" using assms(1) by simp
  ultimately obtain cells where "cellLoop 0 ?cs (pileCells u) = Some cells" "length cells = length (pileCells u)"
    "\<forall>j < length ?cs. SymbolString (?cs ! j) = Some (fst (cells ! (length (pileCells u) - 1 - (0 + j))))"
    using cellLoop_ok [of ?cs 0 "pileCells u"] by blast
  with assms(1) show ?thesis by (auto simp: refreshDiscardPileCells_def cellsShow_def Let_def)
qed

lemma updateHand_ok:
  assumes "\<forall>c \<in> set (uiHand u). valid_card c"
  shows "\<exists>s. updatePlayerHandWidget u = Some (u\<lparr>selfHandText := s\<rparr>) \<and> symbolsOf (uiHand u) = Some s"
proof -
  have "\<forall>c \<in> set (uiHand u). card_in_range c" using assms valid_in_range by blast
  then show ?thesis using symbolsOf_in_range [of "uiHand u"] by (auto simp: updatePlayerHandWidget_def)
qed

lemma addToChart_eq:
  assumes "distinct (chartLabels u)" "p \<in> set (chartLabels u)" "chartData u = map f (chartLabels u)"
  shows "addToHandCountChart p n u = u\<lparr>chartData := map (\<lambda>q. if q = p then f q + n else f q) (chartLabels u)\<rparr>"
  using addLoop_map [OF assms(1,2)] assms(3) by (simp add: addToHandCountChart_def)

lemma FindAndRemove_in:
  assumes "w \<in> set d"
  shows "FindAndRemoveCard d w = Some (remove1 w d, None)"
proof -
  obtain j where "FindCard d w = (j, None)" "MustFindCard d w = Some j" using assms FindCard_ok by blast
  then show ?thesis by (simp add: FindAndRemoveCard_def RemoveCard_remove1)
qed

text \<open>A card drawn by a player.\<close>

lemma draw_displayed:
  assumes "displays me u v" "p \<in> set (vNames v)" "valid_card c"
  shows "\<exists>u'. handleCardTransferEvent srt CardTransferNodeDeck CardTransferNodePlayerHand x p c me u = Some u' \<and>
    displays me u' (v\<lparr>vDeck := vDeck v - 1, vHands := (vHands v)(p := add_mset c (vHands v p))\<rparr>)"
proof -
  define w where "w = (appendEventLogNoLock (''handleCardTransferEvent: '' @
    CardTransferEventString CardTransferNodeDeck CardTransferNodePlayerHand x p c me @ '', localPlayerName: '' @ me) u)"
  have w: "displays me w v" using assms(1) by (simp add: w_def)
  let ?d = "map (\<lambda>q. if q = p then int (size (vHands v q)) + 1 else int (size (vHands v q))) (chartLabels w)"
  let ?w = "w\<lparr>gaugePercent := gaugePercent w - 1, chartData := ?d\<rparr>"
  have a: "addToHandCountChart p 1 (w\<lparr>gaugePercent := gaugePercent w - 1\<rparr>) = ?w"
    using w assms(2) by (subst addToChart_eq) (auto simp: displays_def)
  have h: "handleCardTransferEvent srt CardTransferNodeDeck CardTransferNodePlayerHand x p c me u =
      (if me = p then updatePlayerHandWidget (?w\<lparr>uiHand := goSort srt (uiHand w @ [c])\<rparr>) else Some ?w)"
    unfolding handleCardTransferEvent_def Let_def w_def [symmetric]
    by (simp add: transferSource_def transferSink_def a deck_eqs)
  show ?thesis
  proof (cases "me = p")
    case True
    have "\<forall>c \<in> set (uiHand (?w\<lparr>uiHand := goSort srt (uiHand w @ [c])\<rparr>)). valid_card c" using w assms(3) by (auto simp: displays_def)
    from updateHand_ok [OF this] obtain s where "updatePlayerHandWidget (?w\<lparr>uiHand := goSort srt (uiHand w @ [c])\<rparr>) =
        Some (?w\<lparr>uiHand := goSort srt (uiHand w @ [c]), selfHandText := s\<rparr>)" "symbolsOf (goSort srt (uiHand w @ [c])) = Some s" by auto
    with h True w assms(3) show ?thesis by (auto simp: displays_def)
  next
    case False
    with h w show ?thesis by (auto simp: displays_def)
  qed
qed

text \<open>A card played.\<close>

lemma play_displayed:
  assumes "displays me u v" "p \<in> set (vNames v)" "c \<in># vHands v p" "valid_card c"
  shows "\<exists>u'. handleCardTransferEvent srt CardTransferNodePlayerHand CardTransferNodePile p x c me u = Some u' \<and>
    displays me u' (v\<lparr>vPile := vPile v @ [c], vHands := (vHands v)(p := vHands v p - {#c#})\<rparr>)"
proof -
  define w where "w = (appendEventLogNoLock (''handleCardTransferEvent: '' @
    CardTransferEventString CardTransferNodePlayerHand CardTransferNodePile p x c me @ '', localPlayerName: '' @ me) u)"
  have w: "displays me w v" using assms(1) by (simp add: w_def)
  let ?d = "map (\<lambda>q. if q = p then int (size (vHands v q)) + - 1 else int (size (vHands v q))) (chartLabels w)"
  let ?w = "w\<lparr>chartData := ?d\<rparr>"
  have a: "addToHandCountChart p (- 1) w = ?w" using w assms(2) by (subst addToChart_eq) (auto simp: displays_def)
  have "\<exists>h s. transferSource CardTransferNodePlayerHand p c me w = Some (True, ?w\<lparr>uiHand := h, selfHandText := s\<rparr>) \<and>
      mset h = (if me = p then vHands v p - {#c#} else vHands v me) \<and> symbolsOf h = Some s \<and> (\<forall>c \<in> set h. valid_card c)"
  proof (cases "me = p")
    case True
    have c: "c \<in> set (uiHand w)" using w assms(3) True by (simp add: displays_def) (metis set_mset_mset)
    have v: "\<forall>c \<in> set (uiHand (?w\<lparr>uiHand := remove1 c (uiHand w)\<rparr>)). valid_card c"
      using w by (auto simp: displays_def dest: notin_set_remove1)
    have "FindAndRemoveCard (uiHand ?w) c = Some (remove1 c (uiHand w), None)" using c by (simp add: FindAndRemove_in)
    moreover obtain s where "updatePlayerHandWidget (?w\<lparr>uiHand := remove1 c (uiHand w)\<rparr>) =
        Some (?w\<lparr>uiHand := remove1 c (uiHand w), selfHandText := s\<rparr>)" "symbolsOf (remove1 c (uiHand w)) = Some s"
      using updateHand_ok [OF v] by auto
    ultimately show ?thesis using True a w v
      by (intro exI [of _ "remove1 c (uiHand w)"] exI [of _ s]) (simp add: transferSource_def displays_def)
  next
    case False
    with a w show ?thesis
      by (intro exI [of _ "uiHand w"] exI [of _ "selfHandText w"]) (simp add: transferSource_def displays_def)
  qed
  then obtain h s where s: "transferSource CardTransferNodePlayerHand p c me w = Some (True, ?w\<lparr>uiHand := h, selfHandText := s\<rparr>)"
    "mset h = (if me = p then vHands v p - {#c#} else vHands v me)" "symbolsOf h = Some s" "\<forall>c \<in> set h. valid_card c" by blast
  let ?z = "?w\<lparr>uiHand := h, selfHandText := s, uiPile := uiPile w @ [c]\<rparr>"
  have "length (pileCells ?z) = numCardsToShowInPile" "\<forall>c \<in> set (uiPile ?z). valid_card c"
    using w assms(4) by (auto simp: displays_def cellsShow_def Let_def)
  then obtain cells where r: "refreshDiscardPileCells ?z = Some (?z\<lparr>pileCells := cells\<rparr>)" "cellsShow (uiPile w @ [c]) cells"
    using refresh_ok [of ?z] by auto
  have "handleCardTransferEvent srt CardTransferNodePlayerHand CardTransferNodePile p x c me u = Some (?z\<lparr>pileCells := cells\<rparr>)"
    unfolding handleCardTransferEvent_def Let_def w_def [symmetric] using s(1) r(1) by (simp add: transferSink_def deck_eqs)
  moreover have "0 < size (vHands v p)" using assms(3) by (auto simp: nonempty_has_size [symmetric])
  then have "int (size (vHands v p - {#c#})) = int (size (vHands v p)) + - 1" using assms(3) by (simp add: size_Diff_singleton of_nat_diff)
  then have "displays me (?z\<lparr>pileCells := cells\<rparr>) (v\<lparr>vPile := vPile v @ [c], vHands := (vHands v)(p := vHands v p - {#c#})\<rparr>)"
    using w s(2-4) r(2) assms(4) by (auto simp: displays_def)
  ultimately show ?thesis by blast
qed

lemma event_displayed:
  assumes "displays me u v" "viewStep e v = Some v'"
  shows "\<exists>u'. handleGameEvent srt me e u = Some u' \<and> displays me u' v'"
proof (cases e)
  case (CardTransferEvent source sink x y c b)
  consider (draw) "source = CardTransferNodeDeck" "sink = CardTransferNodePlayerHand"
    | (play) "source = CardTransferNodePlayerHand" "sink = CardTransferNodePile"
    using assms(2) CardTransferEvent by (cases source; cases sink; simp)
  then show ?thesis
  proof cases
    case draw
    with assms(2) CardTransferEvent draw_displayed [OF assms(1), of y c srt x] show ?thesis by (auto split: if_splits)
  next
    case play
    with assms(2) CardTransferEvent play_displayed [OF assms(1), of x c srt y] show ?thesis by (auto split: if_splits)
  qed
next
  case (RequiredColorUpdatedEvent c)
  then have "c \<in> {0, 1, 2, 3, 4}" using assms(2) by (auto split: if_splits)
  then have "uiColorOfCard c \<noteq> None" by (auto simp: uiColorOfCard_def)
  with assms RequiredColorUpdatedEvent show ?thesis by (auto split: if_splits)
qed (use assms in \<open>auto simp: appendEventLog_def split: prod.split\<close>)

text \<open>A display that follows what it shows, one event at a time.\<close>

locale event_follower =
  fixes spec :: "'e \<Rightarrow> 'v \<Rightarrow> 'v option" and specRun :: "'e list \<Rightarrow> 'v \<Rightarrow> 'v option"
    and display :: "'e \<Rightarrow> 'u \<Rightarrow> 'u option" and displayRun :: "'e list \<Rightarrow> 'u \<Rightarrow> 'u option"
    and displayed :: "'u \<Rightarrow> 'v \<Rightarrow> bool"
  assumes specRun: "specRun [] v = Some v" "specRun (e # es) v = Option.bind (spec e v) (specRun es)"
    and displayRun: "displayRun [] u = Some u" "displayRun (e # es) u = Option.bind (display e u) (displayRun es)"
    and follows: "displayed u v \<Longrightarrow> spec e v = Some v' \<Longrightarrow> \<exists>u'. display e u = Some u' \<and> displayed u' v'"
begin

lemma run_follows: "displayed u v \<Longrightarrow> specRun es v = Some v' \<Longrightarrow> \<exists>u'. displayRun es u = Some u' \<and> displayed u' v'"
proof (induction es arbitrary: u v)
  case (Cons e es)
  then obtain v1 where v1: "spec e v = Some v1" "specRun es v1 = Some v'" by (auto simp: specRun bind_eq_Some_conv)
  from follows [OF Cons.prems(1) v1(1)] obtain u1 where "display e u = Some u1" "displayed u1 v1" by blast
  with Cons.IH [OF _ v1(2)] show ?case by (auto simp: displayRun)
qed (simp add: specRun displayRun)

end

interpretation ui: event_follower viewStep viewRun "handleGameEvent srt me" "RunGameEventProcessor srt me" "displays me" for srt me
  by unfold_locales (auto split: option.split dest: event_displayed)

lemmas events_displayed = ui.run_follows

section \<open>Lists of decisions\<close>

lemma decisions_emit:
  "wf_game t \<Longrightarrow> p \<in> set (PlayerNames t) \<Longrightarrow> \<forall>d \<in> set ds. okDecision d \<Longrightarrow>
     \<exists>e ch' t'. EvalPlayerDecisions srt p ds ch t = Some (e, ch', t') \<and> emits (ch, t) (ch', t') \<and> stepOk t t'"
proof (induction ds arbitrary: ch t)
  case (Cons d ds)
  then obtain d' e ch1 t1 where t1: "EvalPlayerDecision srt p d ch t = Some ((d', e), ch1, t1)" "stepOk t t1"
    using EvalPlayerDecision_step [of t p d srt ch] by auto
  have em: "emits (ch, t) (ch1, t1)" using Cons.prems t1(1) by (intro EvalPlayerDecision_emits) auto
  show ?case
  proof (cases e)
    case None
    have "wf_game t1" "p \<in> set (PlayerNames t1)" using stepOkD [OF t1(2)] Cons.prems(2) by auto
    then obtain e' ch' t' where "EvalPlayerDecisions srt p ds ch1 t1 = Some (e', ch', t')" "emits (ch1, t1) (ch', t')" "stepOk t1 t'"
      using Cons.IH [of t1 ch1] Cons.prems(3) by auto
    with t1 em None show ?thesis by (auto intro: emits_trans stepOk_trans)
  qed (use t1 em in auto)
qed (simp add: emits_same)

section \<open>Served cards\<close>

lemma chartLoop_ok:
  assumes "\<forall>i \<in> set is. 0 \<le> i \<and> i < int (length (PlayerNames t))" "k + length is = length (chartLabels u)"
    and "length (chartData u) = length (chartLabels u)"
  shows "chartLoop t k is u = Some (u\<lparr>chartLabels := take k (chartLabels u) @ map (\<lambda>i. PlayerNames t ! nat i) is,
    chartData := take k (chartData u) @ map (\<lambda>i. int (length (handOf t (PlayerNames t ! nat i)))) is\<rparr>)"
  using assms
proof (induction "is" arbitrary: k u)
  case (Cons i "is")
  have "chartLoop t k (i # is) u = chartLoop t (Suc k) is (u\<lparr>chartLabels := (chartLabels u)[k := PlayerNames t ! nat i],
      chartData := (chartData u)[k := int (length (handOf t (PlayerNames t ! nat i)))]\<rparr>)"
    using Cons.prems by simp
  with Cons show ?case by (simp add: take_Suc_conv_app_nth)
qed simp

lemma styleLoop_ok: "i + n \<le> length styles \<Longrightarrow> \<exists>s. styleLoop i n styles = Some s"
  by (induction i n styles rule: styleLoop.induct) simp_all

lemma styleLoop_short: "i \<le> length styles \<Longrightarrow> length styles < i + n \<Longrightarrow> styleLoop i n styles = None"
proof (induction i n styles rule: styleLoop.induct)
  case (2 i n styles)
  show ?case
  proof (cases "i < length styles")
    case True
    with 2 show ?thesis by simp
  qed (simp add: go_update_def)
qed simp

text \<open>The chart after the served cards, for a widget with enough label styles and for one without.\<close>

definition sortsChart :: "Table \<Rightarrow> ClientUI \<Rightarrow> string list \<Rightarrow> bool" where
  "sortsChart t u ls \<longleftrightarrow> distinct ls \<and> set ls = set (PlayerNames t) \<and> length ls = length (PlayerNames t) \<and>
    (\<forall>styles. styleLoop 0 (length ls) (chartStyles u) = Some styles \<longrightarrow>
       sortHandCountChartByTurn t u = Some (appendEventLogNoLock (''Handcount chart labels set to: '' @ showStrings ls)
         (u\<lparr>chartLabels := ls, chartData := map (\<lambda>p. int (length (handOf t p))) ls, chartStyles := styles\<rparr>))) \<and>
    (styleLoop 0 (length ls) (chartStyles u) = None \<longrightarrow> sortHandCountChartByTurn t u = None)"

lemma sortChart_ok:
  assumes "wf_game t" "length (chartLabels u) = length (PlayerNames t)" "length (chartData u) = length (PlayerNames t)"
  shows "\<exists>ls. sortsChart t u ls"
proof -
  note g = wf_gameD [OF assms(1)]
  obtain "is" where i: "PlayerIndicesSortedByTurn t = Some is" "distinct is" "set is = {0..<PlayerCount t}"
    using sortedIndices_ok [OF g(1,3)] by blast
  let ?ls = "map (\<lambda>i. PlayerNames t ! nat i) is"
  have n: "length is = length (PlayerNames t)" using distinct_card [OF i(2)] i(3) by (simp add: PlayerCount_def)
  have d: "distinct (PlayerNames t)" using wf_tableD(1) [OF g(1)] by (simp add: wf_seating_def)
  have "distinct ?ls" using i(2,3) d by (auto simp: distinct_map inj_on_def nth_eq_iff_index_eq PlayerCount_def)
  moreover have s: "set ?ls \<subseteq> set (PlayerNames t)" using i(3) by (auto simp: PlayerCount_def)
  moreover have "set ?ls = set (PlayerNames t)"
    using calculation distinct_card [of ?ls] distinct_card [OF d] n by (intro card_subset_eq) auto
  moreover have "chartLoop t 0 is u = Some (u\<lparr>chartLabels := ?ls, chartData := map (\<lambda>p. int (length (handOf t p))) ?ls\<rparr>)"
    using chartLoop_ok [of "is" t 0 u] i(3) n assms(2,3) by (simp add: PlayerCount_def o_def)
  ultimately show ?thesis using i(1) n by (intro exI [of _ ?ls]) (simp add: sortHandCountChartByTurn_def sortsChart_def Let_def)
qed

lemma handCards_valid: "wf_game t \<Longrightarrow> me \<in> set (PlayerNames t) \<Longrightarrow> \<forall>c \<in> set (handOf t me). valid_card c"
  using hand_card by blast

lemma pileCards_valid: "wf_game t \<Longrightarrow> \<forall>c \<in> set (DiscardedPile t). valid_card c"
  by (auto simp: wf_game_def tableCards_def)

lemma bind_Some_map: "Option.bind x (\<lambda>y. Some (f y)) = map_option f x"
  by (cases x) simp_all

text \<open>The pile and the hand, once the chart is right.\<close>

lemma pileHand_ok:
  assumes "wf_game t" "me \<in> set (PlayerNames t)" "length (pileCells w) = numCardsToShowInPile" "gaugePercent w = Len (DrawDeck t)"
    and "distinct (chartLabels w)" "set (chartLabels w) = set (PlayerNames t)"
    and "chartData w = map (\<lambda>p. int (length (handOf t p))) (chartLabels w)"
  shows "\<exists>u'. Option.bind (initDiscardPileCells t w) (\<lambda>w. updatePlayerHandWidget (w\<lparr>uiHand := goSort srt (Clone (handOf t me))\<rparr>)) = Some u' \<and>
    displays me u' (viewOf t)"
proof -
  let ?x = "w\<lparr>uiPile := DiscardedPile t\<rparr>"
  have "length (pileCells ?x) = numCardsToShowInPile" "\<forall>c \<in> set (uiPile ?x). valid_card c"
    using assms(3) pileCards_valid [OF assms(1)] by simp_all
  then obtain cells where c: "refreshDiscardPileCells ?x = Some (?x\<lparr>pileCells := cells\<rparr>)" "cellsShow (DiscardedPile t) cells"
    using refresh_ok [of ?x] by auto
  let ?y = "?x\<lparr>pileCells := cells, uiHand := goSort srt (handOf t me)\<rparr>"
  have "\<forall>c \<in> set (uiHand ?y). valid_card c" using handCards_valid [OF assms(1,2)] by simp
  from updateHand_ok [OF this] obtain s where y: "updatePlayerHandWidget ?y = Some (?y\<lparr>selfHandText := s\<rparr>)"
    "symbolsOf (goSort srt (handOf t me)) = Some s" by auto
  have "Option.bind (initDiscardPileCells t w) (\<lambda>w. updatePlayerHandWidget (w\<lparr>uiHand := goSort srt (Clone (handOf t me))\<rparr>)) =
      Some (?y\<lparr>selfHandText := s\<rparr>)" using c(1) y(1) by (simp add: initDiscardPileCells_def Clone_def)
  moreover have "displays me (?y\<lparr>selfHandText := s\<rparr>) (viewOf t)"
    using c(2) y(2) assms(4-7) pileCards_valid [OF assms(1)] handCards_valid [OF assms(1,2)]
    by (simp add: displays_def viewOf_def Len_def)
  ultimately show ?thesis by blast
qed

lemma served_ok:
  assumes "wf_game t" "me \<in> set (PlayerNames t)" "length (pileCells u) = numCardsToShowInPile"
    and "length (chartData u) = length (chartLabels u)"
  shows "if length (PlayerNames t) \<le> length (chartStyles u)
    then \<exists>u'. handleUICommand srt me (UICommandSetServedCards t) u = Some u' \<and> displays me u' (viewOf t)
    else handleUICommand srt me (UICommandSetServedCards t) u = None"
proof -
  let ?n = "length (PlayerNames t)"
  let ?u = "(appendEventLog ''Received UICommandSetServedCards'' u)\<lparr>gaugePercent := Len (DrawDeck t)\<rparr>"
  define v where "v = (if length (chartLabels ?u) < ?n then ?u\<lparr>chartLabels := replicate ?n [], chartData := replicate ?n 0\<rparr>
    else ?u\<lparr>chartLabels := take ?n (chartLabels ?u), chartData := take ?n (chartData ?u)\<rparr>)"
  have v: "length (chartLabels v) = ?n" "length (chartData v) = ?n" "chartStyles v = chartStyles u" "length (pileCells v) = numCardsToShowInPile"
    using assms(3,4) by (simp_all add: v_def)
  obtain ls where "sortsChart t v ls" using sortChart_ok [OF assms(1) v(1,2)] by blast
  note ls = this [unfolded sortsChart_def, THEN conjunct1] this [unfolded sortsChart_def, THEN conjunct2, THEN conjunct1]
    this [unfolded sortsChart_def, THEN conjunct2, THEN conjunct2, THEN conjunct1]
    this [unfolded sortsChart_def, THEN conjunct2, THEN conjunct2, THEN conjunct2, THEN conjunct1, rule_format]
    this [unfolded sortsChart_def, THEN conjunct2, THEN conjunct2, THEN conjunct2, THEN conjunct2, rule_format]
  have h: "handleUICommand srt me (UICommandSetServedCards t) u = map_option (notifyRedrawUI uiRedrawGrid)
      (Option.bind (sortHandCountChartByTurn t v) (\<lambda>w. Option.bind (initDiscardPileCells t (w\<lparr>gaugePercent := Len (DrawDeck t)\<rparr>))
         (\<lambda>w. updatePlayerHandWidget (w\<lparr>uiHand := goSort srt (Clone (handOf t me))\<rparr>))))"
    unfolding handleUICommand_def UICommand.case initTableElements_def Let_def v_def [symmetric] bind_Some_map by (rule refl)
  show ?thesis
  proof (cases "?n \<le> length (chartStyles u)")
    case True
    then obtain styles where "styleLoop 0 (length ls) (chartStyles v) = Some styles" using styleLoop_ok [of 0 ?n "chartStyles v"] ls(3) v(3) by auto
    note w = ls(4) [OF this]
    let ?w = "(appendEventLogNoLock (''Handcount chart labels set to: '' @ showStrings ls)
         (v\<lparr>chartLabels := ls, chartData := map (\<lambda>p. int (length (handOf t p))) ls, chartStyles := styles\<rparr>))\<lparr>gaugePercent := Len (DrawDeck t)\<rparr>"
    from pileHand_ok [OF assms(1,2), of ?w srt] ls(1,2) v(4) True show ?thesis unfolding h w by auto
  next
    case False
    then have "styleLoop 0 (length ls) (chartStyles v) = None" using ls(3) v(3) by (intro styleLoop_short) simp_all
    from ls(5) [OF this] False show ?thesis by (simp add: h)
  qed
qed

section \<open>Properties\<close>

text \<open>C10. The interface shows what is on the table: when it displays a table of a game, and a client
  evaluates decisions of a seated player on it, then the events this sends, whether all decisions were
  accepted or not, take the interface, without a panic or a lock-up, to a state that displays the table
  reached: the gauge, the pile, the local hand and everybody's hand counts.\<close>

theorem ui_follows_table:
  assumes "displays me u (viewOf t)" "wf_game t" "p \<in> set (PlayerNames t)" "\<forall>d \<in> set ds. okDecision d"
  shows "\<exists>err evs t' u'. EvalPlayerDecisions srt p ds [] t = Some (err, evs, t') \<and>
    RunGameEventProcessor srt' me evs u = Some u' \<and> displays me u' (viewOf t')"
proof -
  obtain e evs t' where e: "EvalPlayerDecisions srt p ds [] t = Some (e, evs, t')" "emits ([], t) (evs, t')"
    using decisions_emit [OF assms(2-4), of srt "[]"] by blast
  from e(2) have "viewRun evs (viewOf t) = Some (viewOf t')" by (simp add: emits_def)
  from events_displayed [OF assms(1) this] e(1) show ?thesis by blast
qed

theorem ui_follows_table_witness:
  "\<exists>u err evs t' u'. displays ''bob'' u (viewOf demoTable) \<and>
     EvalPlayerDecisions (\<lambda>_. []) ''al'' [demoPlay (mkCard 11 1)] [] demoTable = Some (err, evs, t') \<and>
     RunGameEventProcessor (\<lambda>_. []) ''bob'' evs u = Some u' \<and> displays ''bob'' u' (viewOf t')"
proof -
  let ?u = "(InitUI (80, 24) [UiRed, UiGreen, UiBlue] UiWhite UiWhite)"
  have "length (pileCells ?u) = numCardsToShowInPile" "length (chartData ?u) = length (chartLabels ?u)" "length (chartStyles ?u) = 3"
    by (simp_all add: InitUI_simps resetCommandPrompt_def notifyRedrawUI_def)
  then obtain u where u: "displays ''bob'' u (viewOf demoTable)" using served_ok [OF wf_game_demoTable, of "''bob''" ?u] by auto
  have "''al'' \<in> set (PlayerNames demoTable)" "\<forall>d \<in> set [demoPlay (mkCard 11 1)]. okDecision d" by (simp_all add: okDecision_def)
  from ui_follows_table [OF u wf_game_demoTable this] u show ?thesis by blast
qed

text \<open>C38. The served cards are displayed on fresh widgets when the chart has a label style for every
  player; with more players than styles the interface panics.\<close>

theorem served_cards_displayed:
  assumes "wf_game t" "me \<in> set (PlayerNames t)"
  shows "if length (PlayerNames t) \<le> length styles
    then \<exists>u. handleUICommand srt me (UICommandSetServedCards t) (InitUI rect styles fg border) = Some u \<and> displays me u (viewOf t)
    else handleUICommand srt me (UICommandSetServedCards t) (InitUI rect styles fg border) = None"
proof -
  let ?u = "InitUI rect styles fg border"
  have "length (pileCells ?u) = numCardsToShowInPile" "length (chartData ?u) = length (chartLabels ?u)" "chartStyles ?u = styles"
    by (simp_all add: InitUI_simps resetCommandPrompt_def notifyRedrawUI_def)
  with served_ok [OF assms, of ?u srt] show ?thesis by simp
qed

theorem served_cards_displayed_witness:
  "(\<exists>u. handleUICommand (\<lambda>_. []) ''bob'' (UICommandSetServedCards demoTable) (InitUI (80, 24) [UiRed, UiGreen, UiBlue] UiWhite UiWhite) = Some u \<and>
      displays ''bob'' u (viewOf demoTable)) \<and>
   handleUICommand (\<lambda>_. []) ''bob'' (UICommandSetServedCards demoTable) (InitUI (80, 24) [UiRed, UiGreen] UiWhite UiWhite) = None"
  using served_cards_displayed [OF wf_game_demoTable, of "''bob''" "[UiRed, UiGreen, UiBlue]" "\<lambda>_. []" "(80, 24)" UiWhite UiWhite]
    served_cards_displayed [OF wf_game_demoTable, of "''bob''" "[UiRed, UiGreen]" "\<lambda>_. []" "(80, 24)" UiWhite UiWhite] by simp

text \<open>C39. The event log keeps the last 50 lines, whatever is logged, and shows them newest first.\<close>

theorem event_log_keeps_last:
  assumes "eventLogLines u = []" "ss \<noteq> []"
  shows "let u' = fold appendEventLogNoLock ss u; ls = lastN maxLinesInEventLog (concat (map splitLines ss)) in
    eventLogLines u' = ls \<and> length (eventLogLines u') \<le> maxLinesInEventLog \<and>
    eventLogText u' = concat (map (\<lambda>l. l @ newline) (rev ls))"
proof -
  have s: "eventLogLines (appendEventLogNoLock s u) = lastN maxLinesInEventLog (eventLogLines u @ splitLines s) \<and>
      eventLogText (appendEventLogNoLock s u) = concat (map (\<lambda>l. l @ newline) (rev (lastN maxLinesInEventLog (eventLogLines u @ splitLines s))))"
    for s u by (simp add: appendEventLogNoLock_def lastN_def Let_def)
  have "eventLogLines (fold appendEventLogNoLock ss u) = lastN maxLinesInEventLog (concat (map splitLines ss)) \<and>
      eventLogText (fold appendEventLogNoLock ss u) = concat (map (\<lambda>l. l @ newline) (rev (lastN maxLinesInEventLog (concat (map splitLines ss)))))"
    using assms(2)
  proof (induction ss rule: rev_nonempty_induct)
    case (single x)
    then show ?case using s [of x u] assms(1) by simp
  next
    case (snoc x xs)
    then show ?case using s [of x "fold appendEventLogNoLock xs u"] by (simp add: lastN_snoc)
  qed
  then show ?thesis by (simp add: Let_def lastN_def)
qed

theorem event_log_keeps_last_witness:
  "eventLogLines (fold appendEventLogNoLock (replicate 51 ''x'') (InitUI (80, 24) [] UiWhite UiWhite)) = replicate 50 ''x''"
proof -
  have "concat (replicate n [x]) = replicate n x" for n and x :: string by (induction n) simp_all
  moreover have "eventLogLines (InitUI (80, 24) [] UiWhite UiWhite) = []"
    by (simp add: InitUI_simps resetCommandPrompt_def notifyRedrawUI_def)
  moreover have "replicate 51 ''x'' \<noteq> []" by simp
  ultimately show ?thesis using event_log_keeps_last [of "InitUI (80, 24) [] UiWhite UiWhite" "replicate 51 ''x''"]
    by (simp add: Let_def lastN_def del: replicate.simps)
qed

end
