(* ===== verification/UIRuns.thy ===== *)
theory UIRuns
  imports UIView
begin

text \<open>
  The terminal interface in every order of events: keys, log lines, requests for decisions, answers to
  them, served cards, game events, the goroutines that reset titles and borders, and the draw loop.  The
  prompt stays in step with what it shows, no key but the one that enters a command can make it panic,
  and what it hands to the client are valid commands of the right kind; after a win it never hands on a
  decision again.
\<close>

section \<open>Steps\<close>

inductive uiStep :: "ClientUI \<Rightarrow> ClientUI \<Rightarrow> bool" where
  event: "handleUIEvent errText me ev u = Some u' \<Longrightarrow> uiStep u u'"
| ask: "uiStep u (askUserForDecision cmd u)"
| answer: "reader u = Deciding \<Longrightarrow> uiStep u (answerDecision r u)"
| asked: "reader u = NoAsker \<Longrightarrow> uiStep u (finishAsking cmd u)"
| general: "uiStep u (receiveGeneral u)"
| border: "uiStep u (resetLogBorder u)"
| title: "uiStep u (runResetCommandPromptTitle u)"
| served: "handleUICommand srt me cmd' u = Some u' \<Longrightarrow> uiStep u u'"
| game: "handleGameEvent srt me gev u = Some u' \<Longrightarrow> uiStep u u'"
| draw: "RunDrawLoop u = Some (goOn, n, u') \<Longrightarrow> uiStep u u'"

section \<open>The prompt\<close>

text \<open>What the prompt consists of, with the commands it has handed on.\<close>

definition promptPart :: "ClientUI \<Rightarrow> string \<times> string \<times> HistoryRing \<times> HistoryPos \<times> ReplCommand list \<times> ReplCommand list" where
  "promptPart u = (promptCellText u, commandStringBeingTyped u, commandHistory u, commandHistoryPos u, decisionCommands u, generalCommands u)"

definition turnPart :: "ClientUI \<Rightarrow> ClientUIState \<times> asker" where
  "turnPart u = (uiState u, reader u)"

definition shortLog :: "ClientUI \<Rightarrow> bool" where
  "shortLog u \<longleftrightarrow> length (eventLogLines u) \<le> maxLinesInEventLog"

text \<open>Steps that leave prompt and turn alone.\<close>

definition keeps :: "ClientUI \<Rightarrow> ClientUI \<Rightarrow> bool" where
  "keeps u u' \<longleftrightarrow> promptPart u' = promptPart u \<and> turnPart u' = turnPart u \<and> (shortLog u \<longrightarrow> shortLog u')"

lemma keeps_trans: "keeps u v \<Longrightarrow> keeps v w \<Longrightarrow> keeps u w"
  by (simp add: keeps_def)

lemma keeps_log: "keeps u (appendEventLogNoLock s u)" "keeps u (appendEventLog s u)" "shortLog (appendEventLogNoLock s u)"
  "shortLog (appendEventLog s u)"
proof -
  show "shortLog (appendEventLogNoLock s u)" by (simp add: shortLog_def appendEventLogNoLock_def Let_def) arith
  then show "shortLog (appendEventLog s u)" by (simp add: shortLog_def appendEventLog_def notifyRedrawUI_def)
  show "keeps u (appendEventLogNoLock s u)" using \<open>shortLog (appendEventLogNoLock s u)\<close>
    by (simp add: keeps_def promptPart_def turnPart_def) (simp add: appendEventLogNoLock_def Let_def)
  then show "keeps u (appendEventLog s u)" by (simp add: keeps_def promptPart_def turnPart_def shortLog_def appendEventLog_def notifyRedrawUI_def)
qed

lemmas keeps_simps = keeps_def promptPart_def turnPart_def shortLog_def

lemma keeps_notify: "keeps u u' \<Longrightarrow> keeps u (notifyRedrawUI a u')"
  by (simp add: keeps_simps notifyRedrawUI_def)

lemma keeps_hand: "updatePlayerHandWidget u = Some u' \<Longrightarrow> keeps u u'"
  by (auto simp: updatePlayerHandWidget_def keeps_simps bind_eq_Some_conv)

lemma keeps_pile: "refreshDiscardPileCells u = Some u' \<Longrightarrow> keeps u u'"
  by (auto simp: refreshDiscardPileCells_def keeps_simps bind_eq_Some_conv)

lemma keeps_chart: "chartLoop t i is u = Some u' \<Longrightarrow> keeps u u'"
  by (induction t i "is" u rule: chartLoop.induct) (auto simp: bind_eq_Some_conv keeps_simps)

lemma keeps_sortChart:
  assumes "sortHandCountChartByTurn t u = Some u'"
  shows "keeps u u'"
proof -
  obtain "is" v styles where v: "chartLoop t 0 is u = Some v"
    "u' = appendEventLogNoLock (''Handcount chart labels set to: '' @ showStrings (chartLabels v)) (v\<lparr>chartStyles := styles\<rparr>)"
    using assms by (auto simp: sortHandCountChartByTurn_def bind_eq_Some_conv Let_def)
  have "keeps v (v\<lparr>chartStyles := styles\<rparr>)" by (simp add: keeps_simps)
  from keeps_trans [OF keeps_trans [OF keeps_chart [OF v(1)] this] keeps_log(1)] show ?thesis unfolding v(2) .
qed

lemma keeps_served:
  assumes "handleUICommand srt me cmd u = Some u'"
  shows "keeps u u'"
proof (cases cmd)
  case (UICommandSetServedCards t)
  let ?n = "length (PlayerNames t)"
  let ?u1 = "(appendEventLog ''Received UICommandSetServedCards'' u)\<lparr>gaugePercent := Len (DrawDeck t)\<rparr>"
  let ?u2 = "if length (chartLabels ?u1) < ?n then ?u1\<lparr>chartLabels := replicate ?n [], chartData := replicate ?n 0\<rparr>
    else ?u1\<lparr>chartLabels := take ?n (chartLabels ?u1), chartData := take ?n (chartData ?u1)\<rparr>"
  obtain v3 v4 v5 where v: "sortHandCountChartByTurn t ?u2 = Some v3"
    "refreshDiscardPileCells (v3\<lparr>gaugePercent := Len (DrawDeck t), uiPile := Clone (DiscardedPile t)\<rparr>) = Some v4"
    "updatePlayerHandWidget (v4\<lparr>uiHand := goSort srt (Clone (handOf t me))\<rparr>) = Some v5" "u' = notifyRedrawUI uiRedrawGrid v5"
    using assms UICommandSetServedCards
    by (auto simp: handleUICommand_def initTableElements_def initDiscardPileCells_def bind_eq_Some_conv Let_def)
  have "keeps u ?u1" using keeps_log(2) [of u "''Received UICommandSetServedCards''"] by (simp add: keeps_simps)
  moreover have "keeps ?u1 ?u2" by (simp add: keeps_simps)
  moreover note keeps_sortChart [OF v(1)]
  moreover have "keeps v3 (v3\<lparr>gaugePercent := Len (DrawDeck t), uiPile := Clone (DiscardedPile t)\<rparr>)" by (simp add: keeps_simps)
  moreover note keeps_pile [OF v(2)]
  moreover have "keeps v4 (v4\<lparr>uiHand := goSort srt (Clone (handOf t me))\<rparr>)" by (simp add: keeps_simps)
  moreover note keeps_hand [OF v(3)]
  ultimately have "keeps u v5" by (blast intro: keeps_trans)
  then show ?thesis unfolding v(4) by (rule keeps_notify)
qed

lemma keeps_count: "keeps u (addToHandCountChart p n u)"
  using keeps_log(1) by (auto simp: addToHandCountChart_def split: option.split) (simp add: keeps_simps)

lemma keeps_source: "transferSource source p c me u = Some (b, u') \<Longrightarrow> keeps u u'"
proof (cases source)
  case CardTransferNodePlayerHand
  assume t: "transferSource source p c me u = Some (b, u')"
  let ?u = "addToHandCountChart p (-1) u"
  have k: "keeps ?u (?u\<lparr>uiHand := h\<rparr>)" for h by (simp add: keeps_simps)
  from t CardTransferNodePlayerHand show ?thesis
    by (auto simp: transferSource_def Let_def split: if_splits option.splits prod.splits
      intro: keeps_count keeps_trans [OF keeps_count keeps_trans [OF k keeps_hand]])
next
  case CardTransferNodePile
  assume t: "transferSource source p c me u = Some (b, u')"
  have k: "keeps u (u\<lparr>uiPile := d\<rparr>)" for d by (simp add: keeps_simps)
  from t CardTransferNodePile show ?thesis
    by (auto simp: transferSource_def split: prod.splits option.splits intro: k keeps_trans [OF k keeps_log(1)])
qed (auto simp: transferSource_def keeps_simps)

lemma keeps_sink: "transferSink srt sink p c me u = Some u' \<Longrightarrow> keeps u u'"
proof (cases sink)
  case CardTransferNodePlayerHand
  assume t: "transferSink srt sink p c me u = Some u'"
  let ?u = "addToHandCountChart p 1 u"
  have k: "keeps ?u (?u\<lparr>uiHand := h\<rparr>)" for h by (simp add: keeps_simps)
  from t CardTransferNodePlayerHand show ?thesis
    by (auto simp: transferSink_def Let_def split: if_splits intro: keeps_count keeps_trans [OF keeps_count keeps_trans [OF k keeps_hand]])
next
  case CardTransferNodePile
  assume t: "transferSink srt sink p c me u = Some u'"
  have k: "keeps u (u\<lparr>uiPile := d\<rparr>)" for d by (simp add: keeps_simps)
  from t CardTransferNodePile show ?thesis by (auto simp: transferSink_def intro: keeps_trans [OF k keeps_pile])
qed (auto simp: transferSink_def keeps_simps)

lemma keeps_transfer: "handleCardTransferEvent srt source sink p q c me u = Some u' \<Longrightarrow> keeps u u'"
  by (auto simp: handleCardTransferEvent_def Let_def split: option.splits prod.splits bool.splits
    dest!: keeps_source keeps_sink intro: keeps_trans keeps_log(1))

lemma part_upd [simp]:
  "promptPart (u\<lparr>promptTitle := x\<rparr>) = promptPart u" "promptPart (u\<lparr>action := a\<rparr>) = promptPart u"
  "promptPart (u\<lparr>gaugeColor := k\<rparr>) = promptPart u" "promptPart (u\<lparr>uiState := st\<rparr>) = promptPart u"
  "promptPart (u\<lparr>promptBorder := k\<rparr>) = promptPart u" "promptPart (u\<lparr>promptTextFg := k\<rparr>) = promptPart u"
  "promptPart (u\<lparr>eventLogBorder := k\<rparr>) = promptPart u" "promptPart (u\<lparr>reader := b\<rparr>) = promptPart u"
  "promptPart (u\<lparr>generalReader := g\<rparr>) = promptPart u" "shortLog (u\<lparr>generalReader := g\<rparr>) = shortLog u"
  "promptPart (u\<lparr>windowWidth := w\<rparr>) = promptPart u" "promptPart (u\<lparr>windowHeight := w\<rparr>) = promptPart u"
  "promptPart (u\<lparr>gridRect := sz\<rparr>) = promptPart u" "shortLog (u\<lparr>gridRect := sz\<rparr>) = shortLog u"
  "promptPart (notifyRedrawUI a u) = promptPart u" "promptPart (appendEventLog s u) = promptPart u"
  "shortLog (u\<lparr>promptTitle := x\<rparr>) = shortLog u" "shortLog (u\<lparr>action := a\<rparr>) = shortLog u"
  "shortLog (u\<lparr>gaugeColor := k\<rparr>) = shortLog u" "shortLog (u\<lparr>uiState := st\<rparr>) = shortLog u"
  "shortLog (u\<lparr>promptBorder := k\<rparr>) = shortLog u" "shortLog (u\<lparr>promptTextFg := k\<rparr>) = shortLog u"
  "shortLog (u\<lparr>eventLogBorder := k\<rparr>) = shortLog u" "shortLog (u\<lparr>reader := b\<rparr>) = shortLog u"
  "shortLog (u\<lparr>windowWidth := w\<rparr>) = shortLog u" "shortLog (u\<lparr>windowHeight := w\<rparr>) = shortLog u"
  "shortLog (notifyRedrawUI a u) = shortLog u" "shortLog (appendEventLog s u)"
  using keeps_log(2) [of u s] keeps_log(4) [of s u] by (simp_all add: promptPart_def shortLog_def notifyRedrawUI_def keeps_def)

lemma turn_upd [simp]:
  "uiState (notifyRedrawUI a u) = uiState u" "reader (notifyRedrawUI a u) = reader u"
  "uiState (appendEventLog s u) = uiState u" "reader (appendEventLog s u) = reader u"
  "decisionCommands (notifyRedrawUI a u) = decisionCommands u" "decisionCommands (appendEventLog s u) = decisionCommands u"
  using keeps_log(2) [of u s] by (simp_all add: notifyRedrawUI_def keeps_def turnPart_def promptPart_def)

text \<open>Game events only ever set the state to a win.\<close>

lemma game_keeps:
  assumes "handleGameEvent srt me ev u = Some u'"
  shows "promptPart u' = promptPart u \<and> (shortLog u \<longrightarrow> shortLog u') \<and> reader u' = reader u \<and>
    (uiState u' = uiState u \<or> uiState u' = ClientUIWeHaveAWinner)"
proof (cases "\<exists>source sink p q c b. ev = CardTransferEvent source sink p q c b")
  case True
  with assms show ?thesis by (auto dest!: keeps_transfer simp: keeps_def turnPart_def)
next
  case False
  with assms show ?thesis by (cases ev) (auto simp: bind_eq_Some_conv split: if_splits)
qed

section \<open>The invariant\<close>

fun promptOk :: "string \<times> string \<times> HistoryRing \<times> HistoryPos \<times> ReplCommand list \<times> ReplCommand list \<Rightarrow> bool" where
  "promptOk (shown, typed, h, pos, ds, gs) \<longleftrightarrow> shown = promptCell typed \<and> wf_ring h \<and> length (ring_buffer h) = 4 \<and>
     (\<exists>k. pos = int k \<and> k \<le> length (ringItems h)) \<and> (\<forall>cmd \<in> set ds. IsUserDecisionCommand (cmdKind cmd) \<and> okCommand cmd) \<and>
     (\<forall>cmd \<in> set gs. \<not> IsUserDecisionCommand (cmdKind cmd))"

definition uiInv :: "ClientUI \<Rightarrow> bool" where
  "uiInv u \<longleftrightarrow> shortLog u \<and> promptOk (promptPart u)"

lemma uiInv_keeps: "keeps u u' \<Longrightarrow> uiInv u \<Longrightarrow> uiInv u'"
  by (simp add: uiInv_def keeps_def)

lemma uiInv_typed: "uiInv u \<Longrightarrow> uiInv (notifyRedrawUI a (u\<lparr>commandStringBeingTyped := txt, promptCellText := promptCell txt\<rparr>))"
  by (simp add: uiInv_def promptPart_def shortLog_def notifyRedrawUI_def)

lemma parsed_okCommand: "ParseCommandFromInput input me = (cmd, None) \<Longrightarrow> okCommand cmd"
  using ParseCommandFromInput_valid [of input me cmd] by (simp add: okCommand_def)

text \<open>A command that is entered goes where it belongs and into the history.\<close>

lemma remember_ok:
  assumes "uiInv u"
  obtains h pos where "PosPush (commandStringBeingTyped u) (commandHistory u) = Some (h, pos)"
    "uiInv (resetCommandPrompt [] (u\<lparr>commandHistory := h, commandHistoryPos := pos\<rparr>))"
proof -
  have "wf_ring (commandHistory u)" using assms by (simp add: uiInv_def promptPart_def)
  from RingPush_spec [OF this, of "commandStringBeingTyped u"] obtain h where h: "RingPush (commandStringBeingTyped u) (commandHistory u) = Some h"
    "wf_ring h" "length (ring_buffer h) = length (ring_buffer (commandHistory u))" by blast
  show ?thesis
    by (rule that [of h 0]) (use h assms in \<open>simp_all add: PosPush_def ResetPos_def uiInv_def promptPart_def shortLog_def
      resetCommandPrompt_def notifyRedrawUI_def\<close>)
qed

lemma command_input_ok:
  assumes "uiInv u" "handleCommandInput errText me u = Some u'"
  shows "uiInv u'"
proof (cases "ParseCommandFromInput (commandStringBeingTyped u) me")
  case (Pair cmd err)
  let ?v = "appendEventLog (''ClientUI received command: '' @ ReplCommandKindString (cmdKind cmd)) u"
  have v: "uiInv ?v" using uiInv_keeps [OF keeps_log(2) assms(1)] .
  show ?thesis
  proof (cases err)
    case (Some e)
    with Pair assms uiInv_keeps [OF keeps_log(2)] show ?thesis by (auto simp: handleCommandInput_def)
  next
    case None
    have d: "uiInv (?v\<lparr>reader := Deciding, decisionCommands := decisionCommands ?v @ [cmd]\<rparr>)" if "IsUserDecisionCommand (cmdKind cmd)"
      using v that parsed_okCommand [OF Pair [unfolded None]] by (simp add: uiInv_def promptPart_def shortLog_def)
    have g: "uiInv (?v\<lparr>generalReader := False, generalCommands := generalCommands ?v @ [cmd]\<rparr>)" if "\<not> IsUserDecisionCommand (cmdKind cmd)"
      using v that by (simp add: uiInv_def promptPart_def shortLog_def)
    show ?thesis
    proof (cases "IsUserDecisionCommand (cmdKind cmd)")
      case True
      from remember_ok [OF d [OF True]] obtain h pos where
        r: "PosPush (commandStringBeingTyped (?v\<lparr>reader := Deciding, decisionCommands := decisionCommands ?v @ [cmd]\<rparr>))
          (commandHistory (?v\<lparr>reader := Deciding, decisionCommands := decisionCommands ?v @ [cmd]\<rparr>)) = Some (h, pos)"
        "uiInv (resetCommandPrompt [] (?v\<lparr>reader := Deciding, decisionCommands := decisionCommands ?v @ [cmd], commandHistory := h, commandHistoryPos := pos\<rparr>))"
        by auto
      with True Pair None assms(2) uiInv_keeps [OF keeps_log(2) v] show ?thesis
        by (auto simp: handleCommandInput_def Let_def split: if_splits)
    next
      case False
      from remember_ok [OF g [OF False]] obtain h pos where
        r: "PosPush (commandStringBeingTyped (?v\<lparr>generalReader := False, generalCommands := generalCommands ?v @ [cmd]\<rparr>))
          (commandHistory (?v\<lparr>generalReader := False, generalCommands := generalCommands ?v @ [cmd]\<rparr>)) = Some (h, pos)"
        "uiInv (resetCommandPrompt [] (?v\<lparr>generalReader := False, generalCommands := generalCommands ?v @ [cmd], commandHistory := h, commandHistoryPos := pos\<rparr>))"
        by auto
      with False Pair None assms(2) show ?thesis by (auto simp: handleCommandInput_def Let_def split: if_splits)
    qed
  qed
qed

text \<open>The keys that walk the history.\<close>

lemma history_key_ok:
  assumes "uiInv u" "get = GetOlder \<or> get = GetNewer"
  shows "\<exists>u'. historyKey get u = Some u' \<and> uiInv u'"
proof -
  let ?h = "commandHistory u"
  obtain k where k: "commandHistoryPos u = int k" "k \<le> length (ringItems ?h)" "wf_ring ?h"
    using assms(1) by (auto simp: uiInv_def promptPart_def)
  note nav = history_navigation [OF k(3,2)]
  have "\<exists>cmd ok j. get ?h (int k) = Some ((cmd, ok), int j) \<and> j \<le> length (ringItems ?h)"
  proof (cases "get = GetOlder")
    case True
    then show ?thesis using nav by (cases "ringItems ?h = []") (auto simp: Let_def intro: exI [of _ "0 :: nat"] min.cobounded2)
  next
    case False
    then have "get = GetNewer" using assms(2) by simp
    then show ?thesis using nav k(2) by (cases "k \<le> 1") (auto simp: of_nat_diff intro: exI [of _ "k - 1"])
  qed
  then obtain cmd ok j where g: "get ?h (int k) = Some ((cmd, ok), int j)" "j \<le> length (ringItems ?h)" by blast
  have "uiInv (u\<lparr>commandHistoryPos := int j\<rparr>)" using assms(1) g(2) by (simp add: uiInv_def promptPart_def shortLog_def)
  with uiInv_typed [OF this, of uiRedrawGrid cmd] show ?thesis using g(1) k(1) by (simp add: historyKey_def resetCommandPrompt_def Let_def)
qed

section \<open>Every step keeps the invariant\<close>

text \<open>An event of the terminal waits when it has to hand on a command and the goroutine that takes it does
  not receive: a decision while it is allowed, any other command, or the key that quits.\<close>

definition entersBlocked :: "string \<Rightarrow> ClientUI \<Rightarrow> bool" where
  "entersBlocked me u \<longleftrightarrow> (case ParseCommandFromInput (commandStringBeingTyped u) me of (cmd, err) \<Rightarrow> err = None \<and>
     (if IsUserDecisionCommand (cmdKind cmd) then uiState u = ClientUIAllowPlayerDecisionReplCommands \<and> reader u \<noteq> Receiving
      else \<not> generalReader u))"

fun handsOnBlocked :: "string \<Rightarrow> uiEvent \<Rightarrow> ClientUI \<Rightarrow> bool" where
  "handsOnBlocked me (KeyEvent k) u \<longleftrightarrow> k = ''<C-c>'' \<and> \<not> generalReader u \<or> k = ''<Enter>'' \<and> entersBlocked me u"
| "handsOnBlocked me _ u \<longleftrightarrow> False"

lemma general_log [simp]: "generalReader (appendEventLog s u) = generalReader u"
  by (simp add: appendEventLog_def appendEventLogNoLock_def notifyRedrawUI_def Let_def)

lemma command_input_None:
  assumes "uiInv u"
  shows "handleCommandInput errText me u = None \<longleftrightarrow> entersBlocked me u"
proof (cases "ParseCommandFromInput (commandStringBeingTyped u) me")
  case (Pair cmd err)
  let ?v = "appendEventLog (''ClientUI received command: '' @ ReplCommandKindString (cmdKind cmd)) u"
  obtain h pos where "PosPush (commandStringBeingTyped u) (commandHistory u) = Some (h, pos)"
    using remember_ok [OF assms] by blast
  moreover have "commandStringBeingTyped ?v = commandStringBeingTyped u" "commandHistory ?v = commandHistory u"
    using keeps_log(2) [of u] by (simp_all add: keeps_def promptPart_def)
  ultimately show ?thesis using Pair by (cases err) (auto simp: handleCommandInput_def entersBlocked_def Let_def)
qed

lemma quit_general: "\<not> IsUserDecisionCommand (cmdKind (NewReplCommand CmdQuit me))"
  by (simp add: NewReplCommand_def IsUserDecisionCommand_def less_eq_ReplCommandKind_def)

lemma key_ok:
  assumes "uiInv u" "k \<noteq> ''<Enter>''"
  shows "case handleUIEvent errText me (KeyEvent k) u of None \<Rightarrow> k = ''<C-c>'' \<and> \<not> generalReader u
    | Some u' \<Rightarrow> uiInv u' \<and> (k = ''<C-c>'' \<longrightarrow> generalReader u)"
proof -
  have q: "uiInv (notifyRedrawUI uiStop (u\<lparr>generalReader := g, generalCommands := generalCommands u @ [NewReplCommand CmdQuit me]\<rparr>))" for g
    using assms(1) quit_general by (simp add: uiInv_def promptPart_def shortLog_def notifyRedrawUI_def)
  have b: "uiInv (notifyRedrawUI a (u\<lparr>promptCellText := promptCell (commandStringBeingTyped u)\<rparr>))" for a
    using uiInv_typed [OF assms(1), of a "commandStringBeingTyped u"] by (simp add: uiInv_def promptPart_def shortLog_def notifyRedrawUI_def)
  obtain v w where h: "historyKey GetOlder u = Some v" "uiInv v" "historyKey GetNewer u = Some w" "uiInv w"
    using history_key_ok [OF assms(1)] by blast
  show ?thesis using assms q b h uiInv_typed [OF assms(1)] by (simp add: appendCommandPrompt_def backspaceCommandPrompt_def Let_def)
qed

lemma event_ok:
  assumes "uiInv u" "handleUIEvent errText me ev u = Some u'"
  shows "uiInv u'"
proof (cases ev)
  case (KeyEvent k)
  show ?thesis
  proof (cases "k = ''<Enter>''")
    case True
    with KeyEvent assms command_input_ok show ?thesis by auto
  next
    case False
    show ?thesis using key_ok [OF assms(1) False, of errText me] assms(2) [unfolded KeyEvent] by (simp del: handleUIEvent.simps)
  qed
qed (use assms uiInv_keeps [OF keeps_log(2)] in \<open>auto simp: uiInv_def\<close>)

lemma uiInv_step: "uiStep u u' \<Longrightarrow> uiInv u \<Longrightarrow> uiInv u'"
proof (induction rule: uiStep.induct)
  case (served srt me cmd' u u')
  then show ?case using uiInv_keeps keeps_served by blast
next
  case (game srt me gev u u')
  then show ?case using game_keeps by (metis uiInv_def)
next
  case (draw u goOn n u')
  then show ?case by (auto simp: RunDrawLoop_def uiInv_def split: UIAction.splits)
next
  case (event errText me ev u u')
  then show ?case using event_ok by blast
qed (auto simp: uiInv_def receiveGeneral_def askUserForDecision_def answerDecision_def finishAsking_def resetLogBorder_def runResetCommandPromptTitle_def
    setTurnBasedCommandPromptTitle_def Let_def split: option.splits)

lemma initClientUI_started: "initClientUI None rect styles fg border = Some (InitUI rect styles fg border)"
  by (simp add: initClientUI_def)

lemma uiInv_InitUI: "uiInv (InitUI rect styles fg border)"
  using wf_NewHistoryRing [of 4]
  by (simp add: uiInv_def promptPart_def shortLog_def InitUI_simps resetCommandPrompt_def notifyRedrawUI_def promptCell_def)
    (simp add: NewHistoryRing_def)

interpretation uis: invariant_system "\<lambda>u. \<exists>started rect styles fg border. initClientUI started rect styles fg border = Some u" uiStep uiInv
  by unfold_locales (auto simp: initClientUI_def uiInv_InitUI uiInv_step split: option.splits)

text \<open>After a win nothing is decided any more.\<close>

definition decided :: "asker \<Rightarrow> ReplCommand list \<Rightarrow> ClientUI \<Rightarrow> bool" where
  "decided r ds u \<longleftrightarrow> uiState u = ClientUIWeHaveAWinner \<and> decisionCommands u = ds \<and> (r = NoAsker \<longrightarrow> reader u = NoAsker)"

lemma decided_keeps: "promptPart u' = promptPart u \<Longrightarrow> turnPart u' = turnPart u \<Longrightarrow> decided r ds u \<Longrightarrow> decided r ds u'"
  by (simp add: decided_def promptPart_def turnPart_def)

lemma decided_event:
  assumes "decided r ds u" "handleUIEvent errText me ev u = Some u'"
  shows "decided r ds u'"
proof (cases ev)
  case (KeyEvent k)
  have h: "decided r ds v" if "historyKey get u = Some v" for get v
    using that assms(1) by (auto simp: historyKey_def resetCommandPrompt_def decided_def Let_def split: option.splits if_splits)
  have c: "decided r ds v" if "handleCommandInput errText me u = Some v" for v
  proof (cases "ParseCommandFromInput (commandStringBeingTyped u) me")
    case (Pair cmd err)
    with that assms(1) show ?thesis
      by (cases err) (auto simp: handleCommandInput_def Let_def bind_eq_Some_conv resetCommandPrompt_def decided_def split: if_splits)
  qed
  from KeyEvent assms h c show ?thesis
    by (auto simp: appendCommandPrompt_def backspaceCommandPrompt_def Let_def decided_def split: if_splits)
qed (use assms in \<open>auto simp: decided_def\<close>)

lemma decided_step: "uiStep u u' \<Longrightarrow> decided r ds u \<Longrightarrow> decided r ds u'"
proof (induction rule: uiStep.induct)
  case (served srt me cmd' u u')
  then show ?case using keeps_served decided_keeps unfolding keeps_def by blast
next
  case (game srt me gev u u')
  from game_keeps [OF game(1)] game(2) show ?case by (auto simp: decided_def promptPart_def)
next
  case (draw u goOn n u')
  then show ?case by (auto simp: RunDrawLoop_def decided_def split: UIAction.splits)
next
  case (event errText me ev u u')
  then show ?case using decided_event by blast
qed (auto simp: receiveGeneral_def askUserForDecision_def answerDecision_def finishAsking_def resetLogBorder_def
    runResetCommandPromptTitle_def setTurnBasedCommandPromptTitle_def Let_def decided_def split: option.splits)

section \<open>Properties\<close>

text \<open>C12. The interface in every order of keys, resizes, log lines, requests, answers, served cards, game
  events, redraws and returns of the client's handlers, from its start: the log has at most fifty lines,
  the prompt shows what is typed, the history keeps its four places, every decision command handed to the
  client is a valid decision command and every general command is none.  An event of the terminal is
  handled in each such state, except that it waits exactly when it has to hand on a command, a decision
  that is allowed, another command or the quit key, and the goroutine that takes it does not receive.\<close>

theorem ui_run_invariant:
  assumes "initClientUI started rect styles fg border = Some u0" "uiStep\<^sup>*\<^sup>* u0 u"
  shows "length (eventLogLines u) \<le> maxLinesInEventLog \<and> promptCellText u = promptCell (commandStringBeingTyped u) \<and>
    wf_ring (commandHistory u) \<and> length (ring_buffer (commandHistory u)) = 4 \<and>
    (\<forall>cmd \<in> set (decisionCommands u). IsUserDecisionCommand (cmdKind cmd) \<and> okCommand cmd) \<and>
    (\<forall>cmd \<in> set (generalCommands u). \<not> IsUserDecisionCommand (cmdKind cmd)) \<and>
    (handleUIEvent errText me ev u = None \<longleftrightarrow> handsOnBlocked me ev u)"
proof -
  have i: "uiInv u" using uis.reachable_inv [OF _ assms(2)] assms(1) by blast
  have "handleUIEvent errText me ev u = None \<longleftrightarrow> handsOnBlocked me ev u"
  proof (cases ev)
    case (KeyEvent k)
    show ?thesis
    proof (cases "k = ''<Enter>''")
      case True
      then show ?thesis using KeyEvent command_input_None [OF i] by simp
    next
      case False
      with key_ok [OF i this, of errText me] show ?thesis unfolding KeyEvent by (auto simp del: handleUIEvent.simps split: option.splits)
    qed
  qed simp_all
  with i show ?thesis by (simp add: uiInv_def promptPart_def shortLog_def)
qed

theorem ui_run_invariant_witness:
  "let cmd = \<lparr>challengeablePlayer = []\<rparr>;
       u = appendCommandPrompt ''draw'' (askUserForDecision cmd (InitUI (80, 24) [] UiWhite UiWhite)) in
   uiStep\<^sup>*\<^sup>* (InitUI (80, 24) [] UiWhite UiWhite) u \<and> promptCellText u = '' draw_'' \<and>
   handleUIEvent (\<lambda>_. []) ''bob'' (KeyEvent ''<C-c>'') u = None"
proof -
  let ?cmd = "\<lparr>challengeablePlayer = []\<rparr> :: UICommandAskUserForDecision"
  let ?v = "askUserForDecision ?cmd (InitUI (80, 24) [] UiWhite UiWhite)"
  let ?u = "appendCommandPrompt ''draw'' ?v"
  have "uiStep ?v ?u" by (rule uiStep.event [of "\<lambda>_. []" "''bob''" "KeyEvent ''draw''"]) simp
  then have r: "uiStep\<^sup>*\<^sup>* (InitUI (80, 24) [] UiWhite UiWhite) ?u" using uiStep.ask by (metis converse_rtranclp_into_rtranclp r_into_rtranclp)
  have v: "\<not> generalReader ?v" "commandStringBeingTyped ?v = []"
    by (simp_all add: askUserForDecision_def InitUI_simps resetCommandPrompt_def notifyRedrawUI_def)
  have u: "\<not> generalReader ?u" "commandStringBeingTyped ?u = ''draw''"
    using v by (simp_all add: appendCommandPrompt_def notifyRedrawUI_def Let_def)
  have "handsOnBlocked ''bob'' (KeyEvent ''<C-c>'') ?u" using u(1) by simp
  with ui_run_invariant [OF initClientUI_started r, of "\<lambda>_. []" "''bob''" "KeyEvent ''<C-c>''"] u r show ?thesis
    by (simp add: promptCell_def Let_def)
qed

text \<open>C13. After a win the interface takes no decision any more: once the event of a win is handled, in
  every further order of events the interface stays in the state of a win and hands on no decision
  command; and when no goroutine was asking, it starts none, whatever it is asked.\<close>

theorem win_ends_decisions:
  assumes "handleGameEvent srt me (PlayerHasWonEvent winner b) u = Some v" "uiStep\<^sup>*\<^sup>* v w"
  shows "uiState w = ClientUIWeHaveAWinner \<and> decisionCommands w = decisionCommands u \<and> (reader u = NoAsker \<longrightarrow> reader w = NoAsker)"
proof -
  have "decided (reader u) (decisionCommands u) v" using assms(1) by (auto simp: decided_def)
  with assms(2) have "decided (reader u) (decisionCommands u) w" by (induction rule: rtranclp_induct) (auto dest: decided_step)
  then show ?thesis by (simp add: decided_def)
qed

theorem win_ends_decisions_witness:
  "let u = InitUI (80, 24) [] UiWhite UiWhite; cmd = \<lparr>challengeablePlayer = []\<rparr> in
   \<exists>v. handleGameEvent (\<lambda>_. []) ''bob'' (PlayerHasWonEvent ''ann'' False) u = Some v \<and>
     reader (askUserForDecision cmd v) = NoAsker \<and> uiState (askUserForDecision cmd v) = ClientUIWeHaveAWinner"
proof -
  let ?cmd = "\<lparr>challengeablePlayer = []\<rparr> :: UICommandAskUserForDecision"
  let ?u = "InitUI (80, 24) [] UiWhite UiWhite"
  obtain v where v: "handleGameEvent (\<lambda>_. []) ''bob'' (PlayerHasWonEvent ''ann'' False) ?u = Some v"
    by (auto simp: changeIfSelf_def)
  have "reader ?u = NoAsker" by (simp add: InitUI_simps resetCommandPrompt_def notifyRedrawUI_def)
  with win_ends_decisions [OF v r_into_rtranclp [of uiStep, OF uiStep.ask [of v ?cmd]]] v show ?thesis unfolding Let_def by blast
qed

end
