(* ===== verification/Transport.thy ===== *)
theory Transport
  imports Messages
begin

text \<open>
  How messages travel: the framing of events as lines (\<open>internal/utils/line_reader.go\<close> and
  \<open>WriteJsonWithNewline\<close> of \<open>internal/utils/http_utils.go\<close>), the encryption of bodies
  (\<open>aes_encrypt.go\<close>, \<open>EncodeJSONAndEncrypt\<close> and \<open>DecryptAndDecodeJSON\<close> of
  \<open>internal/messages/messages.go\<close>), the key generator (\<open>cmd/aes-key-gen\<close>) and the errors of
  \<open>admin/admin_errors.go\<close>.  The JSON codec and the authenticated cipher are parameters.  A fatal log
  call ends the process (\<open>Fatal\<close>), a panic is \<open>None\<close>.
\<close>

section \<open>Reading lines\<close>

datatype ReadError = EOF | DoneReadingLines | TooLong

text \<open>The scanner is what is left of its input; once it has failed on a line that does not fit its buffer, it is
  what is left in the buffer.\<close>

record LineReader =
  scannerInput :: string
  scannerErr :: bool
  remainingPrevLine :: string

definition NewLineReader :: "string \<Rightarrow> LineReader" where
  "NewLineReader input = \<lparr>scannerInput = input, scannerErr = False, remainingPrevLine = []\<rparr>"

abbreviation "maxTokenSize \<equiv> (65536 :: nat)"

abbreviation lf :: char where "lf \<equiv> CHR 0x0A"
abbreviation cr :: char where "cr \<equiv> CHR 0x0D"

definition dropCR :: "string \<Rightarrow> string" where
  "dropCR s = (if s \<noteq> [] \<and> last s = cr then butlast s else s)"

text \<open>\<open>bufio.Scanner\<close> with lines: the next line without its end, and the rest of the input.\<close>

datatype scanResult = ScanDone | ScanTooLong | ScanLine string string

definition ScannerScan :: "string \<Rightarrow> scanResult" where
  "ScannerScan input =
     (let line = takeWhile (\<lambda>c. c \<noteq> lf) input; rest = dropWhile (\<lambda>c. c \<noteq> lf) input in
      if input = [] then ScanDone
      else if length line \<ge> maxTokenSize then ScanTooLong
      else ScanLine (dropCR line) (drop 1 rest))"

definition flushCurrentLine :: "nat \<Rightarrow> LineReader \<Rightarrow> (string \<times> ReadError option) \<times> LineReader" where
  "flushCurrentLine p r =
     (let copied = take p (remainingPrevLine r) in
      if length copied < length (remainingPrevLine r)
      then ((copied, None), r\<lparr>remainingPrevLine := drop (length copied) (remainingPrevLine r)\<rparr>)
      else ((copied, Some EOF), r\<lparr>remainingPrevLine := []\<rparr>))"

lemma ScannerScan_shorter: "ScannerScan input = ScanLine line rest \<Longrightarrow> length rest < length input"
proof -
  assume s: "ScannerScan input = ScanLine line rest"
  then have "input \<noteq> []" "rest = drop 1 (dropWhile (\<lambda>c. c \<noteq> lf) input)"
    by (auto simp: ScannerScan_def Let_def split: if_splits)
  then show ?thesis using length_dropWhile_le [of "\<lambda>c. c \<noteq> lf" input] by (cases input) auto
qed

text \<open>\<open>Scan\<close> after the failure: the bytes the full buffer holds come as one last line, then nothing more.\<close>

definition ScannerFlush :: "string \<Rightarrow> scanResult" where
  "ScannerFlush buffered = (if buffered = [] then ScanTooLong else ScanLine (dropCR buffered) [])"

lemma ScannerFlush_shorter: "ScannerFlush input = ScanLine line rest \<Longrightarrow> length rest < length input"
  by (auto simp: ScannerFlush_def split: if_splits)

text \<open>\<open>Read\<close> with a buffer of \<open>p\<close> bytes; it calls itself on an empty line.\<close>

function Read :: "nat \<Rightarrow> LineReader \<Rightarrow> (string \<times> ReadError option) \<times> LineReader" where
  "Read p r =
     (if remainingPrevLine r \<noteq> [] then flushCurrentLine p r
      else case (if scannerErr r then ScannerFlush else ScannerScan) (scannerInput r) of
        ScanLine line rest \<Rightarrow>
          (let r = r\<lparr>scannerInput := rest, remainingPrevLine := line\<rparr> in
           if line = [] then Read p r else flushCurrentLine p r)
      | ScanTooLong \<Rightarrow> (([], Some TooLong), r\<lparr>scannerInput := take maxTokenSize (scannerInput r), scannerErr := True\<rparr>)
      | ScanDone \<Rightarrow> (([], Some DoneReadingLines), r))"
  by pat_completeness auto
termination
  by (relation "measure (\<lambda>(p, r). length (scannerInput r))") (auto dest: ScannerScan_shorter ScannerFlush_shorter split: if_splits)

declare Read.simps [simp del]

text \<open>\<open>io.ReadAll\<close>: it reads into buffers of its own choice, \<open>buf k\<close> for the \<open>k\<close>th call, until an error;
  the end of a line is not one.\<close>

partial_function (option) ReadAll :: "(nat \<Rightarrow> nat) \<Rightarrow> nat \<Rightarrow> LineReader \<Rightarrow> (string \<times> ReadError option \<times> nat \<times> LineReader) option" where
  "ReadAll buf k r =
     (case Read (buf k) r of
        ((bs, None), r) \<Rightarrow> Option.bind (ReadAll buf (Suc k) r) (\<lambda>(bs', e, k, r). Some (bs @ bs', e, k, r))
      | ((bs, Some e), r) \<Rightarrow> Some (bs, if e = EOF then None else Some e, Suc k, r))"

text \<open>All messages of a stream, as the client's controller reads them.\<close>

fun readMessages :: "nat \<Rightarrow> (nat \<Rightarrow> nat) \<Rightarrow> nat \<Rightarrow> LineReader \<Rightarrow> (string list \<times> ReadError option) option" where
  "readMessages 0 buf k r = Some ([], None)"
| "readMessages (Suc n) buf k r =
     (case ReadAll buf k r of
        None \<Rightarrow> None
      | Some (bs, Some e, _, _) \<Rightarrow> Some ([], Some e)
      | Some (bs, None, k, r) \<Rightarrow>
          (case readMessages n buf k r of None \<Rightarrow> None | Some (ms, e) \<Rightarrow> Some (bs # ms, e)))"

section \<open>Writing lines\<close>

text \<open>A writer takes bytes, or reports an error; a buffer takes them all.\<close>

type_synonym 'w writer = "string \<Rightarrow> 'w \<Rightarrow> string option \<times> 'w"

definition bufferWrite :: "string writer" where
  "bufferWrite bs w = (None, w @ bs)"

text \<open>The encoder ends a value with a newline, and a second one follows.\<close>

definition WriteJsonWithNewline :: "'w writer \<Rightarrow> ('v \<Rightarrow> string + string) \<Rightarrow> 'v \<Rightarrow> 'w \<Rightarrow> string option \<times> 'w" where
  "WriteJsonWithNewline write encode v w =
     (case encode v of
        Inl err \<Rightarrow> (Some err, w)
      | Inr bs \<Rightarrow>
          (case write (bs @ [lf]) w of
             (Some err, w) \<Rightarrow> (Some err, w)
           | (None, w) \<Rightarrow> write [lf] w))"

text \<open>Events travel with their type.\<close>

record ServerEventMessage =
  messageType :: string
  Event :: ServerEvent

text \<open>A write to a stream; without a flusher the event is still written, and a line logged.\<close>

definition writeEventMessage ::
  "'w writer \<Rightarrow> (ServerEventMessage \<Rightarrow> string + string) \<Rightarrow> ('w \<Rightarrow> 'w) option \<Rightarrow> ServerEvent \<Rightarrow> 'w \<Rightarrow> string option \<times> 'w" where
  "writeEventMessage write encode flusher event w =
     (let eventMessage = \<lparr>messageType = EventType event, Event = event\<rparr> in
      case WriteJsonWithNewline write encode eventMessage w of
        (Some err, w) \<Rightarrow> (Some err, w)
      | (None, w) \<Rightarrow> (None, case flusher of Some flush \<Rightarrow> flush w | None \<Rightarrow> w))"

text \<open>\<open>decodeEvent\<close> reads the event of a text as one of the given type.\<close>

definition ParseServerEventMessage ::
  "(string \<Rightarrow> string + string) \<Rightarrow> (string \<Rightarrow> string \<Rightarrow> string + ServerEvent) \<Rightarrow> string \<Rightarrow> string + ServerEvent" where
  "ParseServerEventMessage decodeType decodeEvent b =
     (case decodeType b of
        Inl err \<Rightarrow> Inl (''could not parse event type: '' @ err)
      | Inr t \<Rightarrow>
          (if t \<in> {''player_joined'', ''existing_players_list'', ''served_cards'', ''chosen_player'', ''player_decisions_sync''}
           then decodeEvent t b
           else Inl (''unknown event, could not parse type: '' @ t)))"

definition WriteErrorPayload :: "'w writer \<Rightarrow> (string list \<Rightarrow> string + string) \<Rightarrow> GoError \<Rightarrow> 'w \<Rightarrow> 'w" where
  "WriteErrorPayload write encode err w =
     (let payload = PayloadAdd err [] in
      case encode payload of Inl _ \<Rightarrow> w | Inr bs \<Rightarrow> snd (write (bs @ [lf]) w))"

section \<open>Addresses\<close>

text \<open>\<open>resolve\<close> is the resolver of the network library: an IP address and a port, or an error.\<close>

definition hasPrefix :: "string \<Rightarrow> string \<Rightarrow> bool" where
  "hasPrefix s p \<longleftrightarrow> take (length p) s = p"

definition ResolveTCPAddress :: "(string \<Rightarrow> string + string \<times> int) \<Rightarrow> string \<Rightarrow> string + HostPortProtocol" where
  "ResolveTCPAddress resolve addr =
     (let protocol = (if hasPrefix addr ''http://'' then ''http''
                      else if hasPrefix addr ''https://'' then ''https''
                      else if hasPrefix addr ''tcp://'' then ''tcp''
                      else []);
          addr = trimProtocolPrefix addr
      in case resolve addr of
           Inl err \<Rightarrow> Inl err
         | Inr (ip, port) \<Rightarrow> Inr \<lparr>IP = ip, Port = port, Protocol = protocol\<rparr>)"

section \<open>Encryption\<close>

definition hexValue :: "char \<Rightarrow> nat option" where
  "hexValue c =
     (let n = (of_char c :: nat) in
      if 48 \<le> n \<and> n \<le> 57 then Some (n - 48)
      else if 97 \<le> n \<and> n \<le> 102 then Some (n - 87)
      else if 65 \<le> n \<and> n \<le> 70 then Some (n - 55)
      else None)"

fun hexDecode :: "string \<Rightarrow> nat list option" where
  "hexDecode [] = Some []"
| "hexDecode [_] = None"
| "hexDecode (a # b # cs) = do { x \<leftarrow> hexValue a; y \<leftarrow> hexValue b; zs \<leftarrow> hexDecode cs; Some ((16 * x + y) # zs) }"

datatype AESError = ErrInvalidAESKeyLength | ErrInvalidHex | CipherError string

text \<open>The authenticated mode of a block cipher: \<open>Seal\<close>, \<open>Open\<close> and the nonce size.\<close>

record AEAD =
  NonceSize :: nat
  Seal :: "string \<Rightarrow> string \<Rightarrow> string"
  Open :: "string \<Rightarrow> string \<Rightarrow> string + string"

record 'b AESCipher =
  aesKey :: "nat list"
  block :: 'b
  gcm :: AEAD

definition NewAESCipher :: "(nat list \<Rightarrow> string + 'b) \<Rightarrow> ('b \<Rightarrow> string + AEAD) \<Rightarrow> string \<Rightarrow> AESError + 'b AESCipher" where
  "NewAESCipher newCipher newGCM hexKey =
     (if length hexKey \<noteq> 64 then Inl ErrInvalidAESKeyLength
      else case hexDecode hexKey of
        None \<Rightarrow> Inl ErrInvalidHex
      | Some key \<Rightarrow>
          (case newCipher key of
             Inl e \<Rightarrow> Inl (CipherError e)
           | Inr b \<Rightarrow>
               (case newGCM b of
                  Inl e \<Rightarrow> Inl (CipherError e)
                | Inr g \<Rightarrow> Inr \<lparr>aesKey = key, block = b, gcm = g\<rparr>)))"

text \<open>The nonce comes from the random source, or an error does.\<close>

definition Encrypt :: "(nat \<Rightarrow> string + string) \<Rightarrow> 'b AESCipher \<Rightarrow> string \<Rightarrow> string + string" where
  "Encrypt random a plaintextBytes =
     (let nonceSize = NonceSize (gcm a) in
      case random nonceSize of
        Inl err \<Rightarrow> Inl err
      | Inr nonce \<Rightarrow>
          (let encryptedBytes = Seal (gcm a) nonce plaintextBytes in Inr (encryptedBytes @ nonce)))"

definition Decrypt :: "'b AESCipher \<Rightarrow> string \<Rightarrow> (string + string) option" where
  "Decrypt a encryptedWithNonceBytes =
     (let nonceSize = NonceSize (gcm a);
          encryptedBytesLen = int (length encryptedWithNonceBytes) - int nonceSize in
      if encryptedBytesLen < 0 then None
      else
        let cipherText = take (nat encryptedBytesLen) encryptedWithNonceBytes;
            nonce = take nonceSize (drop (nat encryptedBytesLen) encryptedWithNonceBytes)
        in Some (Open (gcm a) nonce cipherText))"

datatype 'a process = Fatal string | Done 'a

definition MustJSONReader :: "('v \<Rightarrow> string + string) \<Rightarrow> 'v \<Rightarrow> string process" where
  "MustJSONReader encode v = (case encode v of Inl err \<Rightarrow> Fatal err | Inr bs \<Rightarrow> Done (bs @ [lf]))"

definition MustEncryptJSON ::
  "('v \<Rightarrow> string + string) \<Rightarrow> (nat \<Rightarrow> string + string) \<Rightarrow> 'b AESCipher \<Rightarrow> 'v \<Rightarrow> string process" where
  "MustEncryptJSON encode random a v =
     (case encode v of
        Inl err \<Rightarrow> Fatal err
      | Inr bs \<Rightarrow> (case Encrypt random a (bs @ [lf]) of Inl err \<Rightarrow> Fatal err | Inr bs \<Rightarrow> Done bs))"

definition MustDecryptJSON :: "'b AESCipher \<Rightarrow> string + string \<Rightarrow> string process option" where
  "MustDecryptJSON a source =
     (case source of
        Inl err \<Rightarrow> Some (Fatal err)
      | Inr encryptedBytes \<Rightarrow>
          (case Decrypt a encryptedBytes of
             None \<Rightarrow> None
           | Some (Inl err) \<Rightarrow> Some (Fatal err)
           | Some (Inr bs) \<Rightarrow> Some (Done bs)))"

text \<open>Where a body goes: a response, with its headers, or a plain writer.\<close>

record Output =
  isResponseWriter :: bool
  contentTypes :: "string list"
  bodyBytes :: string

definition addContentType :: "string \<Rightarrow> Output \<Rightarrow> Output" where
  "addContentType t out = (if isResponseWriter out then out\<lparr>contentTypes := contentTypes out @ [t]\<rparr> else out)"

text \<open>Bodies, encrypted when there is a cipher.\<close>

definition EncodeJSONAndEncrypt ::
  "Output writer \<Rightarrow> ('v \<Rightarrow> string + string) \<Rightarrow> (nat \<Rightarrow> string + string) \<Rightarrow> 'v \<Rightarrow> Output \<Rightarrow> 'b AESCipher option \<Rightarrow>
   (string option \<times> Output) process" where
  "EncodeJSONAndEncrypt write encode random v out aesCipher =
     (case aesCipher of
        None \<Rightarrow>
          (let out = addContentType ''application/json'' out in
           case encode v of Inl err \<Rightarrow> Done (Some err, out) | Inr bs \<Rightarrow> Done (write (bs @ [lf]) out))
      | Some a \<Rightarrow>
          (let out = addContentType ''application/octet-stream'' out in
           case MustEncryptJSON encode random a v of Fatal err \<Rightarrow> Fatal err | Done bs \<Rightarrow> Done (write bs out)))"

definition DecryptAndDecodeJSON ::
  "(string \<Rightarrow> string + 'v) \<Rightarrow> string + string \<Rightarrow> 'b AESCipher option \<Rightarrow> (string + 'v) process option" where
  "DecryptAndDecodeJSON decode input aesCipher =
     (case aesCipher of
        None \<Rightarrow> Some (Done (case input of Inl err \<Rightarrow> Inl err | Inr bs \<Rightarrow> decode bs))
      | Some a \<Rightarrow>
          (case MustDecryptJSON a input of
             None \<Rightarrow> None
           | Some (Fatal err) \<Rightarrow> Some (Fatal err)
           | Some (Done bs) \<Rightarrow> Some (Done (decode bs))))"

section \<open>Keys\<close>

text \<open>The key generator: 64 digits, each picked by the random source.\<close>

definition keyDigits :: string where
  "keyDigits = ''0123456789abcdef''"

definition generateKey :: "(nat \<Rightarrow> nat) \<Rightarrow> string option" where
  "generateKey rnd = those (map (\<lambda>i. go_index keyDigits (int (rnd i))) [0..<256 div 4])"

section \<open>Errors of the admin\<close>

record SendEventMessageFailedError =
  failedPlayerName :: string
  failedEventName :: string
  failedReason :: "GoError option"

definition NewSendEventMessageFailedError :: "string \<Rightarrow> string \<Rightarrow> GoError option \<Rightarrow> SendEventMessageFailedError" where
  "NewSendEventMessageFailedError playerName eventName reason =
     \<lparr>failedPlayerName = playerName, failedEventName = eventName, failedReason = reason\<rparr>"

definition SendEventMessageFailedErrorText :: "SendEventMessageFailedError \<Rightarrow> string" where
  "SendEventMessageFailedErrorText e =
     (let reason = (case failedReason e of None \<Rightarrow> [] | Some r \<Rightarrow> ''Reason: '' @ errorText r)
      in ''Failed to send event message '' @ [CHR 0x27] @ failedEventName e @ [CHR 0x27] @ '' to player '' @ [CHR 0x27] @
         failedPlayerName e @ [CHR 0x27] @ ''. '' @ reason)"

record HTTPResponseCodeError =
  StatusCode :: int
  Status :: string

definition NewHTTPResponseCodeError :: "(int \<Rightarrow> string) \<Rightarrow> int \<Rightarrow> HTTPResponseCodeError" where
  "NewHTTPResponseCodeError statusText c = \<lparr>StatusCode = c, Status = statusText c\<rparr>"

definition HTTPResponseCodeErrorText :: "HTTPResponseCodeError \<Rightarrow> string" where
  "HTTPResponseCodeErrorText e = ''HTTP error response: '' @ show_int (StatusCode e) @ '' ('' @ Status e @ '')''"

section \<open>Lemmas\<close>

text \<open>Reading one line of the reader's own in pieces.\<close>

lemma flush_line:
  assumes "\<forall>k. 0 < buf k" "remainingPrevLine r \<noteq> []"
  shows "\<exists>k'. ReadAll buf k r = Some (remainingPrevLine r, None, k', r\<lparr>remainingPrevLine := []\<rparr>)"
  using assms(2)
proof (induction "length (remainingPrevLine r)" arbitrary: k r rule: less_induct)
  case less
  let ?l = "remainingPrevLine r"
  show ?case
  proof (cases "buf k < length ?l")
    case True
    let ?r = "r\<lparr>remainingPrevLine := drop (buf k) ?l\<rparr>"
    have "Read (buf k) r = ((take (buf k) ?l, None), ?r)"
      using less.prems True by (simp add: Read.simps [of _ r] flushCurrentLine_def Let_def)
    moreover have "length (remainingPrevLine ?r) < length ?l" "remainingPrevLine ?r \<noteq> []"
      using spec [OF assms(1), of k] True by simp_all
    then obtain k' where "ReadAll buf (Suc k) ?r = Some (drop (buf k) ?l, None, k', ?r\<lparr>remainingPrevLine := []\<rparr>)"
      using less.hyps [of ?r "Suc k"] by auto
    ultimately show ?thesis by (simp add: ReadAll.simps [of _ k])
  next
    case False
    then have "Read (buf k) r = ((?l, Some EOF), r\<lparr>remainingPrevLine := []\<rparr>)"
      using less.prems by (simp add: Read.simps [of _ r] flushCurrentLine_def Let_def)
    then show ?thesis by (simp add: ReadAll.simps [of _ k])
  qed
qed

text \<open>Reading a line of the input: the line goes to the reader first.\<close>

lemma ReadAll_line:
  assumes "\<forall>k. 0 < buf k" "remainingPrevLine r = []" "(if scannerErr r then ScannerFlush else ScannerScan) (scannerInput r) = ScanLine line rest" "line \<noteq> []"
  shows "\<exists>k'. ReadAll buf k r = Some (line, None, k', r\<lparr>scannerInput := rest\<rparr>)"
proof -
  let ?r = "r\<lparr>scannerInput := rest, remainingPrevLine := line\<rparr>"
  have "Read (buf k) r = Read (buf k) ?r" using assms(2-4) by (simp add: Read.simps [of _ r] Read.simps [of _ ?r] Let_def)
  then have "ReadAll buf k r = ReadAll buf k ?r" by (simp add: ReadAll.simps [of _ k])
  with flush_line [OF assms(1), of ?r k] assms(2,4) show ?thesis by (cases r) auto
qed

lemma ReadAll_blank:
  assumes "remainingPrevLine r = []" "(if scannerErr r then ScannerFlush else ScannerScan) (scannerInput r) = ScanLine [] rest"
  shows "ReadAll buf k r = ReadAll buf k (r\<lparr>scannerInput := rest\<rparr>)"
proof -
  have e: "r\<lparr>scannerInput := rest, remainingPrevLine := []\<rparr> = r\<lparr>scannerInput := rest\<rparr>" using assms(1) by (cases r) simp
  have "Read (buf k) r = Read (buf k) (r\<lparr>scannerInput := rest, remainingPrevLine := []\<rparr>)"
    by (subst Read.simps) (simp add: assms)
  then have "Read (buf k) r = Read (buf k) (r\<lparr>scannerInput := rest\<rparr>)" by (simp only: e)
  then show ?thesis by (simp add: ReadAll.simps [of _ k])
qed

text \<open>Encoded values as the JSON encoder writes them.\<close>

definition oneLine :: "string \<Rightarrow> bool" where
  "oneLine s \<longleftrightarrow> s \<noteq> [] \<and> lf \<notin> set s \<and> last s \<noteq> cr \<and> length s < maxTokenSize"

lemma ScannerScan_line: "oneLine s \<Longrightarrow> ScannerScan (s @ lf # rest) = ScanLine s rest"
  by (simp add: ScannerScan_def oneLine_def takeWhile_append dropWhile_append dropCR_def Let_def)

lemma ScannerScan_blank: "ScannerScan (lf # rest) = ScanLine [] rest"
  by (simp add: ScannerScan_def dropCR_def)

section \<open>Properties\<close>

text \<open>C37. Reading a message always ends: whatever the input and the state of the reader, reading until the end
  of a line, with buffers that are not empty, returns.\<close>

theorem ReadAll_returns:
  assumes "\<forall>k. 0 < buf k"
  shows "\<exists>res. ReadAll buf k r = Some res"
proof (induction "length (scannerInput r)" arbitrary: k r rule: less_induct)
  case less
  let ?scan = "if scannerErr r then ScannerFlush else ScannerScan"
  show ?case
  proof (cases "remainingPrevLine r = []")
    case True
    show ?thesis
    proof (cases "?scan (scannerInput r)")
      case (ScanLine line rest)
      then have "length (scannerInput (r\<lparr>scannerInput := rest\<rparr>)) < length (scannerInput r)"
        by (auto dest: ScannerScan_shorter ScannerFlush_shorter split: if_splits)
      with less [of "r\<lparr>scannerInput := rest\<rparr>"] True ReadAll_line [OF assms True ScanLine, of k] ReadAll_blank [of r rest buf k] ScanLine
      show ?thesis by (cases "line = []") auto
    qed (use True in \<open>simp_all add: ReadAll.simps [of _ k] Read.simps [of _ r]\<close>)
  qed (use flush_line [OF assms, of r k] in auto)
qed

theorem ReadAll_returns_witness: "\<exists>res. ReadAll (\<lambda>_. 512) 0 (NewLineReader ''ab'') = Some res"
  by (rule ReadAll_returns) simp

text \<open>What a server that writes events to a buffer leaves there.\<close>

definition writeEvents :: "(ServerEventMessage \<Rightarrow> string + string) \<Rightarrow> ServerEvent list \<Rightarrow> string \<Rightarrow> string" where
  "writeEvents encode evs w = fold (\<lambda>ev w. snd (writeEventMessage bufferWrite encode (Some id) ev w)) evs w"

abbreviation reading :: "string \<Rightarrow> LineReader" where
  "reading s \<equiv> \<lparr>scannerInput = s, scannerErr = False, remainingPrevLine = []\<rparr>"

abbreviation eventMessage :: "ServerEvent \<Rightarrow> ServerEventMessage" where
  "eventMessage ev \<equiv> \<lparr>messageType = EventType ev, Event = ev\<rparr>"

lemma written_events:
  "\<forall>ev \<in> set evs. encode (eventMessage ev) = Inr (f ev) \<Longrightarrow>
   writeEvents encode evs w = w @ concat (map (\<lambda>m. m @ [lf, lf]) (map f evs))"
  by (induction evs arbitrary: w) (simp_all add: writeEvents_def writeEventMessage_def WriteJsonWithNewline_def bufferWrite_def)

lemma parse_event:
  "decodeType b = Inr (EventType ev) \<Longrightarrow> ParseServerEventMessage decodeType decodeEvent b = decodeEvent (EventType ev) b"
  by (cases ev) (simp_all add: ParseServerEventMessage_def)

lemma ReadAll_blank_line: "ReadAll buf k (reading (lf # s)) = ReadAll buf k (reading s)"
  using ReadAll_blank [of "reading (lf # s)" s] ScannerScan_blank [of s] by simp

text \<open>A stream of messages: what is written for a message is read as that message, whatever follows it.
  \<open>holds r s\<close> says that the reader has the text \<open>s\<close> ahead.\<close>

locale message_stream =
  fixes frame :: "string \<Rightarrow> string"
    and receive :: "nat \<Rightarrow> 'r \<Rightarrow> (string \<times> 'e option \<times> nat \<times> 'r) option"
    and receiveAll :: "nat \<Rightarrow> nat \<Rightarrow> 'r \<Rightarrow> (string list \<times> 'e option) option"
    and holds :: "'r \<Rightarrow> string \<Rightarrow> bool"
    and sendable :: "string \<Rightarrow> bool"
    and ended :: 'e
  assumes receive_frame: "sendable m \<Longrightarrow> holds r (frame m @ s) \<Longrightarrow> \<exists>k' r'. receive k r = Some (m, None, k', r') \<and> holds r' s"
    and receive_end: "holds r [] \<Longrightarrow> \<exists>bs k' r'. receive k r = Some (bs, Some ended, k', r')"
    and receiveAll_more: "receive k r = Some (m, None, k', r') \<Longrightarrow>
      receiveAll (Suc n) k r = map_option (\<lambda>(ms, e). (m # ms, e)) (receiveAll n k' r')"
    and receiveAll_end: "receive k r = Some (m, Some e, k', r') \<Longrightarrow> receiveAll (Suc n) k r = Some ([], Some e)"
begin

lemma receive_messages:
  "\<forall>m \<in> set ms. sendable m \<Longrightarrow> holds r (concat (map frame ms)) \<Longrightarrow> receiveAll (Suc (length ms)) k r = Some (ms, Some ended)"
proof (induction ms arbitrary: k r)
  case Nil
  then show ?case using receive_end [of r k] receiveAll_end [of k r] by fastforce
next
  case (Cons m ms)
  then obtain k' r' where "receive k r = Some (m, None, k', r')" "holds r' (concat (map frame ms))"
    using receive_frame [of m r "concat (map frame ms)" k] by auto
  with Cons.IH [of r' k'] Cons.prems(1) show ?case by (simp add: receiveAll_more)
qed

end

definition hasAhead :: "LineReader \<Rightarrow> string \<Rightarrow> bool" where
  "hasAhead r s \<longleftrightarrow> r = reading s \<or> r = reading (lf # s)"

lemma ReadAll_ahead: "hasAhead r s \<Longrightarrow> ReadAll buf k r = ReadAll buf k (reading s)"
  by (auto simp: hasAhead_def ReadAll_blank_line)

interpretation lines: message_stream "\<lambda>m. m @ [lf, lf]" "ReadAll (\<lambda>k. Suc (b k))" "\<lambda>n. readMessages n (\<lambda>k. Suc (b k))"
    hasAhead oneLine DoneReadingLines for b
proof unfold_locales
  fix m r s k assume m: "oneLine m" "hasAhead r ((m @ [lf, lf]) @ s)"
  then have "\<exists>k'. ReadAll (\<lambda>k. Suc (b k)) k (reading (m @ lf # lf # s)) = Some (m, None, k', reading (lf # s))"
    using ReadAll_line [of "\<lambda>k. Suc (b k)" "reading (m @ lf # lf # s)" m "lf # s" k] ScannerScan_line [OF m(1), of "lf # s"]
    by (simp add: oneLine_def)
  with m(2) show "\<exists>k' r'. ReadAll (\<lambda>k. Suc (b k)) k r = Some (m, None, k', r') \<and> hasAhead r' s"
    by (auto simp: ReadAll_ahead hasAhead_def [of "reading (lf # s)"])
next
  fix r k assume "hasAhead r []"
  moreover have "ReadAll (\<lambda>k. Suc (b k)) k (reading []) = Some ([], Some DoneReadingLines, Suc k, reading [])"
    by (simp add: ReadAll.simps [of _ k] Read.simps [of _ "reading []"] ScannerScan_def)
  ultimately show "\<exists>bs k' r'. ReadAll (\<lambda>k. Suc (b k)) k r = Some (bs, Some DoneReadingLines, k', r')" by (simp add: ReadAll_ahead)
qed (auto split: option.split)

text \<open>C17. The event stream: the events a server writes, whose JSON texts are non-empty single lines that fit the
  scanner's buffer, are exactly the events a client reads and parses from the stream, in order and
  whatever buffers it reads into (each as the JSON codec gives it back); after the last one it
  learns that there are no more.\<close>

theorem event_stream_roundtrip:
  assumes "\<forall>ev \<in> set evs. encode (eventMessage ev) = Inr (f ev) \<and> oneLine (f ev) \<and>
      decodeType (f ev) = Inr (EventType ev) \<and> decodeEvent (EventType ev) (f ev) = Inr (g ev)"
    and "\<forall>k. 0 < buf k"
  shows "map_option (\<lambda>(ms, e). (map (ParseServerEventMessage decodeType decodeEvent) ms, e))
      (readMessages (Suc (length evs)) buf k (NewLineReader (writeEvents encode evs []))) =
    Some (map (\<lambda>ev. Inr (g ev)) evs, Some DoneReadingLines)"
proof -
  have "writeEvents encode evs [] = concat (map (\<lambda>m. m @ [lf, lf]) (map f evs))"
    using assms(1) written_events [of evs encode f "[]"] by simp
  moreover have "\<forall>m \<in> set (map f evs). oneLine m" using assms(1) by auto
  ultimately have "readMessages (Suc (length evs)) buf k (NewLineReader (writeEvents encode evs [])) =
      Some (map f evs, Some DoneReadingLines)"
    using lines.receive_messages [of "map f evs" "NewLineReader (writeEvents encode evs [])" "\<lambda>k. buf k - 1" k] assms(2)
    by (simp add: NewLineReader_def hasAhead_def)
  moreover have "map (ParseServerEventMessage decodeType decodeEvent) (map f evs) = map (\<lambda>ev. Inr (g ev)) evs"
    using assms(1) by (simp add: parse_event)
  ultimately show ?thesis by simp
qed

theorem event_stream_roundtrip_witness:
  "map_option (\<lambda>(ms, e). (map (ParseServerEventMessage (\<lambda>_. Inr ''player_joined'') (\<lambda>_ b. Inr (PlayerJoinedEvent b))) ms, e))
      (readMessages 3 (\<lambda>_. 1) 0 (NewLineReader (writeEvents (\<lambda>m. case Event m of PlayerJoinedEvent n \<Rightarrow> Inr n | _ \<Rightarrow> Inl [])
        [PlayerJoinedEvent ''ann'', PlayerJoinedEvent ''bob''] []))) =
     Some ([Inr (PlayerJoinedEvent ''ann''), Inr (PlayerJoinedEvent ''bob'')], Some DoneReadingLines)"
  using event_stream_roundtrip [of "[PlayerJoinedEvent ''ann'', PlayerJoinedEvent ''bob'']"
      "\<lambda>m. case Event m of PlayerJoinedEvent n \<Rightarrow> Inr n | _ \<Rightarrow> Inl []" "\<lambda>ev. case ev of PlayerJoinedEvent n \<Rightarrow> n | _ \<Rightarrow> []"
      "\<lambda>_. Inr ''player_joined''" "\<lambda>_ b. Inr (PlayerJoinedEvent b)" id "\<lambda>_. 1" 0]
  by (simp add: oneLine_def numeral_3_eq_3)

abbreviation responseWrite :: "Output writer" where
  "responseWrite bs out \<equiv> (None, out\<lparr>bodyBytes := bodyBytes out @ bs\<rparr>)"

abbreviation newResponse :: Output where
  "newResponse \<equiv> \<lparr>isResponseWriter = True, contentTypes = [], bodyBytes = []\<rparr>"

text \<open>C36. Encrypted bodies: with a cipher whose \<open>Open\<close> inverts \<open>Seal\<close>, and a random source that fills the nonce,
  the receiver decodes what the sender encoded, with and without encryption, and the response
  declares its content type; a body shorter than a nonce makes the receiver panic, and a body that
  \<open>Open\<close> refuses ends the receiver's process.\<close>

theorem encrypted_body_roundtrip:
  assumes opens: "\<And>nonce p. length nonce = NonceSize (gcm a) \<Longrightarrow> Open (gcm a) nonce (Seal (gcm a) nonce p) = Inr p"
    and random: "random (NonceSize (gcm a)) = Inr nonce" "length nonce = NonceSize (gcm a)"
    and json: "encode v = Inr s" "decode (s @ [lf]) = Inr v"
  shows "(\<forall>cipher \<in> {None, Some a}. \<exists>out. EncodeJSONAndEncrypt responseWrite encode random v newResponse cipher = Done (None, out) \<and>
        contentTypes out = [if cipher = None then ''application/json'' else ''application/octet-stream''] \<and>
        DecryptAndDecodeJSON decode (Inr (bodyBytes out)) cipher = Some (Done (Inr v))) \<and>
      (\<forall>bs. length bs < NonceSize (gcm a) \<longrightarrow> DecryptAndDecodeJSON decode (Inr bs) (Some a) = None) \<and>
      (\<forall>c nonce err. length nonce = NonceSize (gcm a) \<and> Open (gcm a) nonce c = Inl err \<longrightarrow>
        DecryptAndDecodeJSON decode (Inr (c @ nonce)) (Some a) = Some (Fatal err))"
proof (intro conjI)
  show "\<forall>cipher \<in> {None, Some a}. \<exists>out. EncodeJSONAndEncrypt responseWrite encode random v newResponse cipher = Done (None, out) \<and>
        contentTypes out = [if cipher = None then ''application/json'' else ''application/octet-stream''] \<and>
        DecryptAndDecodeJSON decode (Inr (bodyBytes out)) cipher = Some (Done (Inr v))"
    using assms by (simp add: EncodeJSONAndEncrypt_def DecryptAndDecodeJSON_def MustEncryptJSON_def
      MustDecryptJSON_def Encrypt_def Decrypt_def addContentType_def Let_def)
qed (simp_all add: DecryptAndDecodeJSON_def MustDecryptJSON_def Decrypt_def)

definition plainCipher :: "unit AESCipher" where
  "plainCipher = \<lparr>aesKey = [], block = (), gcm = \<lparr>NonceSize = 2, Seal = \<lambda>n p. p @ n,
     Open = \<lambda>n c. if length c \<ge> 2 \<and> drop (length c - 2) c = n then Inr (take (length c - 2) c) else Inl ''message authentication failed''\<rparr>\<rparr>"

theorem encrypted_body_roundtrip_witness:
  "(\<exists>out. EncodeJSONAndEncrypt responseWrite (\<lambda>_. Inr ''no'') (\<lambda>_. Inr ''12'') (3 :: nat) newResponse (Some plainCipher) = Done (None, out) \<and>
      DecryptAndDecodeJSON (\<lambda>s. Inr (length s)) (Inr (bodyBytes out)) (Some plainCipher) = Some (Done (Inr 3))) \<and>
   DecryptAndDecodeJSON (\<lambda>s. Inr (length s)) (Inr ''x'') (Some plainCipher) = None \<and>
   DecryptAndDecodeJSON (\<lambda>s. Inr (length s)) (Inr (''hi'' @ ''jk'')) (Some plainCipher) = Some (Fatal ''message authentication failed'')"
proof -
  have "length nonce = NonceSize (gcm plainCipher) \<Longrightarrow> Open (gcm plainCipher) nonce (Seal (gcm plainCipher) nonce p) = Inr p" for nonce p
    by (simp add: plainCipher_def)
  note r = encrypted_body_roundtrip [of plainCipher "\<lambda>_. Inr ''12''" "''12''" "\<lambda>_. Inr ''no''" 3 "''no''" "\<lambda>s. Inr (length s)", OF this]
  have n: "NonceSize (gcm plainCipher) = 2" by (simp add: plainCipher_def)
  have "\<exists>out. EncodeJSONAndEncrypt responseWrite (\<lambda>_. Inr ''no'') (\<lambda>_. Inr ''12'') (3 :: nat) newResponse (Some plainCipher) = Done (None, out) \<and>
      DecryptAndDecodeJSON (\<lambda>s. Inr (length s)) (Inr (bodyBytes out)) (Some plainCipher) = Some (Done (Inr 3))"
    using r [THEN conjunct1] by (auto simp: n)
  moreover have "DecryptAndDecodeJSON (\<lambda>s. Inr (length s)) (Inr ''x'') (Some plainCipher) = None"
    using r [THEN conjunct2, THEN conjunct1, rule_format, of "''x''"] by (simp add: n)
  moreover have "DecryptAndDecodeJSON (\<lambda>s. Inr (length s)) (Inr (''hi'' @ ''jk'')) (Some plainCipher) =
    Some (Fatal ''message authentication failed'')"
    using r [THEN conjunct2, THEN conjunct2, rule_format, of "''jk''" "''hi''"] by (simp add: plainCipher_def)
  ultimately show ?thesis by blast
qed

end
