(* ===== verification/Startup.thy ===== *)
theory Startup
  imports AdminRuns Client Transport
begin

text \<open>
  Starting the programs: \<open>LoadConfig\<close> and \<open>RunApp\<close> of \<open>admin/admin.go\<close> (which \<open>cmd/admin/admin_app.go\<close>
  calls) and of \<open>cmd/client/client_app.go\<close>, with the configurations of \<open>admin/admin_config.go\<close>,
  \<open>player_client/player_client_config.go\<close> and \<open>cmd/common_config.go\<close>.  The files, the JSON decoder, the
  environment and the cipher library are parameters; \<open>Fatal\<close> is the text of a fatal log call, and
  \<open>errText\<close> gives the text of an error value.  The models end where the loops of the programs begin.
\<close>

section \<open>Configurations\<close>

record ClientUserConfig =
  clientType :: string
  CommandListenIP :: string
  CommandListenPort :: int
  configAdvertiseIP :: string
  AdminHostIP :: string
  AdminPort :: int
  PlayerName :: string
  clientAESKeyString :: string
  clientEncryptMessages :: bool

record CommonConfig =
  AESKey :: string
  commonEncryptMessages :: bool

definition LoadCommonConfig :: "(string \<Rightarrow> string + CommonConfig) \<Rightarrow> string + CommonConfig" where
  "LoadCommonConfig envconfigProcess = (case envconfigProcess [] of Inl err \<Rightarrow> Inl err | Inr c \<Rightarrow> Inr c)"

text \<open>What the programs call: the file system, the decoder of a configuration, and the ciphers.\<close>

record ('f, 'c, 'b) env =
  openFile :: "string \<Rightarrow> string + 'f"
  readAllFile :: "'f \<Rightarrow> string + string"
  decodeConfig :: "string \<Rightarrow> string + 'c"
  newCipher :: "nat list \<Rightarrow> string + 'b"
  newGCM :: "'b \<Rightarrow> string + AEAD"
  errText :: "AESError \<Rightarrow> string"

abbreviation typeError :: string where
  "typeError \<equiv> ''expected '' @ [CHR 0x22] @ ''type'' @ [CHR 0x22] @ '' field in config to have value '' @ [CHR 0x22] @ ''admin'' @ [CHR 0x22]"

definition adminLoadConfig :: "('f, AdminUserConfig, 'b) env \<Rightarrow> string \<Rightarrow> (AdminUserConfig \<times> 'b AESCipher option) process" where
  "adminLoadConfig env configFile =
     (case openFile env configFile of
        Inl err \<Rightarrow> Fatal (''failed to open config file '' @ configFile @ '': '' @ err)
      | Inr f \<Rightarrow>
        (case readAllFile env f of
           Inl err \<Rightarrow> Fatal (''failed to read config file '' @ configFile @ '': '' @ err)
         | Inr configBytes \<Rightarrow>
           (case decodeConfig env configBytes of
              Inl err \<Rightarrow> Fatal (''failed to parse admin config: '' @ err)
            | Inr adminConfig \<Rightarrow>
                (if ConfigType adminConfig \<noteq> ''admin''
                 then Fatal typeError
                 else if EncryptMessages adminConfig
                 then (case NewAESCipher (newCipher env) (newGCM env) (AESKeyString adminConfig) of
                         Inl err \<Rightarrow> Fatal (''failed to create aes cipger: '' @ errText env err)
                       | Inr aesCipher \<Rightarrow> Done (adminConfig, Some aesCipher))
                 else Done (adminConfig, None)))))"

definition clientLoadConfig :: "('f, ClientUserConfig, 'b) env \<Rightarrow> string \<Rightarrow> (ClientUserConfig \<times> 'b AESCipher option) process" where
  "clientLoadConfig env configFile =
     (case openFile env configFile of
        Inl err \<Rightarrow> Fatal (''failed to open config file '' @ configFile @ '': '' @ err)
      | Inr f \<Rightarrow>
        (case readAllFile env f of
           Inl err \<Rightarrow> Fatal (''failed to read config file '' @ configFile @ '': '' @ err)
         | Inr configBytes \<Rightarrow>
           (case decodeConfig env configBytes of
              Inl err \<Rightarrow> Fatal (''failed to parse admin config: '' @ err)
            | Inr clientConfig \<Rightarrow>
                (if clientType clientConfig \<noteq> ''client''
                 then Fatal typeError
                 else if clientEncryptMessages clientConfig
                 then (case NewAESCipher (newCipher env) (newGCM env) (clientAESKeyString clientConfig) of
                         Inl err \<Rightarrow> Fatal (''failed to create aes cipger: '' @ errText env err)
                       | Inr aesCipher \<Rightarrow> Done (clientConfig, Some aesCipher))
                 else Done (clientConfig, None)))))"

section \<open>The programs\<close>

text \<open>The admin: \<open>firstTable\<close> is \<open>createStartingTable\<close>, which may end the process (\<open>None\<close>).  The result
  holds the server, its cipher and the address it listens on.\<close>

definition adminRunApp ::
  "('f, AdminUserConfig, 'b) env \<Rightarrow> (AdminUserConfig \<Rightarrow> Table option) \<Rightarrow> string \<Rightarrow>
   (Admin \<times> 'b AESCipher option \<times> string) process option" where
  "adminRunApp env firstTable adminConfigFile =
     (if adminConfigFile = [] then Some (Fatal ''missing flag: -conf config_file'')
      else case adminLoadConfig env adminConfigFile of
        Fatal err \<Rightarrow> Some (Fatal err)
      | Done (adminUserConfig, aesCipher) \<Rightarrow>
          (let listenAddr = \<lparr>IP = ListenIP adminUserConfig, Port = ListenPort adminUserConfig, Protocol = []\<rparr> in
           case firstTable adminUserConfig of
             None \<Rightarrow> None
           | Some t \<Rightarrow>
               Some (Done (RunServer (NewAdmin t (ReadyPlayerName adminUserConfig) adminUserConfig), aesCipher, BindString listenAddr))))"

text \<open>The client: the environment can replace the cipher of the configuration file.\<close>

definition clientRunApp ::
  "('f, ClientUserConfig, 'b) env \<Rightarrow> Card swaps \<Rightarrow> (string \<Rightarrow> string + CommonConfig) \<Rightarrow> string \<Rightarrow>
   (PlayerClient \<times> 'b AESCipher option) process" where
  "clientRunApp env srt envconfigProcess configFile =
     (case clientLoadConfig env configFile of
        Fatal err \<Rightarrow> Fatal err
      | Done (clientConfig, aesCipher) \<Rightarrow>
          (if \<not> IsUserNameAllowed (PlayerName clientConfig)
           then Fatal (''Only names with alphabet and underscore characters allowed, name given: '' @ PlayerName clientConfig)
           else
             let t = NewTable srt (PlayerName clientConfig);
                 defaultAdminAddr =
                   (if AdminHostIP clientConfig \<noteq> [] \<and> AdminPort clientConfig \<noteq> 0
                    then \<lparr>IP = AdminHostIP clientConfig, Port = AdminPort clientConfig, Protocol = []\<rparr>
                    else \<lparr>IP = [], Port = 0, Protocol = []\<rparr>)
             in case LoadCommonConfig envconfigProcess of
                  Inl err \<Rightarrow> Fatal (''failed to load common config: '' @ err)
                | Inr commonConfig \<Rightarrow>
                    (let started = (\<lambda>cipher. Done (NewPlayerClient t defaultAdminAddr (configAdvertiseIP clientConfig), cipher)) in
                     if commonEncryptMessages commonConfig
                     then (case NewAESCipher (newCipher env) (newGCM env) (AESKey commonConfig) of
                             Inl err \<Rightarrow> Fatal (errText env err)
                           | Inr cipher \<Rightarrow> started (Some cipher))
                     else started aesCipher)))"

section \<open>Keys\<close>

lemma those_map_Some: "those (map (\<lambda>i. Some (f i)) xs) = Some (map f xs)"
  by (induction xs) simp_all

lemma generateKey_digits:
  assumes "\<forall>i. rnd i < 16"
  shows "generateKey rnd = Some (map (\<lambda>i. keyDigits ! rnd i) [0..<64])"
proof -
  have "go_index keyDigits (int (rnd i)) = Some (keyDigits ! rnd i)" for i
    using assms by (simp add: keyDigits_def)
  then show ?thesis by (simp add: generateKey_def those_map_Some)
qed

lemma hexValue_digit: "n < 16 \<Longrightarrow> hexValue (keyDigits ! n) = Some n"
proof -
  have "\<forall>n \<in> {..<16}. hexValue (keyDigits ! n) = Some n" by code_simp
  then show "n < 16 \<Longrightarrow> hexValue (keyDigits ! n) = Some n" by simp
qed

text \<open>The bytes of the pairs of digits.\<close>

fun pairBytes :: "nat list \<Rightarrow> nat list" where
  "pairBytes (x # y # xs) = (16 * x + y) # pairBytes xs"
| "pairBytes _ = []"

lemma pairBytes_bytes: "\<forall>x \<in> set xs. x < 16 \<Longrightarrow> b \<in> set (pairBytes xs) \<Longrightarrow> b < 256"
  by (induction xs rule: pairBytes.induct) auto

lemma length_pairBytes: "length (pairBytes xs) = length xs div 2"
  by (induction xs rule: pairBytes.induct) simp_all

lemma hexDecode_digits:
  "\<forall>x \<in> set xs. x < 16 \<Longrightarrow> even (length xs) \<Longrightarrow> hexDecode (map (\<lambda>x. keyDigits ! x) xs) = Some (pairBytes xs)"
  by (induction xs rule: pairBytes.induct) (simp_all add: hexValue_digit)

lemma generated_key_bytes:
  assumes "\<forall>i. rnd i < 16" "generateKey rnd = Some key"
  shows "length key = 64 \<and> (\<exists>bs. hexDecode key = Some bs \<and> length bs = 32 \<and> (\<forall>b \<in> set bs. b < 256))"
proof -
  let ?xs = "map rnd [0..<64]"
  have k: "key = map (\<lambda>x. keyDigits ! x) ?xs" using assms(2) generateKey_digits [OF assms(1)] by (simp add: comp_def)
  have x: "\<forall>x \<in> set ?xs. x < 16" using assms(1) by simp
  have "hexDecode key = Some (pairBytes ?xs)" unfolding k using x by (intro hexDecode_digits) simp_all
  moreover have "\<forall>b \<in> set (pairBytes ?xs). b < 256" using pairBytes_bytes [OF x] by blast
  ultimately show ?thesis by (simp add: k length_pairBytes)
qed

section \<open>Properties\<close>

text \<open>Start-up with a generated key: the key generator never panics and prints a key that, with a cipher
  library that accepts 32-byte keys, both programs accept.  When both configurations carry that key
  and the environment does not replace it, an admin and a client start with the same cipher, the
  admin listening at the configured address, its players still to be added, and the client waiting to connect to that admin.\<close>

theorem generated_key_starts_both:
  assumes "\<forall>i. rnd i < 16"
    and accepts: "\<And>bs. length bs = 32 \<Longrightarrow> (\<forall>b \<in> set bs. b < 256) \<Longrightarrow> \<exists>b g. newCipher ea bs = Inr b \<and> newGCM ea b = Inr g"
    and same: "newCipher ec = newCipher ea" "newGCM ec = newGCM ea"
    and afile: "aconf \<noteq> []" "openFile ea aconf = Inr fa" "readAllFile ea fa = Inr abytes" "decodeConfig ea abytes = Inr ac"
      "ConfigType ac = ''admin''" "EncryptMessages ac" "generateKey rnd = Some (AESKeyString ac)" "firstTable ac = Some t"
    and cfile: "openFile ec cconf = Inr fc" "readAllFile ec fc = Inr cbytes" "decodeConfig ec cbytes = Inr cc"
      "clientType cc = ''client''" "clientEncryptMessages cc" "clientAESKeyString cc = AESKeyString ac"
      "IsUserNameAllowed (PlayerName cc)" "AdminHostIP cc = ListenIP ac" "ListenIP ac \<noteq> []" "AdminPort cc = ListenPort ac" "ListenPort ac \<noteq> 0"
    and environment: "envp [] = Inr common" "\<not> commonEncryptMessages common"
  shows "\<exists>a c cipher. adminRunApp ea firstTable aconf = Some (Done (a, Some cipher, ListenIP ac @ '':'' @ show_int (ListenPort ac))) \<and>
    clientRunApp ec srt envp cconf = Done (c, Some cipher) \<and>
    Admin.state a = AddingPlayers \<and> Admin.table a = t \<and> clientState c = WaitingToConnectToAdmin \<and>
    PlayerNames (ctable c) = [PlayerName cc] \<and> localName c = PlayerName cc \<and>
    HTTPAddressString (adminAddr c) = ''http://'' @ ListenIP ac @ '':'' @ show_int (ListenPort ac)"
proof -
  from generated_key_bytes [OF assms(1) afile(7)] accepts obtain bs b g where
    "length (AESKeyString ac) = 64" "hexDecode (AESKeyString ac) = Some bs" "newCipher ea bs = Inr b" "newGCM ea b = Inr g" by metis
  then have n: "NewAESCipher (newCipher ea) (newGCM ea) (AESKeyString ac) = Inr \<lparr>aesKey = bs, block = b, gcm = g\<rparr>"
    by (simp add: NewAESCipher_def)
  have "adminLoadConfig ea aconf = Done (ac, Some \<lparr>aesKey = bs, block = b, gcm = g\<rparr>)"
    using afile n by (simp add: adminLoadConfig_def)
  moreover have "clientLoadConfig ec cconf = Done (cc, Some \<lparr>aesKey = bs, block = b, gcm = g\<rparr>)"
    using cfile same n by (simp add: clientLoadConfig_def)
  ultimately show ?thesis using afile(1,8) cfile(7-11) environment
    by (simp add: adminRunApp_def clientRunApp_def LoadCommonConfig_def BindString_def HTTPAddressString_def NewAdmin_def
        RunServer_def NewPlayerClient_def NewTable_def createNewTable_def AddPlayer_def Let_def)
qed

definition demoAdminConfig :: AdminUserConfig where
  "demoAdminConfig = \<lparr>ConfigType = ''admin'', ListenPort = 9000, ListenIP = ''10.0.0.1'', ConfigRunREPL = False, ReadyPlayerName = ''ann'',
     PauseMsecsBeforeNewTurn = 0, AESKeyString = replicate 64 (CHR ''0''), EncryptMessages = True, DebugStartingHandConfigFile = [],
     DebugStartingHandConfig = None, DebugSignalNewTurnViaPrompt = False\<rparr>"

definition demoClientConfig :: ClientUserConfig where
  "demoClientConfig = \<lparr>clientType = ''client'', CommandListenIP = [], CommandListenPort = 0, configAdvertiseIP = [],
     AdminHostIP = ''10.0.0.1'', AdminPort = 9000, PlayerName = ''ann'', clientAESKeyString = replicate 64 (CHR ''0''),
     clientEncryptMessages = True\<rparr>"

definition demoEnv :: "'c \<Rightarrow> (string, 'c, nat list) env" where
  "demoEnv c = \<lparr>openFile = Inr, readAllFile = Inr, decodeConfig = \<lambda>_. Inr c, newCipher = Inr,
     newGCM = \<lambda>_. Inr (gcm plainCipher), errText = \<lambda>_. []\<rparr>"

theorem generated_key_starts_both_witness:
  "\<exists>a c cipher. adminRunApp (demoEnv demoAdminConfig) (\<lambda>_. Some (NewAdminTable (\<lambda>_. []))) ''a.json'' =
      Some (Done (a, Some cipher, ''10.0.0.1'' @ '':'' @ show_int 9000)) \<and>
    clientRunApp (demoEnv demoClientConfig) (\<lambda>_. []) (\<lambda>_. Inr \<lparr>AESKey = [], commonEncryptMessages = False\<rparr>) ''c.json'' = Done (c, Some cipher) \<and>
    Admin.state a = AddingPlayers \<and> clientState c = WaitingToConnectToAdmin"
proof -
  have k: "generateKey (\<lambda>_. 0) = Some (AESKeyString demoAdminConfig)"
    by (simp add: generateKey_digits demoAdminConfig_def keyDigits_def map_replicate_const)
  have u: "IsUserNameAllowed (PlayerName demoClientConfig)" by code_simp
  show ?thesis
    using generated_key_starts_both [of "\<lambda>_. 0" "demoEnv demoAdminConfig" "demoEnv demoClientConfig" "''a.json''" "''a.json''" "''a.json''"
      demoAdminConfig "\<lambda>_. Some (NewAdminTable (\<lambda>_. []))" "NewAdminTable (\<lambda>_. [])" "''c.json''" "''c.json''" "''c.json''" demoClientConfig
      "\<lambda>_. Inr \<lparr>AESKey = [], commonEncryptMessages = False\<rparr>" "\<lparr>AESKey = [], commonEncryptMessages = False\<rparr>" "\<lambda>_. []", OF _ _ _ _ _ _ _ _ _ _ k _ _ _ _ _ _ _ u]
    by (simp add: demoEnv_def demoAdminConfig_def demoClientConfig_def) blast
qed

end
