(* ===== verification/Spec2Isabelle.thy ===== *)
theory Spec2Isabelle
  imports History NetworkRuns Stall Routes UIRuns Startup
begin

text \<open>
  Verification of \<^emph>\<open>uknow\<close>, a card game in the manner of Uno played over a network: an admin server
  holds the game, and each player runs a client with a terminal interface.

  \<^bold>\<open>The program and its model.\<close>  All players keep a copy of the table.  The admin deals the cards, sends
  the table to the clients as an event, and announces whose turn it is; the client of that player asks
  its user for decisions, evaluates them on its own table and sends the accepted ones to the admin; the
  admin evaluates them, sends them to the other clients, which evaluate them too and acknowledge, and
  announces the next turn when all acks have arrived.  Events travel over one long response per client,
  one JSON value per line; requests are encrypted when a key is configured.  The interface of a client
  shows the table by following the events that evaluations push on a channel.

  \<^item> \<open>GoPrelude\<close>: what the sources use of Go (indexing and slicing that can panic, map order, sorting,
    decimal text), and the locale \<open>invariant_system\<close>.
  \<^item> \<open>Cards\<close>, \<open>Decks\<close>, \<open>GameEvents\<close>, \<open>Tables\<close>, \<open>Shuffle\<close>, \<open>Eval\<close>: \<open>uknow.go\<close>, \<open>card_hash.go\<close>,
    \<open>game_event.go\<close>, \<open>uknow_utils.go\<close>, \<open>playerdecisionkind_string.go\<close>, one definition per function, with
    one more for a loop or a branch that is large.  A \<open>Table\<close> is a record with the fields of the struct.
  \<^item> \<open>Rules\<close>: the rules of the game as a total function \<open>ruleStep\<close> on an abstract \<open>Game\<close>, and the refinement
    of it by \<open>EvalPlayerDecision\<close>; the invariant \<open>wf_game\<close>; the locale \<open>decision_machine\<close>.
  \<^item> \<open>HandReader\<close>: \<open>hand_reader/hand_reader.go\<close>, tables in the middle of a game from a configuration.
  \<^item> \<open>ReplCommand\<close>, \<open>History\<close>: \<open>player_client/repl_command.go\<close> and \<open>command_history.go\<close>.
  \<^item> \<open>Messages\<close>, \<open>Transport\<close>: \<open>internal/messages/messages.go\<close>, \<open>internal/utils/http_utils.go\<close>,
    \<open>internal/utils/line_reader.go\<close>, \<open>aes_encrypt.go\<close>, \<open>admin/admin_errors.go\<close>, \<open>cmd/aes-key-gen\<close>.
  \<^item> \<open>Acks\<close>: \<open>admin/expected_acks.go\<close>; registrations, arriving acks and timers are interleaved steps.
  \<^item> \<open>Admin\<close>, \<open>AdminRuns\<close>: \<open>admin/admin.go\<close> and \<open>admin_config.go\<close>; handlers, controller and goroutines as
    functions on the record \<open>Admin\<close>, interleaved by the relation \<open>serverStep\<close>: \<open>adminStep\<close> takes all requests,
    \<open>orderlyStep\<close> only those of an orderly game, which the server does not check.  A panic in a handler is
    recovered by the HTTP server, and what it leaves, a table dealt in part, is the state of the next step.
    The lines of the prompt, a restart among them, are \<open>promptStep\<close>; invariants of the server are about
    runs without them, and only the stop after a refused join is shown for both together.
  \<^item> \<open>Client\<close>: \<open>player_client/player_client.go\<close>, \<open>player_client_sse.go\<close>, \<open>ui_command.go\<close>.
  \<^item> \<open>Routes\<close>: the senders of \<open>http_utils.go\<close>, the routers of the admin and of the client, and every step
    a client takes (\<open>clientStep\<close>).
  \<^item> \<open>ClientUI\<close>, \<open>UIView\<close>, \<open>UIRuns\<close>: \<open>player_client_ui.go\<close>, \<open>uiaction_string.go\<close>,
    \<open>replcommandkind_string.go\<close>; the data behind the widgets and their place in the grid, that they show the
    table, and every order of what happens to them (\<open>uiStep\<close>).  The channels for commands have no buffer: a
    handler of a key that hands on a command waits until the goroutine of the client receives.
  \<^item> \<open>Session\<close>: the admin and its clients together, one turn at a time.
  \<^item> \<open>Network\<close>, \<open>NetworkRuns\<close>: the admin, its clients, the requests on their way and the unread parts of
    the event streams as one state, with every interleaving of their steps (\<open>netStep\<close>).
  \<^item> \<open>Stall\<close>: three ways in which a game comes to a halt.
  \<^item> \<open>Startup\<close>: \<open>cmd/client/client_app.go\<close>, \<open>cmd/common_config.go\<close>, \<open>player_client_config.go\<close> and the
    \<open>RunApp\<close> of \<open>admin.go\<close> that \<open>cmd/admin/admin_app.go\<close> calls.

  \<^bold>\<open>Conventions.\<close>  A panic is \<open>None\<close>; a Go error is a value in the result; a fatal log call is \<open>None\<close>, or
  \<open>Fatal\<close> where its text is kept.  State is passed explicitly.  What the program does not determine is a
  parameter: the random source, the order of a loop over a map (any order of its keys), the result of
  \<open>sort.Sort\<close> (any sequence of swaps, since the comparison is not an order), the results of requests,
  the JSON codec and the cipher.  Counters are mathematical integers; the values that the program
  masks and shifts (\<open>card_hash.go\<close>) are 32-bit words.  No operation of the model needs fuel: loops are
  structural recursions, \<open>Read\<close> terminates by the length of its input, and \<open>ReadAll\<close> is a partial function
  for which \<open>ReadAll_returns\<close> shows that it returns; \<open>readMessages n\<close> reads at most \<open>n\<close> messages, and one
  more than were written reaches the end of the stream.  In \<open>Network\<close> connections stay up, requests and
  events are neither lost nor doubled, acks come within their time and after their registration, and a
  turn is finished only when the deck can pay its challenges and the interface has shown no win; what
  happens otherwise is the subject of \<open>Acks\<close>, \<open>AdminRuns\<close>, \<open>UIRuns\<close> and \<open>Stall\<close>.  The shares of the grid are rationals.

  \<^bold>\<open>What is shown.\<close>
  \<^item> Game: evaluation refines the rules and keeps the invariant and the cards (\<open>Rules\<close>); deals are right
    for every random source (\<open>Shuffle\<close>); a whole game holds one full deck (this theory).
  \<^item> Server: invariants in every interleaving of orderly requests, completion of a round of acks, and the effects of its
    missing checks (\<open>AdminRuns\<close>, \<open>Acks\<close>).
  \<^item> Clients: what a client sends replays to its own table (\<open>Client\<close>) and reaches the handler that reads it
    (\<open>Routes\<close>); the interface shows the table (\<open>UIView\<close>) and keeps its prompt in order whatever happens
    (\<open>UIRuns\<close>).
  \<^item> All together: in a session all tables agree (\<open>Session\<close>); in every interleaving of admin, clients and
    network the tables agree up to decisions on their way, nothing deadlocks before a win while the deck has
    cards, and no messages are exchanged for ever without completing turns (\<open>NetworkRuns\<close>); an early ack or an empty deck stops the game, and a second
    decision can end the server (\<open>Stall\<close>).
  \<^item> Transport and text: event streams, encrypted bodies, card encodings and commands round trip; the
    history, the event log and the parser keep their bounds and forms.
  \<^item> Interfaces are locales, each interpreted on the definitions of the component that provides it:
    \<open>invariant_system\<close> (acks, admin, clients, network, interface), \<open>codec\<close> (cards), \<open>card_stack\<close> (decks), \<open>seating\<close> (tables),
    \<open>decision_machine\<close> (evaluation), \<open>bounded_history\<close> (history), \<open>message_stream\<close> (line reader),
    \<open>event_follower\<close> (user interface).

  \<^bold>\<open>Not modelled.\<close>  HTTP, sockets, the passing of time, log files, and drawing by the terminal library;
  \<open>DummyClientUI\<close>, \<open>dummy_card_transfer_event_consumer.go\<close> and \<open>StringSlice\<close>, which have no caller;
  \<open>MakeCommChannels\<close>, whose channels are the lists of the model, those without a buffer with a field for
  the goroutine that receives; \<open>admin_deprecated.go\<close>, which is one
  commented-out block; \<open>routes_summary.go\<close>, which logs the routes it gets from the router library.
\<close>

section \<open>Games from the first seat on\<close>

definition seatPlayers :: "string list \<Rightarrow> Table \<Rightarrow> Table" where
  "seatPlayers ps t = fold (\<lambda>p t. snd (AddPlayer p t)) ps t"

text \<open>The tables of a game that the admin hosts: players join a new table, a seated player is the
  shuffler, the cards are dealt, and then seated players' decision lists are evaluated.\<close>

inductive gameReach :: "Table \<Rightarrow> bool" where
  dealt: "s \<in> set ps \<Longrightarrow> t0 = (seatPlayers ps (NewAdminTable srt))\<lparr>ShufflerName := s\<rparr> \<Longrightarrow>
    range_order ks (IndexOfPlayer t0) \<Longrightarrow> ShuffleDeckAndDistribute rnd ks h t0 = Some t \<Longrightarrow> gameReach t"
| decided: "gameReach t \<Longrightarrow> p \<in> set (PlayerNames t) \<Longrightarrow> \<forall>d \<in> set ds. okDecision d \<Longrightarrow>
    EvalPlayerDecisions srt p ds ch t = Some (e, ch', t') \<Longrightarrow> gameReach t'"

lemma seatPlayers_inv:
  "wf_table t \<Longrightarrow> \<forall>p \<in> set (PlayerNames t). handOf t p = [] \<Longrightarrow>
   wf_table (seatPlayers ps t) \<and> tableCards (seatPlayers ps t) = tableCards t \<and>
   set (PlayerNames (seatPlayers ps t)) = set (PlayerNames t) \<union> set ps \<and>
   (\<forall>p \<in> set (PlayerNames (seatPlayers ps t)). handOf (seatPlayers ps t) p = [])"
proof (induction ps arbitrary: t)
  case (Cons p ps)
  let ?t = "snd (AddPlayer p t)"
  have w: "wf_table ?t" using Cons.prems(1) by (rule AddPlayer_wf)
  have c: "tableCards ?t = tableCards t" using Cons.prems(1) by (rule tableCards_AddPlayer)
  have n: "set (PlayerNames ?t) = insert p (set (PlayerNames t))"
    by (cases "p \<in> set (PlayerNames t)") (auto simp: AddPlayer_fresh AddPlayer_taken)
  have h: "\<forall>q \<in> set (PlayerNames ?t). handOf ?t q = []"
    using Cons.prems(2) by (cases "p \<in> set (PlayerNames t)") (auto simp: AddPlayer_fresh AddPlayer_taken)
  have "seatPlayers (p # ps) t = seatPlayers ps ?t" by (simp add: seatPlayers_def)
  with Cons.IH [OF w h] c n show ?case by simp
qed (simp add: seatPlayers_def)

lemma new_table_seated:
  "wf_table (seatPlayers ps (NewAdminTable srt))" "set (PlayerNames (seatPlayers ps (NewAdminTable srt))) = set ps"
  "tableCards (seatPlayers ps (NewAdminTable srt)) = mset unsortedFullDeck"
  "\<forall>p \<in> set ps. handOf (seatPlayers ps (NewAdminTable srt)) p = []"
proof -
  have "PlayerNames (NewAdminTable srt) = []" by (simp add: NewAdminTable_def createNewTable_def)
  with seatPlayers_inv [of "NewAdminTable srt" ps] wf_createNewTable [of srt] tableCards_createNewTable [of srt]
  show "wf_table (seatPlayers ps (NewAdminTable srt))" "set (PlayerNames (seatPlayers ps (NewAdminTable srt))) = set ps"
    "tableCards (seatPlayers ps (NewAdminTable srt)) = mset unsortedFullDeck"
    "\<forall>p \<in> set ps. handOf (seatPlayers ps (NewAdminTable srt)) p = []"
    by (auto simp: NewAdminTable_def)
qed

lemma dealt_ok:
  assumes "s \<in> set ps" "t0 = (seatPlayers ps (NewAdminTable srt))\<lparr>ShufflerName := s\<rparr>"
    "range_order ks (IndexOfPlayer t0)" "ShuffleDeckAndDistribute rnd ks h t0 = Some t"
  shows "wf_game t \<and> tableCards t = mset unsortedFullDeck"
proof -
  note n = new_table_seated [of ps srt]
  have w: "wf_table t0" using n(1) by (simp add: assms(2) wf_table_def wf_seating_def)
  have c: "tableCards t0 = mset unsortedFullDeck" using n(3) by (simp add: assms(2) tableCards_def)
  have s: "ShufflerName t0 \<in> set (PlayerNames t0)" using n(2) assms(1,2) by simp
  have e: "\<forall>p \<in> set (PlayerNames t0). handOf t0 p = []" using n(2,4) assms(2) by simp
  have v: "\<forall>c \<in># tableCards t0. valid_card c"
    unfolding c using count_unsortedFullDeck by (metis count_eq_zero_iff)
  have "ShuffleDeckAndDistribute rnd ks h t0 \<noteq> None" using assms(4) by simp
  then have "0 < h" "h \<le> 12" "h * PlayerCount t0 < Len (DrawDeck t0)" unfolding deal_panics [OF w assms(3)] by simp_all
  from deal_ok [OF w assms(3) s e v this, of rnd] assms(4) c show ?thesis by auto
qed

section \<open>Properties\<close>

text \<open>C3. Over a whole game, from an empty table through seating, the deal and any decisions of seated
  players in any order, accepted or rejected, the table is always one on which the game can go on, and its
  cards are always exactly those of one full deck of 108.\<close>

theorem game_conserves_full_deck:
  "gameReach t \<Longrightarrow> wf_game t \<and> tableCards t = mset (NewFullDeck srt) \<and> size (tableCards t) = 108"
proof -
  assume "gameReach t"
  then have "wf_game t \<and> tableCards t = mset unsortedFullDeck"
  proof (induction rule: gameReach.induct)
    case (dealt s ps t0 srt ks rnd h t)
    then show ?case by (rule dealt_ok)
  next
    case (decided t p ds srt ch e ch' t')
    then show ?case using tables.run_ok [of "(ch, t)" p ds srt] by auto
  qed
  then show ?thesis by (simp add: length_unsortedFullDeck)
qed

theorem game_conserves_full_deck_witness:
  "\<exists>t. gameReach t \<and> PlayerNames t \<noteq> [] \<and> size (tableCards t) = 108"
proof -
  let ?t0 = "(seatPlayers [''al'', ''bob''] (NewAdminTable (\<lambda>_. [])))\<lparr>ShufflerName := ''al''\<rparr>"
  note n = new_table_seated [of "[''al'', ''bob'']" "\<lambda>_. []"]
  have names: "PlayerNames ?t0 = [''al'', ''bob'']" "IndexOfPlayer ?t0 = [''al'' \<mapsto> 0, ''bob'' \<mapsto> 1]"
    "length (DrawDeck ?t0) = 108"
    by (simp_all add: seatPlayers_def AddPlayer_def NewAdminTable_def createNewTable_def NewFullDeck_def length_unsortedFullDeck Let_def)
  have w: "wf_table ?t0" using n(1) by (simp add: wf_table_def wf_seating_def)
  have r: "range_order [''al'', ''bob''] (IndexOfPlayer ?t0)" using names(2) by (auto simp: range_order_def)
  have "ShuffleDeckAndDistribute (\<lambda>_. 0) [''al'', ''bob''] 7 ?t0 \<noteq> None"
    unfolding deal_panics [OF w r] using names by (simp add: Len_def PlayerCount_def)
  then obtain t where t: "ShuffleDeckAndDistribute (\<lambda>_. 0) [''al'', ''bob''] 7 ?t0 = Some t" by blast
  have "gameReach t" using gameReach.dealt [OF _ refl r t] by simp
  moreover from game_conserves_full_deck [OF this, of "\<lambda>_. []"] have "wf_game t" "size (tableCards t) = 108" by blast+
  ultimately show ?thesis using wf_gameD(5) by blast
qed

end
